(* ===== verification/Prelude.thy ===== *)
theory Prelude
  imports Main "HOL-Library.Word" "HOL-Library.Sublist"
begin

text \<open>
  What every component of the development shares: the collections its automation uses, the
  reading of the C++ standard library's \<open>std::string\<close> on lists of characters, and generic
  lemmas on lists, options and association lists.

  A \<open>std::string\<close> is a list of bytes (type \<open>string\<close>). \<open>operator[]\<close> at the index
  \<open>size()\<close> reads the terminating \<open>'\0'\<close> (C++11); \<open>substr(pos, len)\<close> clips at the end.
  The C locale is assumed for \<open>isspace\<close> and \<open>tolower\<close>.
\<close>

named_theorems bset_simps \<open>bitsets read as sets of indices\<close>
named_theorems run_simps \<open>unfolding the operations of a component\<close>

subsection \<open>Strings of the C++ standard library\<close>

definition char_at :: "string \<Rightarrow> nat \<Rightarrow> char" where
  "char_at s i = (if i < length s then s ! i else CHR 0x00)"

definition substr :: "string \<Rightarrow> nat \<Rightarrow> nat \<Rightarrow> string" where
  "substr s pos len = take len (drop pos s)"

definition isspace :: "char \<Rightarrow> bool" where
  "isspace c = (c = CHR '' '' \<or> c = CHR 0x09 \<or> c = CHR 0x0A \<or> c = CHR 0x0B
     \<or> c = CHR 0x0C \<or> c = CHR 0x0D)"

definition tolower :: "char \<Rightarrow> char" where
  "tolower c = (let n = of_char c :: nat in
     if 65 \<le> n \<and> n \<le> 90 then char_of (n + 32) else c)"

text \<open>A loop that advances an index over a run of characters.\<close>

function skip_while :: "(char \<Rightarrow> bool) \<Rightarrow> string \<Rightarrow> nat \<Rightarrow> nat" where
  "skip_while p s i = (if i < length s \<and> p (s ! i) then skip_while p s (Suc i) else i)"
  by pat_completeness auto
termination
  by (relation "measure (\<lambda>(p, s, i). length s - i)") auto

declare skip_while.simps [simp del]

lemma skip_while_ge: "i \<le> skip_while p s i"
proof (induction p s i rule: skip_while.induct)
  case (1 p s i)
  show ?case
  proof (cases "i < length s \<and> p (s ! i)")
    case True
    with 1 have "Suc i \<le> skip_while p s (Suc i)" by simp
    with True show ?thesis by (simp add: skip_while.simps [of p s i])
  next
    case False
    then show ?thesis by (subst skip_while.simps) auto
  qed
qed

lemma skip_while_le: "i \<le> length s \<Longrightarrow> skip_while p s i \<le> length s"
proof (induction p s i rule: skip_while.induct)
  case (1 p s i)
  then show ?case by (auto simp: skip_while.simps [of p s i])
qed

lemma skip_while_stop: "skip_while p s i < length s \<Longrightarrow> \<not> p (s ! skip_while p s i)"
proof (induction p s i rule: skip_while.induct)
  case (1 p s i)
  then show ?case by (auto simp: skip_while.simps [of p s i] split: if_splits)
qed

lemma skip_while_drop:
  "drop (skip_while p s i) s = dropWhile p (drop i s)"
proof (induction p s i rule: skip_while.induct)
  case (1 p s i)
  show ?case
  proof (cases "i < length s")
    case True
    then have d: "drop i s = s ! i # drop (Suc i) s" by (simp add: Cons_nth_drop_Suc)
    show ?thesis
    proof (cases "p (s ! i)")
      case p: True
      with 1 True have "drop (skip_while p s (Suc i)) s = dropWhile p (drop (Suc i) s)" by blast
      then show ?thesis using True p by (simp add: skip_while.simps [of p s i] d)
    qed (simp add: skip_while.simps [of p s i] d)
  qed (simp add: skip_while.simps [of p s i])
qed

subsection \<open>Words of a string\<close>

text \<open>
  The reference notion that the tokenising loops are compared with: the maximal non-empty runs
  of characters that are no separators.
\<close>

lemma length_dropWhile_run:
  "xs = x # xs' \<Longrightarrow> \<not> p x \<Longrightarrow> length (dropWhile (\<lambda>c. \<not> p c) xs) < length xs"
  using length_dropWhile_le [of "\<lambda>c. \<not> p c" xs'] by simp

function words :: "(char \<Rightarrow> bool) \<Rightarrow> string \<Rightarrow> string list" where
  "words p s = (case dropWhile p s of [] \<Rightarrow> []
     | c # cs \<Rightarrow> takeWhile (\<lambda>x. \<not> p x) (c # cs) # words p (dropWhile (\<lambda>x. \<not> p x) (c # cs)))"
  by pat_completeness auto
termination
proof (relation "measure (\<lambda>(p, s). length s)")
  fix p s and c :: char and cs
  assume eq: "dropWhile p s = c # cs"
  then have "\<not> p c" by (metis dropWhile_eq_Cons_conv)
  then have "length (dropWhile (\<lambda>x. \<not> p x) (c # cs)) < length (c # cs)"
    by (intro length_dropWhile_run) simp_all
  also have "\<dots> \<le> length s" using eq length_dropWhile_le [of p s] by simp
  finally show "((p, dropWhile (\<lambda>x. \<not> p x) (c # cs)), p, s) \<in> measure (\<lambda>(p, s). length s)"
    by simp
qed simp

declare words.simps [simp del]

lemma words_Nil [simp]: "words p [] = []"
  by (simp add: words.simps)

lemma words_dropWhile: "words p (dropWhile p s) = words p s"
  by (simp add: words.simps [of p s] words.simps [of p "dropWhile p s"])

lemma words_sep [simp]: "p c \<Longrightarrow> words p (c # s) = words p s"
  by (metis dropWhile.simps(2) words_dropWhile)

lemma words_run:
  assumes "r \<noteq> []" and "\<And>x. x \<in> set r \<Longrightarrow> \<not> p x" and "t = [] \<or> p (hd t)"
  shows "words p (r @ t) = r # words p t"
proof -
  from assms(1,2) obtain c cs where r: "r = c # cs" and c: "\<not> p c" by (cases r) auto
  have dw: "dropWhile p (r @ t) = r @ t" using r c by simp
  have tk: "takeWhile (\<lambda>x. \<not> p x) (r @ t) = r"
    using assms(2,3) by (cases t) (auto simp: takeWhile_append2)
  have dr: "dropWhile (\<lambda>x. \<not> p x) (r @ t) = t"
    using assms(2,3) by (cases t) (auto simp: dropWhile_append2)
  show ?thesis
    using tk dr by (simp add: words.simps [of p "r @ t"] dw) (simp add: r)
qed

lemma words_all: "s \<noteq> [] \<Longrightarrow> (\<And>x. x \<in> set s \<Longrightarrow> \<not> p x) \<Longrightarrow> words p s = [s]"
  using words_run [of s p "[]"] by simp

lemma words_sound: "w \<in> set (words p s) \<Longrightarrow> w \<noteq> [] \<and> (\<forall>x \<in> set w. \<not> p x \<and> x \<in> set s)"
proof (induction p s rule: words.induct)
  case (1 p s)
  show ?case
  proof (cases "dropWhile p s")
    case Nil
    with 1 show ?thesis by (simp add: words.simps [of p s])
  next
    case (Cons c cs)
    have sub: "set (c # cs) \<subseteq> set s" using Cons by (metis set_dropWhileD subsetI)
    have nc: "\<not> p c" using Cons by (metis dropWhile_eq_Cons_conv)
    from "1.prems" Cons consider "w = takeWhile (\<lambda>x. \<not> p x) (c # cs)"
      | "w \<in> set (words p (dropWhile (\<lambda>x. \<not> p x) (c # cs)))"
      by (auto simp: words.simps [of p s])
    then show ?thesis
    proof cases
      case 1
      with nc sub show ?thesis by (auto dest: set_takeWhileD)
    next
      case 2
      with "1.IH" [OF Cons] sub show ?thesis by (meson set_dropWhileD subsetD)
    qed
  qed
qed

subsection \<open>Joining\<close>

fun join :: "string \<Rightarrow> string list \<Rightarrow> string" where
  "join sep [] = []"
| "join sep [w] = w"
| "join sep (w # v # ws) = w @ sep @ join sep (v # ws)"

lemma join_snoc: "ws \<noteq> [] \<Longrightarrow> join sep (ws @ [w]) = join sep ws @ sep @ w"
  by (induction sep ws rule: join.induct) auto

subsection \<open>Association lists as ordered maps\<close>

text \<open>
  A \<open>std::map\<close> is an association list sorted by key; \<open>alist_put\<close> is \<open>m[k] = v\<close>. The
  order of the keys is that of \<open>std::string::operator<\<close> or of the integers, given as a
  parameter.
\<close>

fun alist_put :: "('k \<Rightarrow> 'k \<Rightarrow> bool) \<Rightarrow> 'k \<Rightarrow> 'v \<Rightarrow> ('k \<times> 'v) list \<Rightarrow> ('k \<times> 'v) list" where
  "alist_put lt k v [] = [(k, v)]"
| "alist_put lt k v ((k', v') # m) =
     (if k = k' then (k, v) # m
      else if lt k k' then (k, v) # (k', v') # m
      else (k', v') # alist_put lt k v m)"

lemma map_of_alist_put [simp]: "map_of (alist_put lt k v m) = (map_of m)(k \<mapsto> v)"
  by (induction m) (auto simp: fun_eq_iff)

lemma set_alist_put_keys: "set (map fst (alist_put lt k v m)) = insert k (set (map fst m))"
  by (induction lt k v m rule: alist_put.induct) (simp_all add: insert_commute)

lemma distinct_alist_put: "distinct (map fst m) \<Longrightarrow> k \<notin> set (map fst m) \<Longrightarrow>
    distinct (map fst (alist_put lt k v m))"
proof (induction lt k v m rule: alist_put.induct)
  case (2 lt k v k' v' m)
  have "k' \<notin> set (map fst (alist_put lt k v m))"
    unfolding set_alist_put_keys using "2.prems" by auto
  with 2 show ?case by simp
qed simp

text \<open>\<open>erase(key)\<close>.\<close>

definition alist_erase :: "'k \<Rightarrow> ('k \<times> 'v) list \<Rightarrow> ('k \<times> 'v) list" where
  "alist_erase k m = filter (\<lambda>e. fst e \<noteq> k) m"

lemma map_of_alist_erase [simp]: "map_of (alist_erase k m) = (map_of m)(k := None)"
  by (induction m) (auto simp: alist_erase_def fun_eq_iff)

lemma distinct_alist_erase: "distinct (map fst m) \<Longrightarrow> distinct (map fst (alist_erase k m))"
  by (simp add: alist_erase_def distinct_map_filter)

fun str_less :: "string \<Rightarrow> string \<Rightarrow> bool" where
  "str_less [] [] = False"
| "str_less [] (_ # _) = True"
| "str_less (_ # _) [] = False"
| "str_less (a # as) (b # bs) =
     (if (of_char a :: nat) = of_char b then str_less as bs else (of_char a :: nat) < of_char b)"

lemma str_less_irrefl: "\<not> str_less s s"
  by (induction s) auto

lemma str_less_asym: "str_less s t \<Longrightarrow> \<not> str_less t s"
  by (induction s t rule: str_less.induct) (auto split: if_splits)

lemma str_less_trans: "str_less s t \<Longrightarrow> str_less t u \<Longrightarrow> str_less s u"
proof (induction s u arbitrary: t rule: str_less.induct)
  case (4 a as b bs)
  then show ?case by (cases t) (auto split: if_splits)
qed (auto elim: str_less.elims)

lemma str_less_total: "s \<noteq> t \<Longrightarrow> str_less s t \<or> str_less t s"
  by (induction s t rule: str_less.induct) (auto simp: not_less le_less)

text \<open>Sorted association lists stay sorted.\<close>

lemma sorted_alist_put: "sorted_wrt str_less (map fst m) \<Longrightarrow> sorted_wrt str_less (map fst (alist_put str_less k v m))"
proof (induction m)
  case (Cons e m)
  obtain k' v' where e: "e = (k', v')" by fastforce
  show ?case
  proof (cases "k = k' \<or> str_less k k'")
    case True
    then show ?thesis using Cons.prems e by (auto intro: str_less_trans)
  next
    case False
    then have "str_less k' k" using str_less_total by blast
    then have "\<forall>x \<in> set (map fst (alist_put str_less k v m)). str_less k' x"
      unfolding set_alist_put_keys using Cons.prems e by simp
    then show ?thesis using Cons False e by simp
  qed
qed simp

lemma sorted_distinct: "sorted_wrt str_less ks \<Longrightarrow> distinct ks"
  by (induction ks) (auto simp: str_less_irrefl)

end
