(* ===== verification/Text_Utils.thy ===== *)
theory Text_Utils
  imports Prelude
begin

text \<open>
  The string helpers of \<open>src/src/uscxml/util/Convenience.cpp\<close> and
  \<open>src/src/uscxml/util/String.cpp\<close>: case-insensitive comparison, tokenising, white space
  normalisation, matching of event descriptors, C-style escaping and numeric attributes. Loops
  over an index are recursive functions over the same index.
\<close>

subsection \<open>Convenience.cpp: comparison and classification\<close>

fun iequals :: "string \<Rightarrow> string \<Rightarrow> bool" where
  "iequals [] [] = True"
| "iequals (a # as) (b # bs) = (tolower a = tolower b \<and> iequals as bs)"
| "iequals _ _ = False"

fun equals :: "string \<Rightarrow> string \<Rightarrow> bool" where
  "equals [] [] = True"
| "equals (a # as) (b # bs) = (a = b \<and> equals as bs)"
| "equals _ _ = False"

definition stringIsTrue :: "string \<Rightarrow> bool" where
  "stringIsTrue v = (iequals v ''on'' \<or> iequals v ''true'' \<or> iequals v ''1'' \<or> iequals v ''yes'')"

text \<open>\<open>getenv\<close> is the parameter \<open>env\<close>.\<close>

definition envVarIsTrue :: "(string \<Rightarrow> string option) \<Rightarrow> string \<Rightarrow> bool" where
  "envVarIsTrue env name = (case env name of None \<Rightarrow> False | Some v \<Rightarrow> stringIsTrue v)"

definition envVarIEquals :: "(string \<Rightarrow> string option) \<Rightarrow> string \<Rightarrow> string \<Rightarrow> bool" where
  "envVarIEquals env name value = (case env name of None \<Rightarrow> False | Some v \<Rightarrow> iequals v value)"

definition isNumeric :: "string \<Rightarrow> nat \<Rightarrow> bool" where
  "isNumeric input base = list_all (\<lambda>c. c \<in> set (substr ''.-0123456789ABCDEF'' 0 (base + 2))) input"

definition isInteger :: "string \<Rightarrow> nat \<Rightarrow> bool" where
  "isInteger input base = list_all (\<lambda>c. c \<in> set (substr ''-0123456789ABCDEF'' 0 (base + 1))) input"

subsection \<open>Convenience.cpp: NumAttr\<close>

text \<open>
  \<open>find_first_of\<close>, \<open>find_last_of\<close> and \<open>find_first_not_of\<close> with \<open>npos\<close> as \<open>None\<close>.
\<close>

definition find_from :: "(char \<Rightarrow> bool) \<Rightarrow> string \<Rightarrow> nat \<Rightarrow> nat option" where
  "find_from p s i = List.find (\<lambda>k. p (s ! k)) [i..<length s]"

definition find_last :: "(char \<Rightarrow> bool) \<Rightarrow> string \<Rightarrow> nat option" where
  "find_last p s = List.find (\<lambda>k. p (s ! k)) (rev [0..<length s])"

record NumAttr =
  value_of :: string
  unit_of :: string

definition mkNumAttr :: "string \<Rightarrow> NumAttr" where
  "mkNumAttr str =
    (let num = (\<lambda>c. c \<in> set ''0123456789.''); blank = (\<lambda>c. c = CHR '' '' \<or> c = CHR 0x09) in
     case find_from num str 0 of
       None \<Rightarrow> \<lparr>value_of = [], unit_of = []\<rparr>
     | Some valueStart \<Rightarrow>
         (case find_last num str of
            None \<Rightarrow> \<lparr>value_of = [], unit_of = []\<rparr>
          | Some valueEnd \<Rightarrow>
              (let value = substr str valueStart ((valueEnd - valueStart) + 1) in
               case find_from (\<lambda>c. \<not> blank c) str (valueEnd + 1) of
                 None \<Rightarrow> \<lparr>value_of = value, unit_of = []\<rparr>
               | Some unitStart \<Rightarrow>
                   (case find_last blank str of
                      Some unitEnd \<Rightarrow>
                        (if unitEnd > unitStart
                         then \<lparr>value_of = value, unit_of = substr str unitStart (unitEnd - unitStart)\<rparr>
                         else \<lparr>value_of = value, unit_of = substr str unitStart (length str - unitStart)\<rparr>)
                    | None \<Rightarrow>
                        \<lparr>value_of = value, unit_of = substr str unitStart (length str - unitStart)\<rparr>))))"

subsection \<open>Convenience.cpp: escape and unescape\<close>

definition bslash :: char where "bslash = CHR 0x5C"

definition esc_char :: "char \<Rightarrow> string" where
  "esc_char c =
    (if c = bslash then [bslash, bslash]
     else if c = CHR 0x00 then [bslash, CHR ''0'']
     else if c = CHR 0x22 then [bslash, CHR 0x22]
     else if c = CHR 0x07 then [bslash, CHR ''a'']
     else if c = CHR 0x08 then [bslash, CHR ''b'']
     else if c = CHR 0x0C then [bslash, CHR ''f'']
     else if c = CHR 0x0A then [bslash, CHR ''n'']
     else if c = CHR 0x0D then [bslash, CHR ''r'']
     else if c = CHR 0x09 then [bslash, CHR ''t'']
     else if c = CHR 0x0B then [bslash, CHR ''v'']
     else [c])"

definition escape :: "string \<Rightarrow> string" where
  "escape a = concat (map esc_char a)"

text \<open>A backslash before any other character yields the backslash and drops that character.\<close>

definition unesc_char :: "char \<Rightarrow> char" where
  "unesc_char c =
    (if c = bslash then bslash
     else if c = CHR ''0'' then CHR 0x00
     else if c = CHR 0x22 then CHR 0x22
     else if c = CHR ''a'' then CHR 0x07
     else if c = CHR ''b'' then CHR 0x08
     else if c = CHR ''f'' then CHR 0x0C
     else if c = CHR ''n'' then CHR 0x0A
     else if c = CHR ''r'' then CHR 0x0D
     else if c = CHR ''t'' then CHR 0x09
     else if c = CHR ''v'' then CHR 0x0B
     else bslash)"

fun unescape :: "string \<Rightarrow> string" where
  "unescape [] = []"
| "unescape [c] = [c]"
| "unescape (c # d # cs) =
     (if c = bslash then unesc_char d # unescape cs else c # unescape (d # cs))"

subsection \<open>String.cpp: macros and binary numerals\<close>

text \<open>
  \<open>std::hash\<close> is the parameter \<open>strHash\<close>; \<open>returnValue += strHash(specialChars)\<close> appends
  the hash as one \<open>char\<close>.
\<close>

definition is_ident_char :: "char \<Rightarrow> bool" where
  "is_ident_char c = (let n = of_char c :: nat in
     (48 \<le> n \<and> n \<le> 57) \<or> (65 \<le> n \<and> n \<le> 90) \<or> (97 \<le> n \<and> n \<le> 122) \<or> c = CHR ''_'')"

definition escapeMacro :: "(string \<Rightarrow> nat) \<Rightarrow> string \<Rightarrow> string" where
  "escapeMacro strHash s =
    (let returnValue = filter is_ident_char s; specialChars = filter (\<lambda>c. \<not> is_ident_char c) s in
     if specialChars \<noteq> [] then returnValue @ ''_'' @ [char_of (strHash specialChars mod 256)]
     else returnValue)"

text \<open>
  \<open>toBinStr\<close>: the mask starts at bit 31 of a 64-bit \<open>size_t\<close> and is shifted right until it
  meets a set bit; then every position is printed as \<open>static_cast<char>(val & mask) + '0'\<close>. The
  padding loop compares its counter with \<open>margin - binStr.size()\<close> while the string grows.
\<close>

fun first_mask :: "nat \<Rightarrow> 64 word \<Rightarrow> nat option" where
  "first_mask 0 val = (if bit val 0 then Some 0 else None)"
| "first_mask (Suc k) val = (if bit val (Suc k) then Some (Suc k) else first_mask k val)"

definition bin_char :: "64 word \<Rightarrow> nat \<Rightarrow> char" where
  "bin_char val k = char_of ((unat (and val (push_bit k 1)) + 48) mod 256)"

fun bin_chars :: "64 word \<Rightarrow> nat \<Rightarrow> string" where
  "bin_chars val 0 = [bin_char val 0]"
| "bin_chars val (Suc k) = bin_char val (Suc k) # bin_chars val k"

function bin_pad :: "nat \<Rightarrow> nat \<Rightarrow> string \<Rightarrow> string" where
  "bin_pad margin i s =
     (if length s \<le> margin \<and> i < margin - length s then bin_pad margin (Suc i) (CHR ''0'' # s) else s)"
  by pat_completeness auto
termination
  by (relation "measure (\<lambda>(margin, i, s). margin - length s)") auto

definition toBinStr :: "64 word \<Rightarrow> nat \<Rightarrow> string" where
  "toBinStr val margin =
    (let binStr = (case first_mask 31 val of None \<Rightarrow> [CHR ''0''] | Some k \<Rightarrow> bin_chars val k)
     in if length binStr < margin then bin_pad margin 0 binStr else binStr)"

subsection \<open>String.cpp: tokenize and spaceNormalize\<close>

definition is_sep :: "char \<Rightarrow> bool \<Rightarrow> char \<Rightarrow> bool" where
  "is_sep sep trimWhiteSpace c = (c = sep \<or> (trimWhiteSpace \<and> isspace c))"

text \<open>
  The inner \<open>while\<close> of \<open>tokenize\<close> also reads the terminating \<open>'\0'\<close>, which stops it for every
  separator other than \<open>'\0'\<close> itself; the model stops at the end of the string.
\<close>

function tokenize_loop ::
  "(char \<Rightarrow> bool) \<Rightarrow> string \<Rightarrow> nat \<Rightarrow> nat \<Rightarrow> string list \<Rightarrow> string list" where
  "tokenize_loop p line start i tokens =
     (if i < length line then
        (let sep_here = p (line ! i);
             tokens1 = (if sep_here \<and> 0 < i \<and> start < i
                        then tokens @ [substr line start (i - start)] else tokens);
             i1 = (if sep_here then skip_while p line i else i);
             start1 = (if sep_here then i1 else start);
             tokens2 = (if i1 + 1 = length line
                        then tokens1 @ [substr line start1 (i1 + 1 - start1)] else tokens1)
         in tokenize_loop p line start1 (Suc i1) tokens2)
      else tokens)"
  by pat_completeness auto
termination
proof (relation "measure (\<lambda>(p, line, start, i, tokens). length line - i)", goal_cases)
  case (2 p line start i tokens x xa i1)
  then show ?case using skip_while_ge [of i p line] by (auto split: if_splits)
qed simp

definition tokenize :: "string \<Rightarrow> char \<Rightarrow> bool \<Rightarrow> string list" where
  "tokenize line sep trimWhiteSpace = tokenize_loop (is_sep sep trimWhiteSpace) line 0 0 []"

text \<open>The default arguments of \<open>tokenize\<close> in \<open>String.h\<close>.\<close>

abbreviation tokens :: "string \<Rightarrow> string list" where
  "tokens line \<equiv> tokenize line (CHR '' '') True"

function spaceNormalize_loop :: "string \<Rightarrow> nat \<Rightarrow> nat \<Rightarrow> string \<Rightarrow> string \<Rightarrow> string" where
  "spaceNormalize_loop txt start i seperator content =
     (if i < length txt then
        (if isspace (txt ! i) then
           (let emit = (0 < i \<and> start < i);
                content1 = (if emit then content @ seperator @ substr txt start (i - start) else content);
                seperator1 = (if emit then '' '' else seperator);
                i1 = skip_while isspace txt (Suc i)
            in spaceNormalize_loop txt i1 (Suc i1) seperator1 content1)
         else if i + 1 = length txt then
           spaceNormalize_loop txt start (Suc i) seperator
             (content @ seperator @ substr txt start (i + 1 - start))
         else spaceNormalize_loop txt start (Suc i) seperator content)
      else content)"
  by pat_completeness auto
termination
proof (relation "measure (\<lambda>(txt, start, i, seperator, content). length txt - i)", goal_cases)
  case (2 s start i seperator content x xa xb xc)
  then show ?case using skip_while_ge [of "Suc i" isspace s] by auto
qed auto

definition spaceNormalize :: "string \<Rightarrow> string" where
  "spaceNormalize txt = spaceNormalize_loop txt 0 0 [] []"

subsection \<open>String.cpp: nameMatch\<close>

text \<open>What the body of the loop does with one descriptor.\<close>

definition strip_desc :: "string \<Rightarrow> string" where
  "strip_desc d =
    (let d1 = (if d \<noteq> [] \<and> last d = CHR ''*'' then butlast d else d)
     in if d1 \<noteq> [] \<and> last d1 = CHR ''.'' then butlast d1 else d1)"

definition descMatches :: "string \<Rightarrow> string \<Rightarrow> bool" where
  "descMatches eventDesc eventName =
    (let d = strip_desc eventDesc in
     if d = [] then True
     else if length d > length eventName then False
     else if iequals d eventName then True
     else prefix d eventName \<and> length d < length eventName \<and> eventName ! length d = CHR ''.'')"

function nameMatch_loop :: "string \<Rightarrow> string \<Rightarrow> nat \<Rightarrow> nat \<Rightarrow> bool" where
  "nameMatch_loop eventDescs eventName start i =
     (if i < length eventDescs then
        (let ws = isspace (eventDescs ! i);
             eventDesc = (if ws then (if 0 < i \<and> start < i - 1 then substr eventDescs start (i - start) else [])
                          else if i + 1 = length eventDescs then substr eventDescs start (i + 1 - start)
                          else []);
             i1 = (if ws then skip_while isspace eventDescs (Suc i) else i);
             start1 = (if ws then i1 else start)
         in if eventDesc \<noteq> [] \<and> descMatches eventDesc eventName then True
            else nameMatch_loop eventDescs eventName start1 (Suc i1))
      else False)"
  by pat_completeness auto
termination
proof (relation "measure (\<lambda>(eventDescs, eventName, start, i). length eventDescs - i)", goal_cases)
  case (2 eventDescs eventName start i x xa xb xc)
  then show ?case using skip_while_ge [of "Suc i" isspace eventDescs] by (auto split: if_splits)
qed simp

definition nameMatch :: "string \<Rightarrow> string \<Rightarrow> bool" where
  "nameMatch eventDescs eventName =
    (if eventDescs = [] \<or> eventName = [] then False
     else if iequals eventDescs eventName then True
     else nameMatch_loop eventDescs eventName 0 0)"

declare tokenize_loop.simps [simp del] spaceNormalize_loop.simps [simp del]
  nameMatch_loop.simps [simp del] bin_pad.simps [simp del]

subsection \<open>Comparison is an equivalence; escaping is invertible\<close>

lemma iequals_iff: "iequals a b \<longleftrightarrow> map tolower a = map tolower b"
  by (induction a b rule: iequals.induct) auto

lemma equals_iff: "equals a b \<longleftrightarrow> a = b"
  by (induction a b rule: equals.induct) auto

lemma iequals_refl [simp]: "iequals a a"
  by (simp add: iequals_iff)

lemma iequals_sym: "iequals a b = iequals b a"
  by (auto simp: iequals_iff)

lemma iequals_trans: "iequals a b \<Longrightarrow> iequals b c \<Longrightarrow> iequals a c"
  by (simp add: iequals_iff)

lemma iequals_length: "iequals a b \<Longrightarrow> length a = length b"
  by (metis iequals_iff length_map)

lemma unescape_esc_char: "unescape (esc_char c @ cs) = c # unescape cs"
  by (cases cs) (auto simp: esc_char_def unesc_char_def bslash_def)

lemma unescape_escape: "unescape (escape a) = a"
  by (induction a) (simp_all add: escape_def unescape_esc_char)

subsection \<open>The scanning loops against the words of the string\<close>

text \<open>
  Shared by the three scanners: a run of non-separators from \<open>start\<close> up to \<open>i\<close> either ends in a
  separator at \<open>i\<close> or reaches the end of the string.
\<close>

definition run_at :: "(char \<Rightarrow> bool) \<Rightarrow> string \<Rightarrow> nat \<Rightarrow> nat \<Rightarrow> bool" where
  "run_at p s start i \<longleftrightarrow> start \<le> i \<and> (\<forall>k. start \<le> k \<and> k < i \<longrightarrow> \<not> p (s ! k))"

lemma run_at_same [simp]: "run_at p s i i"
  by (auto simp: run_at_def)

lemma run_at_Suc: "run_at p s start i \<Longrightarrow> \<not> p (s ! i) \<Longrightarrow> run_at p s start (Suc i)"
  by (auto simp: run_at_def less_Suc_eq)

lemma run_at_le: "run_at p s start i \<Longrightarrow> start \<le> i"
  by (simp add: run_at_def)

lemma run_at_skip:
  "skip_while p s i < length s \<Longrightarrow> run_at p s (skip_while p s i) (Suc (skip_while p s i))"
  by (rule run_at_Suc) (simp_all add: skip_while_stop)

lemma substr_to_end: "substr s start (length s - start) = drop start s"
  by (simp add: substr_def)

lemma run_set:
  assumes "run_at p s start i" and "i \<le> length s" and "x \<in> set (substr s start (i - start))"
  shows "\<not> p x"
proof -
  from assms(3) obtain k where k: "k < i - start" "start + k < length s" "x = s ! (start + k)"
    by (auto simp: substr_def in_set_conv_nth)
  with assms(1,2) show ?thesis by (auto simp: run_at_def)
qed

lemma drop_run:
  assumes "run_at p s start i"
  shows "drop start s = substr s start (i - start) @ drop i s"
proof -
  have "drop i s = drop (i - start) (drop start s)" using run_at_le [OF assms] by simp
  then show ?thesis unfolding substr_def by (metis append_take_drop_id)
qed

lemma words_run_at:
  assumes r: "run_at p s start i" and i: "i < length s" and p: "p (s ! i)"
  shows "words p (drop start s) =
    (if start < i then [substr s start (i - start)] else []) @ words p (drop i s)"
proof (cases "start < i")
  case True
  have hd: "hd (drop i s) = s ! i" using i by (simp add: hd_drop_conv_nth)
  have "substr s start (i - start) \<noteq> []" using True i by (simp add: substr_def)
  then have "words p (substr s start (i - start) @ drop i s)
      = substr s start (i - start) # words p (drop i s)"
    using p i hd run_set [OF r] by (intro words_run) auto
  then show ?thesis using True drop_run [OF r] by simp
next
  case False
  with run_at_le [OF r] show ?thesis by simp
qed

lemma words_run_end:
  assumes r: "run_at p s start i" and i: "Suc i = length s" and p: "\<not> p (s ! i)"
  shows "words p (drop start s) = [drop start s]"
proof -
  have r': "run_at p s start (Suc i)" using r p by (rule run_at_Suc)
  have "\<not> p x" if "x \<in> set (drop start s)" for x
    using run_set [OF r'] i that by (simp add: substr_to_end)
  moreover have "drop start s \<noteq> []" using run_at_le [OF r] i by simp
  ultimately show ?thesis by (simp add: words_all)
qed

lemma words_skip: "words p (drop (skip_while p s i) s) = words p (drop i s)"
  by (simp add: skip_while_drop words_dropWhile)

lemma words_skip_Suc:
  assumes "i < length s" and "p (s ! i)"
  shows "words p (drop (skip_while p s (Suc i)) s) = words p (drop i s)"
proof -
  have "drop i s = s ! i # drop (Suc i) s" using assms(1) by (simp add: Cons_nth_drop_Suc)
  with assms(2) show ?thesis by (simp add: words_skip)
qed

lemma words_skip_last:
  "Suc (skip_while p s i) = length s \<Longrightarrow>
     words p (drop (skip_while p s i) s) = [drop (skip_while p s i) s]"
  by (rule words_run_end [of p s _ "skip_while p s i"]) (simp_all add: skip_while_stop)

subsubsection \<open>tokenize\<close>

lemma tokenize_loop_end: "\<not> i < length line \<Longrightarrow> tokenize_loop p line start i toks = toks"
  by (simp add: tokenize_loop.simps)

lemma tokenize_loop_sep:
  "i < length line \<Longrightarrow> p (line ! i) \<Longrightarrow> tokenize_loop p line start i toks =
     (let i1 = skip_while p line i in
      tokenize_loop p line i1 (Suc i1)
        (toks @ (if start < i then [substr line start (i - start)] else [])
           @ (if Suc i1 = length line then [drop i1 line] else [])))"
  by (auto simp: tokenize_loop.simps [of p line start i toks] Let_def
      simp flip: substr_to_end)

lemma tokenize_loop_char:
  "i < length line \<Longrightarrow> \<not> p (line ! i) \<Longrightarrow> tokenize_loop p line start i toks =
     tokenize_loop p line start (Suc i)
       (toks @ (if Suc i = length line then [drop start line] else []))"
  by (auto simp: tokenize_loop.simps [of p line start i toks] Let_def
      simp flip: substr_to_end)

lemma tokenize_loop_words:
  "run_at p line start i \<Longrightarrow> tokenize_loop p line start i toks =
     toks @ (if i < length line then words p (drop start line) else [])"
proof (induction "length line - i" arbitrary: start i toks rule: less_induct)
  case less
  consider (e) "\<not> i < length line" | (sep) "i < length line" "p (line ! i)"
    | (char) "i < length line" "\<not> p (line ! i)" by blast
  then show ?case
  proof cases
    case e
    then show ?thesis by (simp add: tokenize_loop_end)
  next
    case sep
    let ?i1 = "skip_while p line i"
    have ge: "i \<le> ?i1" and le: "?i1 \<le> length line"
      using sep by (simp_all add: skip_while_ge skip_while_le)
    have w: "words p (drop start line) =
        (if start < i then [substr line start (i - start)] else []) @ words p (drop ?i1 line)"
      using words_run_at [OF less.prems sep] by (simp add: words_skip)
    consider "?i1 = length line" | "Suc ?i1 = length line" | "Suc ?i1 < length line"
      using le by linarith
    then show ?thesis
    proof cases
      case 3
      then show ?thesis
        using less.hyps [of "Suc ?i1" ?i1] run_at_skip [of p line i] ge sep w
        by (simp add: tokenize_loop_sep Let_def)
    qed (use sep w words_skip_last [of p line i] in
          \<open>simp_all add: tokenize_loop_sep tokenize_loop_end Let_def\<close>)
  next
    case char
    then show ?thesis
      using less.hyps [of "Suc i" start] run_at_Suc [OF less.prems] words_run_end [OF less.prems]
      by (cases "Suc i = length line") (simp_all add: tokenize_loop_char tokenize_loop_end)
  qed
qed

lemma tokenize_words: "tokenize line sep trim = words (is_sep sep trim) line"
  by (cases line) (simp_all add: tokenize_def tokenize_loop_words tokenize_loop_end)

subsubsection \<open>nameMatch\<close>

text \<open>The loop looks at the words of more than one character only, or at the whole string.\<close>

definition seen_word :: "string \<Rightarrow> string \<Rightarrow> bool" where
  "seen_word s d \<longleftrightarrow> 1 < length d \<or> d = s"

definition some_word :: "string \<Rightarrow> string \<Rightarrow> nat \<Rightarrow> bool" where
  "some_word s e start \<longleftrightarrow>
     (\<exists>d \<in> set (words isspace (drop start s)). seen_word s d \<and> descMatches d e)"

lemma nameMatch_loop_end: "\<not> i < length s \<Longrightarrow> \<not> nameMatch_loop s e start i"
  by (simp add: nameMatch_loop.simps)

lemma nameMatch_loop_space:
  assumes "i < length s" and "isspace (s ! i)"
  shows "nameMatch_loop s e start i \<longleftrightarrow>
    (Suc start < i \<and> descMatches (substr s start (i - start)) e) \<or>
    (let i1 = skip_while isspace s (Suc i) in nameMatch_loop s e i1 (Suc i1))"
proof -
  have "substr s start (i - start) \<noteq> []" if "start < i"
    using that assms(1) by (simp add: substr_def)
  then show ?thesis
    using assms by (auto simp: nameMatch_loop.simps [of s e start i] Let_def)
qed

lemma nameMatch_loop_char:
  "i < length s \<Longrightarrow> \<not> isspace (s ! i) \<Longrightarrow> start \<le> i \<Longrightarrow> nameMatch_loop s e start i \<longleftrightarrow>
    (Suc i = length s \<and> descMatches (drop start s) e) \<or> nameMatch_loop s e start (Suc i)"
  by (auto simp: nameMatch_loop.simps [of s e start i] Let_def simp flip: substr_to_end)
     (simp_all add: substr_def)

lemma some_word_space:
  assumes r: "run_at isspace s start i" and i: "i < length s" and ws: "isspace (s ! i)"
  shows "some_word s e start \<longleftrightarrow>
    (Suc start < i \<and> descMatches (substr s start (i - start)) e) \<or>
    some_word s e (skip_while isspace s (Suc i))"
proof -
  have len: "length (substr s start (i - start)) = i - start" using i by (simp add: substr_def)
  then have "seen_word s (substr s start (i - start)) \<longleftrightarrow> Suc start < i"
    if "start < i" using i by (auto simp: seen_word_def)
  then show ?thesis
    using words_run_at [OF r i ws] words_skip_Suc [where p = isspace, OF i ws]
    by (auto simp: some_word_def)
qed

lemma some_word_last:
  assumes "length s \<le> Suc (skip_while isspace s (Suc i))"
  shows "\<not> some_word s e (skip_while isspace s (Suc i))"
proof
  let ?i1 = "skip_while isspace s (Suc i)"
  assume a: "some_word s e ?i1"
  then have "?i1 < length s" by (cases "?i1 < length s") (auto simp: some_word_def)
  with assms have last: "Suc ?i1 = length s" by simp
  then have "words isspace (drop ?i1 s) = [drop ?i1 s]" by (rule words_skip_last)
  moreover have "length (drop ?i1 s) = 1" and "1 < length s"
    using last skip_while_ge [of "Suc i" isspace s] by auto
  then have "\<not> seen_word s (drop ?i1 s)" by (metis less_irrefl seen_word_def)
  ultimately show False using a by (simp add: some_word_def)
qed

lemma nameMatch_loop_words:
  "run_at isspace s start i \<Longrightarrow> start < i \<or> (start = 0 \<and> i = 0) \<Longrightarrow>
   nameMatch_loop s e start i \<longleftrightarrow> i < length s \<and> some_word s e start"
proof (induction "length s - i" arbitrary: start i rule: less_induct)
  case less
  note le = run_at_le [OF less.prems(1)]
  consider (e) "\<not> i < length s" | (space) "i < length s" "isspace (s ! i)"
    | (char) "i < length s" "\<not> isspace (s ! i)" by blast
  then show ?case
  proof cases
    case e
    then show ?thesis by (simp add: nameMatch_loop_end)
  next
    case space
    let ?i1 = "skip_while isspace s (Suc i)"
    have "nameMatch_loop s e ?i1 (Suc ?i1) \<longleftrightarrow> Suc ?i1 < length s \<and> some_word s e ?i1"
    proof (cases "?i1 < length s")
      case True
      then show ?thesis
        using less.hyps [of "Suc ?i1" ?i1] run_at_skip [of isspace s "Suc i"]
          skip_while_ge [of "Suc i" isspace s] by simp
    qed (simp add: nameMatch_loop_end)
    then show ?thesis
      using space some_word_space [OF less.prems(1) space] some_word_last [of s i e]
      by (auto simp: nameMatch_loop_space Let_def)
  next
    case char
    show ?thesis
    proof (cases "Suc i = length s")
      case True
      have "seen_word s (drop start s)" using less.prems(2) True by (auto simp: seen_word_def)
      then show ?thesis
        using words_run_end [OF less.prems(1) True] char True le
        by (simp add: nameMatch_loop_char nameMatch_loop_end some_word_def)
    next
      case False
      then show ?thesis
        using less.hyps [of "Suc i" start] run_at_Suc [OF less.prems(1)] char le
        by (simp add: nameMatch_loop_char)
    qed
  qed
qed

subsubsection \<open>spaceNormalize\<close>

text \<open>A last word of one character that follows white space is lost.\<close>

definition lone_tail :: "string \<Rightarrow> bool" where
  "lone_tail s \<longleftrightarrow> 1 < length s \<and> isspace (s ! (length s - 2)) \<and> \<not> isspace (s ! (length s - 1))"

definition kept_words :: "string \<Rightarrow> nat \<Rightarrow> string list" where
  "kept_words s start = (let ws = words isspace (drop start s) in if lone_tail s then butlast ws else ws)"

definition joins :: "string list \<Rightarrow> string \<Rightarrow> string \<Rightarrow> bool" where
  "joins ws seperator content \<longleftrightarrow>
     content = join '' '' ws \<and> seperator = (if ws = [] then [] else '' '')"

lemma joins_snoc: "joins ws seperator content \<Longrightarrow> joins (ws @ [w]) '' '' (content @ seperator @ w)"
  by (auto simp: joins_def join_snoc)

lemma spaceNormalize_loop_end: "\<not> i < length s \<Longrightarrow> spaceNormalize_loop s start i sp c = c"
  by (simp add: spaceNormalize_loop.simps)

lemma spaceNormalize_loop_space:
  "i < length s \<Longrightarrow> isspace (s ! i) \<Longrightarrow> spaceNormalize_loop s start i sp c =
    (let i1 = skip_while isspace s (Suc i) in
     if start < i then spaceNormalize_loop s i1 (Suc i1) '' '' (c @ sp @ substr s start (i - start))
     else spaceNormalize_loop s i1 (Suc i1) sp c)"
  by (auto simp: spaceNormalize_loop.simps [of s start i sp c] Let_def)

lemma spaceNormalize_loop_char:
  "i < length s \<Longrightarrow> \<not> isspace (s ! i) \<Longrightarrow> spaceNormalize_loop s start i sp c =
     (if Suc i = length s then c @ sp @ drop start s
      else spaceNormalize_loop s start (Suc i) sp c)"
  by (auto simp: spaceNormalize_loop.simps [of s start i sp c] spaceNormalize_loop_end
      simp flip: substr_to_end)

lemma skip_while_prev:
  "i < skip_while p s i \<Longrightarrow> p (s ! (skip_while p s i - 1))"
proof (induction p s i rule: skip_while.induct)
  case (1 p s i)
  then have i: "i < length s" "p (s ! i)" by (auto simp: skip_while.simps [of p s i] split: if_splits)
  show ?case
  proof (cases "Suc i < skip_while p s (Suc i)")
    case False
    then have "skip_while p s (Suc i) = Suc i" using skip_while_ge [of "Suc i" p s] by simp
    with i show ?thesis by (simp add: skip_while.simps [of p s i])
  qed (use 1 i in \<open>simp add: skip_while.simps [of p s i]\<close>)
qed

lemma lone_tail_skip:
  assumes "isspace (s ! i)" and "Suc (skip_while isspace s (Suc i)) = length s"
  shows "lone_tail s"
proof -
  let ?i1 = "skip_while isspace s (Suc i)"
  have "isspace (s ! (?i1 - 1))"
    using assms(1) skip_while_prev [of "Suc i" isspace s] skip_while_ge [of "Suc i" isspace s]
    by (cases "Suc i < ?i1") auto
  moreover have "\<not> isspace (s ! ?i1)" using assms(2) by (intro skip_while_stop) simp
  moreover have "length s - 2 = ?i1 - 1" and "length s - 1 = ?i1" and "1 < length s"
    using assms(2) skip_while_ge [of "Suc i" isspace s] by auto
  ultimately show ?thesis by (simp add: lone_tail_def)
qed

lemma kept_words_space:
  assumes r: "run_at isspace s start i" and i: "i < length s" and ws: "isspace (s ! i)"
  shows "kept_words s start =
    (if start < i then [substr s start (i - start)] else []) @ kept_words s (skip_while isspace s (Suc i))"
proof -
  let ?i1 = "skip_while isspace s (Suc i)"
  have w: "words isspace (drop start s) =
      (if start < i then [substr s start (i - start)] else []) @ words isspace (drop ?i1 s)"
    using words_run_at [OF r i ws] words_skip_Suc [where p = isspace, OF i ws] by simp
  have "words isspace (drop ?i1 s) \<noteq> []" if l: "lone_tail s"
  proof -
    have "?i1 \<le> length s" using i by (simp add: skip_while_le)
    moreover have "?i1 \<noteq> length s"
    proof
      assume eq: "?i1 = length s"
      have "isspace (s ! (?i1 - 1))"
        using ws skip_while_prev [of "Suc i" isspace s] skip_while_ge [of "Suc i" isspace s]
        by (cases "Suc i < ?i1") (simp, metis diff_Suc_1 le_neq_implies_less)
      then have "isspace (s ! (length s - 1))" by (simp only: eq)
      with l show False by (simp add: lone_tail_def)
    qed
    ultimately have lt: "?i1 < length s" by simp
    then have "drop ?i1 s = s ! ?i1 # drop (Suc ?i1) s" by (simp add: Cons_nth_drop_Suc)
    with skip_while_stop [OF lt] show ?thesis by (simp add: words.simps [of _ "_ # _"])
  qed
  then show ?thesis unfolding kept_words_def w by (auto simp: Let_def butlast_append)
qed

lemma spaceNormalize_loop_words:
  "run_at isspace s start i \<Longrightarrow> start < i \<or> (start = 0 \<and> i = 0) \<Longrightarrow> joins acc sp c \<Longrightarrow>
   spaceNormalize_loop s start i sp c =
     join '' '' (acc @ (if i < length s then kept_words s start else []))"
proof (induction "length s - i" arbitrary: start i sp c acc rule: less_induct)
  case less
  note r = less.prems(1) and j = less.prems(3)
  consider (e) "\<not> i < length s" | (space) "i < length s" "isspace (s ! i)"
    | (char) "i < length s" "\<not> isspace (s ! i)" by blast
  then show ?case
  proof cases
    case e
    with j show ?thesis by (simp add: spaceNormalize_loop_end joins_def)
  next
    case space
    let ?i1 = "skip_while isspace s (Suc i)"
    have ge: "Suc i \<le> ?i1" by (rule skip_while_ge)
    have IH: "spaceNormalize_loop s ?i1 (Suc ?i1) sp' c' =
        join '' '' (acc' @ (if Suc ?i1 < length s then kept_words s ?i1 else []))"
      if "joins acc' sp' c'" for acc' sp' c'
    proof (cases "?i1 < length s")
      case True
      then show ?thesis
        using less.hyps [of "Suc ?i1" ?i1] run_at_skip [of isspace s "Suc i"] ge that by simp
    qed (use that in \<open>simp add: spaceNormalize_loop_end joins_def\<close>)
    have tail: "kept_words s ?i1 = []" if "\<not> Suc ?i1 < length s"
    proof (cases "?i1 < length s")
      case True
      with that have "Suc ?i1 = length s" by simp
      then show ?thesis
        using words_skip_last [of isspace s "Suc i"] lone_tail_skip [OF space(2)]
        by (simp add: kept_words_def)
    qed (simp add: kept_words_def)
    have "spaceNormalize_loop s start i sp c = join '' '' (acc @
        (if start < i then [substr s start (i - start)] else []) @
        (if Suc ?i1 < length s then kept_words s ?i1 else []))"
      using IH [OF j] IH [OF joins_snoc [OF j]] space
      by (simp add: spaceNormalize_loop_space Let_def)
    with tail space show ?thesis by (auto simp: kept_words_space [OF r])
  next
    case char
    show ?thesis
    proof (cases "Suc i = length s")
      case True
      have "\<not> lone_tail s"
      proof
        assume "lone_tail s"
        moreover have "length s - 2 = i - 1" using True by simp
        ultimately have "1 < length s" and sp: "isspace (s ! (i - 1))"
          by (simp_all add: lone_tail_def)
        with True less.prems(2) have "start \<le> i - 1" and "i - 1 < i" by auto
        with r sp show False unfolding run_at_def by blast
      qed
      then show ?thesis
        using words_run_end [OF r True char(2)] joins_snoc [OF j, of "drop start s"] char True
        by (simp add: spaceNormalize_loop_char kept_words_def joins_def)
    next
      case False
      then show ?thesis
        using less.hyps [of "Suc i" start] run_at_Suc [OF r] char run_at_le [OF r] j
        by (simp add: spaceNormalize_loop_char)
    qed
  qed
qed

subsection \<open>Properties\<close>

lemma some_word_0: "s \<noteq> [] \<Longrightarrow> nameMatch_loop s e 0 0 \<longleftrightarrow> some_word s e 0"
  by (simp add: nameMatch_loop_words)


text \<open>
  The SCXML rule for one descriptor: after removing a trailing star and a trailing dot, the
  descriptor is empty, equal to the event name up to case, or a prefix of it that ends at a dot.
\<close>

lemma descMatches_iff:
  "descMatches d ev \<longleftrightarrow> strip_desc d = [] \<or> iequals (strip_desc d) ev \<or>
     (\<exists>rest. ev = strip_desc d @ ''.'' @ rest)"
proof -
  have pre: "prefix s ev \<and> length s < length ev \<and> ev ! length s = CHR ''.'' \<longleftrightarrow>
      (\<exists>rest. ev = s @ ''.'' @ rest)" for s
  proof
    assume a: "prefix s ev \<and> length s < length ev \<and> ev ! length s = CHR ''.''"
    then obtain t where t: "ev = s @ t" by (auto simp: prefix_def)
    with a show "\<exists>rest. ev = s @ ''.'' @ rest" by (cases t) auto
  qed auto
  show ?thesis
    using iequals_length [of "strip_desc d" ev] pre [of "strip_desc d"]
    by (auto simp: descMatches_def Let_def)
qed

text \<open>
  A one-character descriptor inside a list is never examined: an event named by it is not
  matched although the descriptor alone would match.
\<close>

theorem nameMatch_skips_short:
  "nameMatch ''a'' ''a'' \<and> nameMatch ''a'' ''a.b'' \<and> \<not> nameMatch ''a foo'' ''a'' \<and> \<not> nameMatch ''foo *'' ''bar''"
proof -
  have w: "words isspace ''a foo'' = [''a'', ''foo'']" "words isspace ''foo *'' = [''foo'', ''*'']"
    "words isspace ''a'' = [''a'']"
    by (simp_all add: words.simps isspace_def)
  show ?thesis
    unfolding nameMatch_def
    by (simp add: some_word_0 some_word_def seen_word_def w descMatches_iff strip_desc_def iequals_iff
        tolower_def)
qed

text \<open>
  \<open>tokenize\<close> returns, in order, the maximal non-empty runs of characters that are neither
  the separator nor, when white space is trimmed, white space.
\<close>

theorem tokenize_exact: "tokenize line sep trim = words (is_sep sep trim) line"
  by (rule tokenize_words)

text \<open>
  \<open>spaceNormalize\<close> returns the words of the string joined by single spaces, without the last
  word when that is a single character that follows white space.
\<close>

theorem spaceNormalize_exact:
  "spaceNormalize s = join '' ''
     (if 1 < length s \<and> isspace (s ! (length s - 2)) \<and> \<not> isspace (s ! (length s - 1))
      then butlast (words isspace s) else words isspace s)"
  using spaceNormalize_loop_words [of s 0 0 "[]" "[]" "[]"]
  by (cases s) (auto simp: spaceNormalize_def kept_words_def lone_tail_def joins_def)

text \<open>\<open>unescape\<close> inverts \<open>escape\<close> on every string.\<close>

theorem escape_roundtrip: "unescape (escape a) = a"
  by (rule unescape_escape)

end
