(* ===== verification/Dom.thy ===== *)
theory Dom
  imports Text_Utils
begin

text \<open>
  The XML document the interpreter works on and the traversals of
  \<open>src/src/uscxml/util/DOM.cpp\<close>. The DOM itself is a Xerces-C data structure; the model keeps its
  documented tree: an element has a prefix, a local name, a namespace, attributes and child nodes,
  and \<open>nid\<close> is its identity (the pointer the code compares). A node is the subtree it heads;
  moving upwards needs the document, which is the first argument of such operations. A traversal
  with \<open>getFirstElementChild\<close> and \<open>getNextElementSibling\<close> is an iteration over
  \<open>elementChildren\<close>.
\<close>

subsection \<open>Nodes\<close>

datatype node =
    Element (nid: nat) "string option" string string "(string \<times> string) list" "node list"
  | Text (nid: nat) string
  | Other (nid: nat)

fun isElement :: "node \<Rightarrow> bool" where
  "isElement (Element _ _ _ _ _ _) = True"
| "isElement _ = False"

fun childNodes :: "node \<Rightarrow> node list" where
  "childNodes (Element _ _ _ _ _ cs) = cs"
| "childNodes _ = []"

fun prefix_of :: "node \<Rightarrow> string option" where
  "prefix_of (Element _ p _ _ _ _) = p"
| "prefix_of _ = None"

fun LOCALNAME :: "node \<Rightarrow> string" where
  "LOCALNAME (Element _ _ l _ _ _) = l"
| "LOCALNAME _ = []"

fun namespaceURI :: "node \<Rightarrow> string" where
  "namespaceURI (Element _ _ _ ns _ _) = ns"
| "namespaceURI _ = []"

fun attributes :: "node \<Rightarrow> (string \<times> string) list" where
  "attributes (Element _ _ _ _ as _) = as"
| "attributes _ = []"

fun nodeValue :: "node \<Rightarrow> string" where
  "nodeValue (Text _ v) = v"
| "nodeValue _ = []"

text \<open>The accessor macros of \<open>DOM.h\<close>; an absent attribute reads as the empty string.\<close>

definition XML_PREFIX :: "node \<Rightarrow> string" where
  "XML_PREFIX n = (case prefix_of n of None \<Rightarrow> [] | Some p \<Rightarrow> p @ '':'')"

definition TAGNAME :: "node \<Rightarrow> string" where
  "TAGNAME n = XML_PREFIX n @ LOCALNAME n"

definition HAS_ATTR :: "node \<Rightarrow> string \<Rightarrow> bool" where
  "HAS_ATTR n a = (map_of (attributes n) a \<noteq> None)"

definition ATTR :: "node \<Rightarrow> string \<Rightarrow> string" where
  "ATTR n a = (case map_of (attributes n) a of None \<Rightarrow> [] | Some v \<Rightarrow> v)"

definition elementChildren :: "node \<Rightarrow> node list" where
  "elementChildren n = filter isElement (childNodes n)"

subsection \<open>Upward navigation\<close>

text \<open>The path from the node with the given identity up to the root of the tree.\<close>

fun first_path :: "node list list \<Rightarrow> node list" where
  "first_path [] = []"
| "first_path (p # ps) = (if p \<noteq> [] then p else first_path ps)"

fun path_to :: "nat \<Rightarrow> node \<Rightarrow> node list" where
  "path_to i (Element j p l ns as cs) =
     (if i = j then [Element j p l ns as cs]
      else (let q = first_path (map (path_to i) cs)
            in if q = [] then [] else q @ [Element j p l ns as cs]))"
| "path_to i (Text j v) = (if i = j then [Text j v] else [])"
| "path_to i (Other j) = (if i = j then [Other j] else [])"

text \<open>The ancestors of a node, the parent first; the document node above the root is left out.\<close>

definition parents :: "node \<Rightarrow> node \<Rightarrow> node list" where
  "parents doc n = tl (path_to (nid n) doc)"

definition getParentNode :: "node \<Rightarrow> node \<Rightarrow> node option" where
  "getParentNode doc n = (case parents doc n of [] \<Rightarrow> None | p # _ \<Rightarrow> Some p)"

definition same :: "node \<Rightarrow> node \<Rightarrow> bool" where
  "same a b = (nid a = nid b)"

definition isDescendant :: "node \<Rightarrow> node option \<Rightarrow> node option \<Rightarrow> bool" where
  "isDescendant doc s1 s2 =
    (case (s1, s2) of (Some a, Some b) \<Rightarrow> list_ex (same b) (parents doc a) | _ \<Rightarrow> False)"

definition getNearestAncestor :: "node \<Rightarrow> node \<Rightarrow> string \<Rightarrow> node option" where
  "getNearestAncestor doc n tagName =
    List.find (\<lambda>p. isElement p \<and> iequals (TAGNAME p) tagName) (parents doc n)"

subsection \<open>Membership\<close>

definition isMember :: "node \<Rightarrow> node list \<Rightarrow> bool" where
  "isMember n list = list_ex (same n) list"

definition hasIntersection :: "node list \<Rightarrow> node list \<Rightarrow> bool" where
  "hasIntersection l1 l2 = list_ex (\<lambda>i. list_ex (same i) l2) l1"

subsection \<open>Filtering traversals\<close>

datatype order = POSTFIX | DOCUMENT | NO_RECURSE

fun filterElementGeneric ::
  "string list \<Rightarrow> order \<Rightarrow> bool \<Rightarrow> bool \<Rightarrow> node \<Rightarrow> node list" where
  "filterElementGeneric elements order includeEmbeddedDoc includeRoot (Element i p l ns as cs) =
     (let root = Element i p l ns as cs; hit = (includeRoot \<and> TAGNAME root \<in> set elements) in
      (if (order = NO_RECURSE \<or> order = DOCUMENT) \<and> hit then [root] else []) @
      concat (map (\<lambda>cur.
         if \<not> isElement cur then []
         else if order = NO_RECURSE then (if TAGNAME cur \<in> set elements then [cur] else [])
         else if includeEmbeddedDoc \<or> TAGNAME cur \<noteq> XML_PREFIX root @ ''scxml''
         then filterElementGeneric elements order includeEmbeddedDoc True cur
         else []) cs) @
      (if order = POSTFIX \<and> hit then [root] else []))"
| "filterElementGeneric elements order includeEmbeddedDoc includeRoot _ = []"

definition inPostFixOrder :: "string list \<Rightarrow> node \<Rightarrow> node list" where
  "inPostFixOrder elements root = filterElementGeneric elements POSTFIX False True root"

definition inDocumentOrder :: "string list \<Rightarrow> node \<Rightarrow> node list" where
  "inDocumentOrder elements root = filterElementGeneric elements DOCUMENT False True root"

definition filterChildElements :: "string \<Rightarrow> node \<Rightarrow> bool \<Rightarrow> node list" where
  "filterChildElements tagName n recurse =
     filterElementGeneric [tagName] (if recurse then DOCUMENT else NO_RECURSE) True False n"

definition filterChildElementsOf :: "string \<Rightarrow> node list \<Rightarrow> bool \<Rightarrow> node list" where
  "filterChildElementsOf tagName nodeSet recurse =
     concat (map (\<lambda>n. if isElement n then filterChildElements tagName n recurse else []) nodeSet)"

text \<open>\<open>filterChildType\<close> without recursion, for one node type given as a predicate.\<close>

definition filterChildType :: "(node \<Rightarrow> bool) \<Rightarrow> node \<Rightarrow> node list" where
  "filterChildType ty n = (if isElement n then filter ty (childNodes n) else [])"

fun isText :: "node \<Rightarrow> bool" where
  "isText (Text _ _) = True" | "isText _ = False"

subsection \<open>Names for nodes\<close>

text \<open>\<open>toStr\<close> of a non-negative number.\<close>

fun digits :: "nat \<Rightarrow> string" where
  "digits n = (if n < 10 then [char_of (48 + n)] else digits (n div 10) @ [char_of (48 + n mod 10)])"

declare digits.simps [simp del]

text \<open>How many earlier sibling elements carry the same tag name.\<close>

definition same_tag_before :: "node \<Rightarrow> node \<Rightarrow> nat" where
  "same_tag_before parent n =
     length (filter (\<lambda>c. isElement c \<and> iequals (TAGNAME c) (TAGNAME n))
       (takeWhile (\<lambda>c. \<not> same c n) (childNodes parent)))"

definition replace_dots :: "string \<Rightarrow> string" where
  "replace_dots s = map (\<lambda>c. if c = CHR ''.'' \<or> c = CHR '','' then CHR ''_'' else c) s"

fun idForNode_loop :: "node list \<Rightarrow> string \<Rightarrow> string \<Rightarrow> string" where
  "idForNode_loop [] nodeId seperator = nodeId"
| "idForNode_loop (cur # ps) nodeId seperator =
     (if isElement cur then
        (if HAS_ATTR cur ''id'' then replace_dots (ATTR cur ''id'') @ seperator @ nodeId
         else
           (let index = (case ps of [] \<Rightarrow> 0 | p # _ \<Rightarrow> same_tag_before p cur)
            in idForNode_loop ps (TAGNAME cur @ digits index @ seperator @ nodeId) ''_''))
      else idForNode_loop ps nodeId seperator)"

definition idForNode :: "node \<Rightarrow> node \<Rightarrow> string" where
  "idForNode doc n = idForNode_loop (path_to (nid n) doc) [] []"

fun xPathForNode_loop :: "string \<Rightarrow> node list \<Rightarrow> string \<Rightarrow> string" where
  "xPathForNode_loop ns [] xPath = xPath"
| "xPathForNode_loop ns (elem # ps) xPath =
     (let nsPrefix = (if ns = [] then [] else ns @ '':''); q = [CHR 0x22] in
      if HAS_ATTR elem ''id'' then
        (if ns = ''*''
         then ''//*[local-name() = '' @ q @ TAGNAME elem @ q @ ''][@id='' @ q @ ATTR elem ''id'' @ q @ '']'' @ xPath
         else ''//'' @ nsPrefix @ TAGNAME elem @ ''[@id='' @ q @ ATTR elem ''id'' @ q @ '']'' @ xPath)
      else
        (let index = Suc (case ps of [] \<Rightarrow> 0 | p # _ \<Rightarrow> same_tag_before p elem) in
         xPathForNode_loop ns ps
           (if ns = ''*''
            then ''/*[local-name() = '' @ q @ TAGNAME elem @ q @ '']['' @ digits index @ '']'' @ xPath
            else ''/'' @ nsPrefix @ TAGNAME elem @ ''['' @ digits index @ '']'' @ xPath)))"

text \<open>Above an element there are only elements and the document node.\<close>

definition xPathForNode :: "node \<Rightarrow> node \<Rightarrow> string \<Rightarrow> string" where
  "xPathForNode doc n ns = (if isElement n then xPathForNode_loop ns (path_to (nid n) doc) [] else [])"

subsection \<open>Paths in a document with unique identities\<close>

text \<open>The nodes of a tree in document order, and the paths from them to the root.\<close>

fun nodes :: "node \<Rightarrow> node list" where
  "nodes (Element i p l ns as cs) = Element i p l ns as cs # concat (map nodes cs)"
| "nodes (Text i v) = [Text i v]"
| "nodes (Other i) = [Other i]"

abbreviation nids :: "node \<Rightarrow> nat list" where
  "nids n \<equiv> map nid (nodes n)"

lemma nodes_self [simp]: "n \<in> set (nodes n)"
  by (cases n) simp_all

lemma nodes_trans: "m \<in> set (nodes d) \<Longrightarrow> x \<in> set (nodes m) \<Longrightarrow> x \<in> set (nodes d)"
  by (induction d) auto

lemma first_path_all: "(\<And>q. q \<in> set ps \<Longrightarrow> q = []) \<Longrightarrow> first_path ps = []"
  by (induction ps) auto

lemma first_path_split: "first_path (ps @ q # rs) = q" if "\<forall>p \<in> set ps. p = []" and "q \<noteq> []"
  using that by (induction ps) auto

lemma first_path_mem: "first_path ps \<noteq> [] \<Longrightarrow> first_path ps \<in> set ps"
  by (induction ps) auto

lemma path_to_none: "i \<notin> set (nids d) \<Longrightarrow> path_to i d = []"
proof (induction d)
  case (Element j p l ns as cs)
  have "first_path (map (path_to i) cs) = []"
    using Element by (intro first_path_all) auto
  then show ?case using Element.prems by simp
qed auto

lemma distinct_children:
  assumes "distinct (concat (map nids cs))" and "cs = us @ c # vs"
  shows "i \<in> set (nids c) \<Longrightarrow> u \<in> set us \<Longrightarrow> i \<notin> set (nids u)"
proof -
  have "(\<Union>x \<in> set us. set (nids x)) \<inter> set (nids c) = {}" using assms by (simp add: Int_Un_distrib)
  then show "i \<in> set (nids c) \<Longrightarrow> u \<in> set us \<Longrightarrow> i \<notin> set (nids u)" by blast
qed

lemma path_to_child:
  assumes "distinct (nids (Element j p l ns as cs))" and "c \<in> set cs" and "i \<in> set (nids c)"
    and "path_to i c \<noteq> []"
  shows "path_to i (Element j p l ns as cs) = path_to i c @ [Element j p l ns as cs]"
proof -
  obtain us vs where cs: "cs = us @ c # vs" using assms(2) by (meson split_list)
  have d: "distinct (concat (map nids cs))" and j: "j \<notin> set (concat (map nids cs))"
    using assms(1) by (simp_all add: map_concat comp_def)
  have "\<forall>q \<in> set (map (path_to i) us). q = []"
    using distinct_children [OF d cs assms(3)] path_to_none by auto
  then have "first_path (map (path_to i) cs) = path_to i c"
    using assms(4) cs first_path_split by simp
  moreover have "i \<noteq> j" using j assms(3) cs by auto
  ultimately show ?thesis using assms(4) by simp
qed

lemma distinct_nids_child: "distinct (nids (Element j p l ns as cs)) \<Longrightarrow> c \<in> set cs \<Longrightarrow> distinct (nids c)"
  by (auto simp: map_concat comp_def dest: split_list)

text \<open>The path to a node below \<open>m\<close> goes through \<open>m\<close>.\<close>

lemma path_to_hd: "distinct (nids d) \<Longrightarrow> x \<in> set (nodes d) \<Longrightarrow> path_to (nid x) d \<noteq> [] \<and> hd (path_to (nid x) d) = x"
proof (induction d)
  case (Element j p l ns as cs)
  show ?case
  proof (cases "x = Element j p l ns as cs")
    case False
    then obtain c where c: "c \<in> set cs" "x \<in> set (nodes c)" using Element.prems(2) by auto
    have IH: "path_to (nid x) c \<noteq> [] \<and> hd (path_to (nid x) c) = x"
      using Element.IH [OF c(1) distinct_nids_child [OF Element.prems(1) c(1)] c(2)] .
    then show ?thesis using path_to_child [OF Element.prems(1) c(1), of "nid x"] c(2) by simp
  qed simp
qed auto

lemma path_to_through:
  "distinct (nids d) \<Longrightarrow> m \<in> set (nodes d) \<Longrightarrow> x \<in> set (nodes m) \<Longrightarrow>
   path_to (nid x) d = path_to (nid x) m @ tl (path_to (nid m) d)"
proof (induction d)
  case (Element j p l ns as cs)
  show ?case
  proof (cases "m = Element j p l ns as cs")
    case False
    then obtain c where c: "c \<in> set cs" "m \<in> set (nodes c)" using Element.prems(2) by auto
    have xc: "x \<in> set (nodes c)" using nodes_trans [OF c(2) Element.prems(3)] .
    have dc: "distinct (nids c)" by (rule distinct_nids_child [OF Element.prems(1) c(1)])
    have IH: "path_to (nid x) c = path_to (nid x) m @ tl (path_to (nid m) c)"
      using Element.IH [OF c(1) dc c(2) Element.prems(3)] .
    have "path_to (nid x) (Element j p l ns as cs) = path_to (nid x) c @ [Element j p l ns as cs]"
      and "path_to (nid m) (Element j p l ns as cs) = path_to (nid m) c @ [Element j p l ns as cs]"
      using path_to_child [OF Element.prems(1) c(1)] path_to_hd [OF dc xc] path_to_hd [OF dc c(2)] xc c(2) by auto
    moreover have "path_to (nid m) c \<noteq> []" using path_to_hd [OF dc c(2)] by simp
    ultimately show ?thesis using IH by (simp add: tl_append2)
  qed simp
qed auto

lemma path_to_mem:
  "distinct (nids d) \<Longrightarrow> x \<in> set (path_to i d) \<Longrightarrow> x \<in> set (nodes d) \<and> i \<in> set (nids x)"
proof (induction d)
  case (Element j p l ns as cs)
  show ?case
  proof (cases "i = j")
    case False
    let ?q = "first_path (map (path_to i) cs)"
    have q: "?q \<noteq> []" and x: "x \<in> set ?q \<or> x = Element j p l ns as cs"
      using Element.prems(2) False by (auto split: if_splits simp: Let_def)
    obtain c where c: "c \<in> set cs" "?q = path_to i c" using first_path_mem [OF q] by auto
    have ic: "i \<in> set (nids c)" using q c(2) path_to_none [of i c] by argo
    show ?thesis
      using x Element.IH [OF c(1) distinct_nids_child [OF Element.prems(1) c(1)]] c ic by fastforce
  qed (use Element.prems in simp)
qed (auto split: if_splits)

lemma path_to_last: "path_to i d \<noteq> [] \<Longrightarrow> last (path_to i d) = d"
  by (cases d) (auto simp: Let_def split: if_splits)

lemma path_tl_nid: "x \<in> set (tl (path_to i d)) \<Longrightarrow> nid x \<noteq> i"
proof (induction d)
  case (Element j p l ns as cs)
  let ?q = "first_path (map (path_to i) cs)"
  show ?case
  proof (cases "i = j \<or> ?q = []")
    case False
    then have q: "?q \<noteq> []" and x: "x \<in> set (tl ?q) \<or> x = Element j p l ns as cs"
      using Element.prems by (auto simp: Let_def tl_append2)
    obtain c where "c \<in> set cs" "?q = path_to i c" using first_path_mem [OF q] by auto
    then show ?thesis using x Element.IH [of c] False by auto
  qed (use Element.prems in \<open>auto simp: Let_def split: if_splits\<close>)
qed (auto split: if_splits)

lemma distinct_path: "distinct (nids d) \<Longrightarrow> distinct (path_to i d)"
proof (induction d)
  case (Element j p l ns as cs)
  let ?q = "first_path (map (path_to i) cs)"
  show ?case
  proof (cases "i = j \<or> ?q = []")
    case False
    then have q: "?q \<noteq> []" by simp
    obtain c where c: "c \<in> set cs" "?q = path_to i c" using first_path_mem [OF q] by auto
    have dc: "distinct (nids c)" by (rule distinct_nids_child [OF Element.prems c(1)])
    have "j \<notin> set (nids c)" using Element.prems c(1) by (auto simp: map_concat comp_def)
    then have "Element j p l ns as cs \<notin> set (path_to i c)"
      using path_to_mem [OF dc, of "Element j p l ns as cs" i] by force
    then show ?thesis using False c Element.IH [OF c(1) dc] by (simp add: Let_def)
  qed (auto simp: Let_def)
qed (auto split: if_splits)

lemma same_node: "distinct (nids d) \<Longrightarrow> a \<in> set (nodes d) \<Longrightarrow> b \<in> set (nodes d) \<Longrightarrow> nid a = nid b \<Longrightarrow> a = b"
  by (metis distinct_map inj_onD)

lemma distinct_sub: "distinct (nids d) \<Longrightarrow> x \<in> set (nodes d) \<Longrightarrow> distinct (nids x)"
proof (induction d)
  case (Element j p l ns as cs)
  then show ?case using distinct_nids_child [OF Element.prems(1)] by fastforce
qed auto

lemma path_suffix:
  assumes d: "distinct (nids d)" and p: "path_to i d = ys @ x # zs"
  shows "path_to (nid x) d = x # zs"
proof -
  have x: "x \<in> set (nodes d)" "i \<in> set (nids x)" using path_to_mem [OF d, of x i] p by auto
  then obtain y where y: "y \<in> set (nodes x)" "nid y = i" by auto
  have dx: "distinct (nids x)" by (rule distinct_sub [OF d x(1)])
  have ne: "path_to i x \<noteq> []" using path_to_hd [OF dx y(1)] y(2) by simp
  have "path_to i d = path_to i x @ tl (path_to (nid x) d)"
    using path_to_through [OF d x(1) y(1)] y(2) by simp
  also have "\<dots> = butlast (path_to i x) @ x # tl (path_to (nid x) d)"
    using path_to_last [OF ne] ne by (metis append_Cons append_Nil append_assoc append_butlast_last_id)
  finally have "ys @ x # zs = butlast (path_to i x) @ x # tl (path_to (nid x) d)" using p by simp
  moreover have "x \<notin> set ys" using distinct_path [OF d, of i] p by auto
  ultimately have "zs = tl (path_to (nid x) d)"
    by (metis append_Cons_eq_iff distinct.simps(2) distinct_append distinct_path [OF d, of i] p)
  then show ?thesis using path_to_hd [OF d x(1)] by (metis list.collapse)
qed

lemma isDescendant_parents:
  assumes "distinct (nids doc)" and "b \<in> set (nodes doc)"
  shows "isDescendant doc (Some a) (Some b) \<longleftrightarrow> b \<in> set (parents doc a)"
proof -
  have "p = b" if "p \<in> set (parents doc a)" "nid b = nid p" for p
  proof -
    have "p \<in> set (path_to (nid a) doc)" using that(1) by (cases "path_to (nid a) doc") (auto simp: parents_def)
    then show ?thesis using path_to_mem [OF assms(1)] same_node [OF assms(1) _ assms(2)] that(2) by metis
  qed
  then show ?thesis by (auto simp: isDescendant_def list_ex_iff same_def)
qed

lemma isDescendant_iff:
  assumes d: "distinct (nids doc)" and a: "a \<in> set (nodes doc)" and b: "b \<in> set (nodes doc)"
  shows "isDescendant doc (Some a) (Some b) \<longleftrightarrow> a \<in> set (nodes b) \<and> a \<noteq> b"
proof
  assume "isDescendant doc (Some a) (Some b)"
  then have t: "b \<in> set (tl (path_to (nid a) doc))" using isDescendant_parents [OF d b] by (simp add: parents_def)
  then have "b \<in> set (path_to (nid a) doc)" by (cases "path_to (nid a) doc") auto
  then obtain y where y: "y \<in> set (nodes b)" "nid y = nid a" using path_to_mem [OF d] by force
  then have "y = a" using same_node [OF d nodes_trans [OF b] a] by blast
  then show "a \<in> set (nodes b) \<and> a \<noteq> b" using y path_tl_nid [OF t] by auto
next
  assume ab: "a \<in> set (nodes b) \<and> a \<noteq> b"
  have p: "path_to (nid a) doc = path_to (nid a) b @ tl (path_to (nid b) doc)"
    using path_to_through [OF d b conjunct1 [OF ab]] .
  have "path_to (nid a) b \<noteq> []" "hd (path_to (nid a) b) = a"
    using path_to_hd [OF distinct_sub [OF d b] conjunct1 [OF ab]] by simp_all
  then obtain r where "path_to (nid a) b = a # r" by (metis list.collapse)
  moreover have "last (path_to (nid a) b) = b" using path_to_last \<open>path_to (nid a) b \<noteq> []\<close> by blast
  ultimately have "b \<in> set r" using ab by (auto split: if_splits)
  then show "isDescendant doc (Some a) (Some b)"
    using isDescendant_parents [OF d b] p \<open>path_to (nid a) b = a # r\<close> by (simp add: parents_def)
qed

end
