(* ===== verification/Data_Values.thy ===== *)
theory Data_Values
  imports Dom
begin

text \<open>
  The tree-shaped values of \<open>src/src/uscxml/messages/Data.h\<close> and \<open>Data.cpp\<close>: a \<open>Data\<close> carries a
  DOM node, a compound (a \<open>std::map\<close> from strings), an array (a \<open>std::map\<close> from integers), an
  atom, a binary blob and a type tag, all at once. Maps are association lists sorted by key. The
  lemmas give the lookup law of \<open>merge\<close> and the round trip of the JSON string escapes.
\<close>

subsection \<open>The data type\<close>

datatype dtype = VERBATIM | INTERPRETED

text \<open>A \<open>Blob\<close> is its bytes and its MIME type; an empty handle is \<open>None\<close>.\<close>

type_synonym blob = "string \<times> string"

datatype data =
  Data (node_of: "node option") (compound: "(string \<times> data) list") (array_of: "(int \<times> data) list")
    (atom: string) (binary: "blob option") (type_of: dtype)

abbreviation put_key :: "string \<Rightarrow> 'v \<Rightarrow> (string \<times> 'v) list \<Rightarrow> (string \<times> 'v) list" where
  "put_key \<equiv> alist_put str_less"

abbreviation put_index :: "int \<Rightarrow> 'v \<Rightarrow> (int \<times> 'v) list \<Rightarrow> (int \<times> 'v) list" where
  "put_index \<equiv> alist_put (<)"

text \<open>Constructors: \<open>Data()\<close>, \<open>Data(value, type)\<close>, \<open>Data(value)\<close> for a string, and \<open>Data(node)\<close>,
  which leaves \<open>type\<close> uninitialised: its value is the parameter \<open>junk\<close>.\<close>

definition Data_empty :: data where
  "Data_empty = Data None [] [] [] None INTERPRETED"

definition Data_atom :: "string \<Rightarrow> dtype \<Rightarrow> data" where
  "Data_atom value type = Data None [] [] value None type"

definition Data_string :: "string \<Rightarrow> data" where
  "Data_string value = Data_atom value VERBATIM"

definition Data_node :: "dtype \<Rightarrow> node \<Rightarrow> data" where
  "Data_node junk n = Data (Some n) [] [] [] None junk"

definition Data_clear :: "data \<Rightarrow> data" where
  "Data_clear d = Data None [] [] [] None VERBATIM"

definition Data_is_empty :: "data \<Rightarrow> bool" where
  "Data_is_empty d = (\<not> (length (atom d) > 0 \<or> compound d \<noteq> [] \<or> array_of d \<noteq> [] \<or>
      binary d \<noteq> None \<or> node_of d \<noteq> None))"

subsection \<open>Access\<close>

definition hasKey :: "data \<Rightarrow> string \<Rightarrow> bool" where
  "hasKey d key = (compound d \<noteq> [] \<and> map_of (compound d) key \<noteq> None)"

text \<open>\<open>at\<close> returns \<open>Data()\<close> for an absent key; the subscript of a constant object throws instead.\<close>

definition data_at :: "data \<Rightarrow> string \<Rightarrow> data" where
  "data_at d key = (if hasKey d key then the (map_of (compound d) key) else Data_empty)"

definition item :: "data \<Rightarrow> int \<Rightarrow> data" where
  "item d index = (case map_of (array_of d) index of Some v \<Rightarrow> v | None \<Rightarrow> Data_empty)"

text \<open>\<open>d[key] = v\<close>, also \<open>put\<close> with a key.\<close>

fun put :: "string \<Rightarrow> data \<Rightarrow> data \<Rightarrow> data" where
  "put key v (Data n c a at b t) = Data n (put_key key v c) a at b t"

fun put_item :: "int \<Rightarrow> data \<Rightarrow> data \<Rightarrow> data" where
  "put_item i v (Data n c a at b t) = Data n c (put_index i v a) at b t"

fun set_compound :: "(string \<times> data) list \<Rightarrow> data \<Rightarrow> data" where
  "set_compound c' (Data n c a at b t) = Data n c' a at b t"

fun set_atom :: "string \<Rightarrow> data \<Rightarrow> data" where
  "set_atom at' (Data n c a at b t) = Data n c a at' b t"

fun set_type :: "dtype \<Rightarrow> data \<Rightarrow> data" where
  "set_type t' (Data n c a at b t) = Data n c a at b t'"

fun set_node :: "node option \<Rightarrow> data \<Rightarrow> data" where
  "set_node n' (Data n c a at b t) = Data n' c a at b t"

subsection \<open>merge\<close>

text \<open>\<open>map::insert(first, last)\<close> keeps the entries already present.\<close>

fun insert_new :: "(int \<times> 'v) list \<Rightarrow> (int \<times> 'v) list \<Rightarrow> (int \<times> 'v) list" where
  "insert_new m [] = m"
| "insert_new m ((k, v) # r) =
     insert_new (if map_of m k = None then put_index k v m else m) r"

fun merge :: "data \<Rightarrow> data \<Rightarrow> data" and merge_compound ::
  "(string \<times> data) list \<Rightarrow> (string \<times> data) list \<Rightarrow> (string \<times> data) list" where
  "merge d (Data n c a at b t) =
     Data (node_of d)
       (if c = [] then compound d else if compound d = [] then c else merge_compound (compound d) c)
       (if a = [] then array_of d else if array_of d = [] then a else insert_new (array_of d) a)
       (if at \<noteq> [] then at else atom d) (binary d) (if at \<noteq> [] then t else type_of d)"
| "merge_compound m [] = m"
| "merge_compound m ((k, v) # r) =
     merge_compound (put_key k (case map_of m k of Some d \<Rightarrow> merge d v | None \<Rightarrow> v) m) r"

subsection \<open>JSON strings\<close>

definition json_esc :: "char \<Rightarrow> string" where
  "json_esc c =
    (if c = CHR 0x09 then [bslash, CHR ''t'']
     else if c = CHR 0x0B then [bslash, CHR ''v'']
     else if c = CHR 0x08 then [bslash, CHR ''b'']
     else if c = CHR 0x0C then [bslash, CHR ''f'']
     else if c = CHR 0x0A then [bslash, CHR ''n'']
     else if c = CHR 0x0D then [bslash, CHR ''r'']
     else if c = CHR 0x22 then [bslash, CHR 0x22]
     else if c = bslash then [bslash, bslash]
     else [c])"

definition jsonEscape :: "string \<Rightarrow> string" where
  "jsonEscape expr = concat (map json_esc expr)"

definition json_unesc :: "char \<Rightarrow> char" where
  "json_unesc c =
    (if c = CHR ''b'' then CHR 0x08 else if c = CHR ''f'' then CHR 0x0C
     else if c = CHR ''n'' then CHR 0x0A else if c = CHR ''r'' then CHR 0x0D
     else if c = CHR ''t'' then CHR 0x09 else c)"

fun jsonUnescape_loop :: "string \<Rightarrow> bool \<Rightarrow> string \<Rightarrow> string" where
  "jsonUnescape_loop [] esc output = output"
| "jsonUnescape_loop (c # cs) esc output =
     (if esc then jsonUnescape_loop cs False (output @ [json_unesc c])
      else if c = bslash then jsonUnescape_loop cs True output
      else jsonUnescape_loop cs False (output @ [c]))"

definition jsonUnescape :: "string \<Rightarrow> string" where
  "jsonUnescape expr = jsonUnescape_loop expr False []"

subsection \<open>toJSON\<close>

text \<open>
  The static \<open>_dataIndentation\<close> is the argument \<open>ind\<close>, incremented around a nested value;
  \<open>xmlSer\<close> prints a DOM node (Xerces-C's serialiser). The entries of a map are printed by
  \<open>json_entries\<close> and \<open>json_items\<close> with the running separator.
\<close>

definition indent_str :: "nat \<Rightarrow> string" where
  "indent_str ind = concat (replicate (Suc ind) ''  '')"

definition longestKey :: "(string \<times> 'v) list \<Rightarrow> nat" where
  "longestKey m = foldl (\<lambda>l e. if length (fst e) > l then length (fst e) else l) 0 m"

fun toJSON :: "(node \<Rightarrow> string) \<Rightarrow> nat \<Rightarrow> data \<Rightarrow> string"
  and json_entries :: "(node \<Rightarrow> string) \<Rightarrow> nat \<Rightarrow> nat \<Rightarrow> string \<Rightarrow> (string \<times> data) list \<Rightarrow> string"
  and json_items :: "(node \<Rightarrow> string) \<Rightarrow> nat \<Rightarrow> string \<Rightarrow> (int \<times> data) list \<Rightarrow> string" where
  "toJSON xmlSer ind (Data n c a at b t) =
     (if c \<noteq> [] then
        ''{'' @ json_entries xmlSer ind (longestKey c) [] c @ [CHR 0x0A] @ indent_str ind @ ''}''
      else if a \<noteq> [] then
        [CHR 0x0A] @ indent_str ind @ ''['' @ json_items xmlSer ind [] a @ '']''
      else if at \<noteq> [] then
        (if t = VERBATIM then [CHR 0x22] @ jsonEscape at @ [CHR 0x22] else at)
      else (case n of
          Some nd \<Rightarrow> [CHR 0x22] @ jsonEscape (xmlSer nd) @ [CHR 0x22]
        | None \<Rightarrow> (if t = VERBATIM then [CHR 0x22, CHR 0x22] else ''null'')))"
| "json_entries xmlSer ind longest sep [] = []"
| "json_entries xmlSer ind longest sep ((k, v) # r) =
     sep @ [CHR 0x0A] @ indent_str ind @ ''  '' @ [CHR 0x22] @ jsonEscape k @ [CHR 0x22] @ '': '' @
     replicate (longest - length k) (CHR '' '') @ toJSON xmlSer (Suc ind) v @
     json_entries xmlSer ind longest '', '' r"
| "json_items xmlSer ind sep [] = []"
| "json_items xmlSer ind sep ((k, v) # r) =
     sep @ toJSON xmlSer (Suc ind) v @ json_items xmlSer ind '', '' r"

subsection \<open>Lookup laws\<close>

lemma hasKey_iff: "hasKey d k \<longleftrightarrow> map_of (compound d) k \<noteq> None"
  by (cases "compound d") (auto simp: hasKey_def)

lemma compound_put [simp]: "compound (put k v d) = put_key k v (compound d)"
  by (cases d) simp

lemma array_put [simp]: "array_of (put k v d) = array_of d" "atom (put k v d) = atom d"
    "type_of (put k v d) = type_of d" "node_of (put k v d) = node_of d" "binary (put k v d) = binary d"
  by (cases d, simp)+

lemma hasKey_put [simp]: "hasKey (put k v d) k' \<longleftrightarrow> k = k' \<or> hasKey d k'"
  by (auto simp: hasKey_iff)

lemma data_at_put [simp]: "data_at (put k v d) k' = (if k = k' then v else data_at d k')"
  by (auto simp: data_at_def hasKey_iff)

lemma data_at_empty [simp]: "data_at Data_empty k = Data_empty" "\<not> hasKey Data_empty k"
  by (simp_all add: data_at_def hasKey_def Data_empty_def)

lemma atom_Data_atom [simp]: "atom (Data_atom s t) = s" "type_of (Data_atom s t) = t"
    "compound (Data_atom s t) = []" "array_of (Data_atom s t) = []" "atom (Data_string s) = s"
  by (simp_all add: Data_atom_def Data_string_def)

lemma Data_empty_sel [simp]: "compound Data_empty = []" "array_of Data_empty = []" "atom Data_empty = []"
    "node_of Data_empty = None" "binary Data_empty = None" "type_of Data_empty = INTERPRETED"
  by (simp_all add: Data_empty_def)

lemma map_of_insert_new: "map_of (insert_new m r) = map_of r ++ map_of m"
proof (induction m r rule: insert_new.induct)
  case (2 m k v r)
  then show ?case by (auto simp: fun_eq_iff map_add_def split: option.split)
qed simp

lemma map_of_merge_compound:
  "distinct (map fst r) \<Longrightarrow> map_of (merge_compound m r) k =
     (case map_of r k of None \<Rightarrow> map_of m k
      | Some v \<Rightarrow> Some (case map_of m k of Some d \<Rightarrow> merge d v | None \<Rightarrow> v))"
proof (induction r arbitrary: m)
  case (Cons e r)
  obtain k' v where e: "e = (k', v)" by (cases e)
  from Cons.prems e have "map_of r k' = None" by (simp add: map_of_eq_None_iff image_iff)
  then show ?case using Cons e by (auto split: option.splits)
qed simp

lemma jsonUnescape_loop_append:
  "jsonUnescape_loop (json_esc c @ cs) False out =
     jsonUnescape_loop cs False (out @ [if c = CHR 0x0B then CHR ''v'' else c])"
  by (simp add: json_esc_def json_unesc_def bslash_def)

lemma jsonUnescape_loop_escape:
  "jsonUnescape_loop (jsonEscape s) False out = out @ map (\<lambda>c. if c = CHR 0x0B then CHR ''v'' else c) s"
  by (induction s arbitrary: out) (simp_all add: jsonEscape_def jsonUnescape_loop_append)

subsection \<open>Properties\<close>

text \<open>
  \<open>merge\<close> key by key: a key of the other compound is taken over, merged recursively with the
  value already there; every other key keeps its value; array entries already present win; an atom
  of the other value, together with its type, wins when it is not empty.
\<close>

theorem merge_lookup:
  assumes "distinct (map fst (compound e))"
  shows "map_of (compound (merge d e)) k =
      (case map_of (compound e) k of None \<Rightarrow> map_of (compound d) k
       | Some v \<Rightarrow> Some (case map_of (compound d) k of Some u \<Rightarrow> merge u v | None \<Rightarrow> v)) \<and>
    map_of (array_of (merge d e)) i =
      (case map_of (array_of d) i of Some u \<Rightarrow> Some u | None \<Rightarrow> map_of (array_of e) i) \<and>
    atom (merge d e) = (if atom e = [] then atom d else atom e) \<and>
    type_of (merge d e) = (if atom e = [] then type_of d else type_of e)"
  using assms
  by (cases e) (auto simp: map_of_merge_compound map_of_insert_new map_add_def split: option.split)

definition sample_data :: "string \<Rightarrow> data" where
  "sample_data s = put ''x'' (Data_string s) Data_empty"

theorem merge_lookup_witness:
  "map_of (compound (merge (sample_data ''a'') (sample_data ''b''))) ''x'' =
     Some (merge (Data_string ''a'') (Data_string ''b''))"
  using merge_lookup [of "sample_data ''b''" "sample_data ''a''" "''x''" 0]
  by (simp add: sample_data_def)

text \<open>
  Unescaping a string that \<open>jsonEscape\<close> produced gives the string back except that every
  vertical tab has become the letter v: \<open>jsonEscape\<close> writes an escape that \<open>jsonUnescape\<close> does not
  know.
\<close>

theorem jsonEscape_roundtrip:
  "jsonUnescape (jsonEscape s) = map (\<lambda>c. if c = CHR 0x0B then CHR ''v'' else c) s"
  by (simp add: jsonUnescape_def jsonUnescape_loop_escape)

end
