(* ===== verification/Events.thy ===== *)
theory Events
  imports Data_Values
begin

text \<open>
  Events, \<open>src/src/uscxml/messages/Event.h\<close> and \<open>Event.cpp\<close>. An event is a record with the fields
  of the class; \<open>UUID::getUUID\<close> is a parameter. The error macros of \<open>Event.h\<close> are functions that
  build the event that the code throws or enqueues; the file name and line number they add are
  an argument, the place of the call.
\<close>

subsection \<open>The event record\<close>

datatype etype = INTERNAL | EXTERNAL | PLATFORM

definition TypeToString :: "etype \<Rightarrow> string" where
  "TypeToString type = (case type of INTERNAL \<Rightarrow> ''internal'' | EXTERNAL \<Rightarrow> ''external''
     | PLATFORM \<Rightarrow> ''platform'')"

record Event =
  raw :: string
  ename :: string
  eventType :: etype
  origin :: string
  origintype :: string
  sendid :: string
  hideSendId :: bool
  invokeid :: string
  edata :: data
  namelist :: "(string \<times> data) list"
  params :: "(string \<times> data) list"
  uuid :: string

text \<open>\<open>Event()\<close>, with the fresh identifier as argument, and \<open>Event(name, type)\<close>.\<close>

definition Event_new :: "string \<Rightarrow> Event" where
  "Event_new uid = \<lparr>raw = [], ename = [], eventType = INTERNAL, origin = [], origintype = [], sendid = [],
     hideSendId = False, invokeid = [], edata = Data_empty, namelist = [], params = [], uuid = uid\<rparr>"

definition Event_named :: "string \<Rightarrow> etype \<Rightarrow> Event" where
  "Event_named n type = (Event_new [])\<lparr>ename := n, eventType := type\<rparr>"

definition event_valid :: "Event \<Rightarrow> bool" where
  "event_valid e = (length (ename e) > 0)"

text \<open>\<open>operator==\<close>; equality of data is taken structurally.\<close>

definition event_eq :: "Event \<Rightarrow> Event \<Rightarrow> bool" where
  "event_eq a b = (ename a = ename b \<and> sendid a = sendid b \<and> invokeid a = invokeid b \<and> edata a = edata b)"

subsection \<open>Parameters: a multimap\<close>

text \<open>\<open>multimap::insert\<close> places an entry after the entries with the same or a smaller key.\<close>

fun multimap_insert :: "string \<Rightarrow> data \<Rightarrow> (string \<times> data) list \<Rightarrow> (string \<times> data) list" where
  "multimap_insert k v [] = [(k, v)]"
| "multimap_insert k v ((k', v') # m) =
     (if str_less k k' then (k, v) # (k', v') # m else (k', v') # multimap_insert k v m)"

text \<open>The overloads of \<open>getParam\<close>: one value, all values, and a boolean.\<close>

definition getParam :: "(string \<times> data) list \<Rightarrow> string \<Rightarrow> data option" where
  "getParam ps name = map_of ps name"

definition getParam_list :: "(string \<times> data) list \<Rightarrow> string \<Rightarrow> data list option" where
  "getParam_list ps name = (if map_of ps name \<noteq> None
     then Some (map snd (filter (\<lambda>e. fst e = name) ps)) else None)"

definition getParam_bool :: "(string \<times> data) list \<Rightarrow> string \<Rightarrow> bool option" where
  "getParam_bool ps name = map_option (\<lambda>d.
     \<not> (iequals (atom d) ''false'' \<or> iequals (atom d) ''off'' \<or> iequals (atom d) ''no'' \<or>
        iequals (atom d) ''0'')) (map_of ps name)"

subsection \<open>Conversion from and to Data\<close>

text \<open>
  \<open>strTo\<close> of a decimal numeral; the cast of the event type is defined on 1, 2 and 3 only and is
  taken to leave the default otherwise.
\<close>

fun strTo_nat :: "string \<Rightarrow> nat \<Rightarrow> nat" where
  "strTo_nat [] acc = acc"
| "strTo_nat (c # cs) acc = (let n = of_char c :: nat in
     if 48 \<le> n \<and> n \<le> 57 then strTo_nat cs (10 * acc + (n - 48)) else acc)"

definition etype_of_nat :: "nat \<Rightarrow> etype" where
  "etype_of_nat n = (if n = 2 then EXTERNAL else if n = 3 then PLATFORM else INTERNAL)"

definition etype_num :: "etype \<Rightarrow> nat" where
  "etype_num t = (case t of INTERNAL \<Rightarrow> 1 | EXTERNAL \<Rightarrow> 2 | PLATFORM \<Rightarrow> 3)"

definition key_atom :: "data \<Rightarrow> string \<Rightarrow> string \<Rightarrow> string" where
  "key_atom d k dflt = (if hasKey d k then atom (data_at d k) else dflt)"

text \<open>An array entry of the parameters contributes the first entry of its compound; reading the first
  entry of an empty compound is undefined, the entry is then skipped here.\<close>

fun params_of_array :: "(int \<times> data) list \<Rightarrow> (string \<times> data) list \<Rightarrow> (string \<times> data) list" where
  "params_of_array [] ps = ps"
| "params_of_array ((i, d) # r) ps = params_of_array r
     (case compound d of [] \<Rightarrow> ps | (k, v) # _ \<Rightarrow> multimap_insert k v ps)"

definition fromData :: "string \<Rightarrow> data \<Rightarrow> Event" where
  "fromData uid d = \<lparr>raw = key_atom d ''raw'' [], ename = key_atom d ''name'' [],
     eventType = (if hasKey d ''eventType'' then etype_of_nat (strTo_nat (atom (data_at d ''eventType'')) 0)
                  else INTERNAL),
     origin = key_atom d ''origin'' [], origintype = key_atom d ''origintype'' [],
     sendid = key_atom d ''sendid'' [],
     hideSendId = (hasKey d ''hideSendId'' \<and> atom (data_at d ''hideSendId'') = ''1''),
     invokeid = key_atom d ''invokeid'' [],
     edata = (if hasKey d ''data'' then data_at d ''data'' else Data_empty),
     namelist = (if hasKey d ''namelist'' then compound (data_at d ''namelist'') else []),
     params = (if hasKey d ''params'' then params_of_array (array_of (data_at d ''params'')) [] else []),
     uuid = key_atom d ''uuid'' uid\<rparr>"

text \<open>
  \<open>operator Data\<close>: the local variable \<open>data\<close> hides the member, so \<open>data["data"] = data\<close> stores the value
  under construction, which at that point has the one key just inserted.
\<close>

fun param_entries :: "int \<Rightarrow> (string \<times> data) list \<Rightarrow> data \<Rightarrow> data" where
  "param_entries index [] d = d"
| "param_entries index ((k, v) # ps) d =
     param_entries (index + 1) ps
       (put ''params'' (put_item index (put k v Data_empty) (data_at d ''params'')) d)"

definition toData :: "Event \<Rightarrow> data" where
  "toData e =
    (let d0 = put ''data'' Data_empty Data_empty;
         d1 = put ''data'' d0 d0;
         d2 = put ''raw'' (Data_atom (raw e) VERBATIM) d1;
         d3 = put ''name'' (Data_atom (ename e) VERBATIM) d2;
         d4 = put ''eventType'' (Data_atom (digits (etype_num (eventType e))) VERBATIM) d3;
         d5 = put ''origin'' (Data_atom (origin e) VERBATIM) d4;
         d6 = put ''origintype'' (Data_atom (origintype e) VERBATIM) d5;
         d7 = put ''sendid'' (Data_atom (sendid e) VERBATIM) d6;
         d8 = put ''hideSendId'' (Data_atom (if hideSendId e then ''1'' else ''0'') VERBATIM) d7;
         d9 = put ''invokeid'' (Data_atom (invokeid e) VERBATIM) d8;
         d10 = put ''uuid'' (Data_atom (uuid e) VERBATIM) d9;
         d11 = put ''namelist'' (set_compound (namelist e) Data_empty) d10
     in param_entries 0 (params e) d11)"

subsection \<open>Error events\<close>

text \<open>The place in the sources that raises the error: the base name of \<open>__FILE__\<close>, and \<open>__LINE__\<close>.\<close>

type_synonym loc = "string \<times> nat"

definition error_event :: "string \<Rightarrow> string \<Rightarrow> loc \<Rightarrow> string \<Rightarrow> Event" where
  "error_event uid n loc cause = (Event_new uid)\<lparr>ename := n, eventType := PLATFORM,
     edata := put ''line'' (Data_atom (digits (snd loc)) INTERPRETED)
       (put ''file'' (Data_atom (fst loc) VERBATIM) (put ''cause'' (Data_atom cause VERBATIM) Data_empty))\<rparr>"

definition ERROR_PLATFORM :: "string \<Rightarrow> loc \<Rightarrow> string \<Rightarrow> Event" where
  "ERROR_PLATFORM uid loc cause = error_event uid ''error.platform'' loc cause"

definition ERROR_EXECUTION :: "string \<Rightarrow> loc \<Rightarrow> string \<Rightarrow> Event" where
  "ERROR_EXECUTION uid loc cause = error_event uid ''error.execution'' loc cause"

definition ERROR_COMMUNICATION :: "string \<Rightarrow> loc \<Rightarrow> string \<Rightarrow> Event" where
  "ERROR_COMMUNICATION uid loc cause = error_event uid ''error.communication'' loc cause"

definition with_xpath :: "string \<Rightarrow> Event \<Rightarrow> Event" where
  "with_xpath xpath e = e\<lparr>edata := put ''xpath'' (Data_atom xpath VERBATIM) (edata e)\<rparr>"

definition RETHROW :: "string \<Rightarrow> string \<Rightarrow> Event \<Rightarrow> Event" where
  "RETHROW caption xpath e = (with_xpath xpath e)
     \<lparr>edata := put ''caption'' (Data_atom caption VERBATIM) (edata (with_xpath xpath e))\<rparr>"

subsection \<open>Reading back what was written\<close>

lemma ename_new [simp]: "ename (Event_new u) = []" "event_valid (Event_new u) = False"
  by (simp_all add: Event_new_def event_valid_def)

lemma param_entries_other: "k \<noteq> ''params'' \<Longrightarrow> data_at (param_entries i ps d) k = data_at d k"
  "k \<noteq> ''params'' \<Longrightarrow> hasKey (param_entries i ps d) k = hasKey d k"
  by (induction i ps d rule: param_entries.induct) auto

lemma digits_etype: "strTo_nat (digits (etype_num t)) 0 = etype_num t"
  by (cases t) (simp_all add: etype_num_def digits.simps)

lemma etype_of_num [simp]: "etype_of_nat (etype_num t) = t"
  by (cases t) (simp_all add: etype_num_def etype_of_nat_def)

text \<open>The keys above the largest index so far are appended, so the array lists the parameters in order.\<close>

lemma put_index_append:
  "\<forall>j \<in> fst ` set m. j < i \<Longrightarrow> put_index i v m = m @ [(i, v)]"
  by (induction m) (auto dest: less_asym)

fun entry_array :: "int \<Rightarrow> (string \<times> data) list \<Rightarrow> (int \<times> data) list" where
  "entry_array i [] = []"
| "entry_array i ((k, v) # ps) = (i, put k v Data_empty) # entry_array (i + 1) ps"

lemma array_put_item [simp]: "array_of (put_item i v d) = put_index i v (array_of d)"
  by (cases d) simp

lemma param_entries_array:
  "\<forall>j \<in> fst ` set (array_of (data_at d ''params'')). j < i \<Longrightarrow>
   array_of (data_at (param_entries i ps d) ''params'') =
     array_of (data_at d ''params'') @ entry_array i ps \<and>
   hasKey (param_entries i ps d) ''params'' = (ps \<noteq> [] \<or> hasKey d ''params'')"
proof (induction i ps d rule: param_entries.induct)
  case (2 i k v ps d)
  have "array_of (put_item i (put k v Data_empty) (data_at d ''params'')) =
      array_of (data_at d ''params'') @ [(i, put k v Data_empty)]"
    using put_index_append [OF "2.prems"] by simp
  moreover have "\<forall>j \<in> fst ` set (array_of (data_at d ''params'') @ [(i, put k v Data_empty)]). j < i + 1"
    using "2.prems" by auto
  ultimately show ?case using "2.IH" by simp
qed simp

lemma params_of_entry_array:
  "params_of_array (entry_array i ps) acc = foldl (\<lambda>m (k, v). multimap_insert k v m) acc ps"
  by (induction i ps arbitrary: acc rule: entry_array.induct) simp_all

text \<open>A multimap is sorted by key; inserting its entries one by one rebuilds it.\<close>

fun key_sorted :: "(string \<times> data) list \<Rightarrow> bool" where
  "key_sorted [] = True"
| "key_sorted (e # m) = ((\<forall>f \<in> set m. \<not> str_less (fst f) (fst e)) \<and> key_sorted m)"

lemma multimap_insert_last:
  "\<forall>f \<in> set m. \<not> str_less k (fst f) \<Longrightarrow> multimap_insert k v m = m @ [(k, v)]"
  by (induction m) auto

lemma key_sorted_append:
  "key_sorted (m @ ps) \<longleftrightarrow> key_sorted m \<and> key_sorted ps \<and>
     (\<forall>e \<in> set m. \<forall>f \<in> set ps. \<not> str_less (fst f) (fst e))"
  by (induction m) auto

lemma rebuild_multimap:
  "key_sorted (m @ ps) \<Longrightarrow> foldl (\<lambda>m (k, v). multimap_insert k v m) m ps = m @ ps"
proof (induction ps arbitrary: m)
  case (Cons e ps)
  obtain k v where e: "e = (k, v)" by (cases e)
  from Cons.prems have "multimap_insert k v m = m @ [(k, v)]"
    by (intro multimap_insert_last) (auto simp: key_sorted_append e)
  with Cons e show ?case by simp
qed simp

lemma params_roundtrip:
  assumes "key_sorted ps"
    and "\<not> hasKey d ''params''"
  shows "(if hasKey (param_entries 0 ps d) ''params''
      then params_of_array (array_of (data_at (param_entries 0 ps d) ''params'')) [] else []) = ps"
proof -
  have "data_at d ''params'' = Data_empty" using assms(2) by (simp add: data_at_def)
  then show ?thesis
    using param_entries_array [of d 0 ps] params_of_entry_array [of 0 ps "[]"]
      rebuild_multimap [of "[]" ps] assms by auto
qed

lemma set_compound_sel [simp]: "compound (set_compound c d) = c" by (cases d) simp

subsection \<open>Properties\<close>

text \<open>
  Writing an event to \<open>Data\<close> and reading it back keeps every field, the parameters and the name
  list included, except the event's data, which becomes a value with the single key \<open>data\<close>.
\<close>

theorem event_data_roundtrip:
  assumes "key_sorted (params e)"
  shows "fromData uid (toData e) = e\<lparr>edata := put ''data'' Data_empty Data_empty\<rparr>"
  using assms
  by (simp add: fromData_def toData_def Let_def key_atom_def param_entries_other params_roundtrip
      digits_etype)

definition sample_event :: Event where
  "sample_event = (Event_named ''go'' EXTERNAL)\<lparr>edata := Data_string ''payload'',
     params := [(''a'', Data_string ''1''), (''b'', Data_string ''2'')]\<rparr>"

theorem event_data_roundtrip_witness:
  "fromData [] (toData sample_event) = sample_event\<lparr>edata := put ''data'' Data_empty Data_empty\<rparr>"
  by (rule event_data_roundtrip) (simp add: sample_event_def)

end
