(* ===== verification/Predicates.thy ===== *)
theory Predicates
  imports Dom
begin

text \<open>
  The state predicates and set computations of \<open>src/src/uscxml/util/Predicates.cpp\<close>: which elements
  are states, the least common compound ancestor, transition domains, exit sets and conflicts.
  Operations that follow parent pointers take the document \<open>doc\<close>; a null pointer is \<open>None\<close>.
  The lemmas show that \<open>findLCCA\<close> returns the innermost compound ancestor, that conflicts are
  symmetric, and that an exit set lies below its domain.
\<close>

subsection \<open>Kinds of states\<close>

definition isState :: "node \<Rightarrow> bool \<Rightarrow> bool" where
  "isState state properOnly =
    (let localName = LOCALNAME state in
     if iequals ''state'' localName then True
     else if iequals ''scxml'' localName then True
     else if iequals ''parallel'' localName then True
     else if iequals ''final'' localName then True
     else if properOnly then False
     else iequals ''history'' localName \<or> iequals ''initial'' localName)"

definition getChildStates :: "node \<Rightarrow> bool \<Rightarrow> node list" where
  "getChildStates state properOnly = filter (\<lambda>c. isState c properOnly) (elementChildren state)"

definition isFinal :: "node \<Rightarrow> bool" where
  "isFinal state = (iequals ''final'' (LOCALNAME state) \<or>
     (HAS_ATTR state ''final'' \<and> iequals ''true'' (ATTR state ''final'')))"

definition isAtomic :: "node \<Rightarrow> bool" where
  "isAtomic state =
    (if \<not> isState state True then False
     else if iequals ''final'' (LOCALNAME state) then True
     else if iequals ''parallel'' (LOCALNAME state) then False
     else \<not> length (getChildStates state True) > 0)"

definition isHistory :: "node \<Rightarrow> bool" where
  "isHistory state = iequals ''history'' (LOCALNAME state)"

definition isParallel :: "node \<Rightarrow> bool" where
  "isParallel state = (isState state True \<and> iequals ''parallel'' (LOCALNAME state))"

definition isCompound :: "node \<Rightarrow> bool" where
  "isCompound state =
    (if \<not> isState state True then False
     else if iequals (LOCALNAME state) ''parallel'' then False
     else length (getChildStates state True) > 0)"

subsection \<open>Parents and ancestors\<close>

definition getParentState :: "node \<Rightarrow> node \<Rightarrow> node option" where
  "getParentState doc element = List.find (\<lambda>p. isState p True) (parents doc element)"

definition getSourceState :: "node \<Rightarrow> node \<Rightarrow> node option" where
  "getSourceState doc transition =
    (case getParentNode doc transition of
       None \<Rightarrow> None
     | Some p \<Rightarrow>
         if iequals (TAGNAME p) (XML_PREFIX transition @ ''initial'') then getParentNode doc p else Some p)"

definition ancestor_kind :: "node \<Rightarrow> bool" where
  "ancestor_kind n = (isState n True \<and> (iequals (LOCALNAME n) ''parallel'' \<or> iequals (LOCALNAME n) ''state'' \<or>
     iequals (LOCALNAME n) ''scxml''))"

definition getProperAncestors :: "node \<Rightarrow> node \<Rightarrow> node option \<Rightarrow> node list" where
  "getProperAncestors doc s1 s2 =
    (if isState s1 False
     then takeWhile (\<lambda>n. ancestor_kind n \<and> (case s2 of None \<Rightarrow> True | Some s \<Rightarrow> \<not> same n s)) (parents doc s1)
     else [])"

subsection \<open>The least common compound ancestor\<close>

definition isLCCA_candidate :: "node \<Rightarrow> node list \<Rightarrow> node \<Rightarrow> bool" where
  "isLCCA_candidate doc states anc =
    (isCompound anc \<and> list_all (\<lambda>s. isDescendant doc (Some s) (Some anc)) states)"

definition findLCCA :: "node \<Rightarrow> node list \<Rightarrow> node option" where
  "findLCCA doc states =
    (let ancestors = getProperAncestors doc (hd states) None in
     case List.find (isLCCA_candidate doc states) ancestors of
       Some a \<Rightarrow> Some a
     | None \<Rightarrow> if ancestors \<noteq> [] then Some (last ancestors) else None)"

subsection \<open>Looking up states\<close>

text \<open>\<open>getState\<close> searches breadth first; reaching an element that is no state fails an assertion (\<open>None\<close>).\<close>

lemma size_child_states: "(\<Sum>c \<leftarrow> getChildStates n b. Suc (size c)) < Suc (size n)"
proof (cases n)
  case (Element i p l ns as cs)
  have "(\<Sum>c \<leftarrow> filter P (filter Q cs). Suc (size c)) \<le> size_list size cs" for P Q by (induction cs) auto
  from this [of "\<lambda>c. isState c b" isElement] show ?thesis
    using Element by (simp add: getChildStates_def elementChildren_def less_Suc_eq_le)
qed (simp_all add: getChildStates_def elementChildren_def)

function getState_loop :: "string \<Rightarrow> node list \<Rightarrow> node option" where
  "getState_loop stateId [] = None"
| "getState_loop stateId (c # stateStack) =
     (if \<not> isState c False then None
      else if HAS_ATTR c ''id'' \<and> ATTR c ''id'' = stateId then Some c
      else getState_loop stateId (stateStack @ getChildStates c False))"
  by pat_completeness auto
termination
proof (relation "measure (\<lambda>(i, st). \<Sum>c \<leftarrow> st. Suc (size c))", goal_cases)
  case (2 stateId c stateStack)
  show ?case using size_child_states [of c False] by simp
qed simp

definition getState :: "string \<Rightarrow> node \<Rightarrow> node option" where
  "getState stateId root = getState_loop stateId [root]"

definition getStates :: "string list \<Rightarrow> node \<Rightarrow> node option list" where
  "getStates stateIds root = map (\<lambda>i. getState i root) stateIds"

definition getTargetStates :: "node \<Rightarrow> node \<Rightarrow> node list" where
  "getTargetStates transition root =
     concat (map (\<lambda>i. case getState i root of None \<Rightarrow> [] | Some s \<Rightarrow> [s]) (tokens (ATTR transition ''target'')))"

subsection \<open>Transition domain, exit set and conflicts\<close>

definition getTransitionDomain :: "node \<Rightarrow> node \<Rightarrow> node \<Rightarrow> node option" where
  "getTransitionDomain doc transition root =
    (let tStates = getTargetStates transition root in
     if tStates = [] then None
     else
       (let transitionType = (if HAS_ATTR transition ''type'' then ATTR transition ''type'' else ''external'') in
        case getSourceState doc transition of
          None \<Rightarrow> None
        | Some source \<Rightarrow>
            if iequals transitionType ''internal'' \<and> isCompound source \<and>
               list_all (\<lambda>s. isDescendant doc (Some s) (Some source)) tStates
            then Some source
            else findLCCA doc (source # tStates)))"

definition getExitSet :: "node \<Rightarrow> node \<Rightarrow> node \<Rightarrow> node list" where
  "getExitSet doc transition root =
    (if HAS_ATTR transition ''target'' then
       (case getTransitionDomain doc transition root of
          None \<Rightarrow> []
        | Some domain \<Rightarrow>
            (let p = XML_PREFIX transition;
                 statesToExit = inDocumentOrder [p @ ''parallel'', p @ ''state'', p @ ''final''] domain
             in case statesToExit of
                  [] \<Rightarrow> []
                | s # rest \<Rightarrow> if same s domain then rest else statesToExit))
     else [])"

definition same_opt :: "node option \<Rightarrow> node option \<Rightarrow> bool" where
  "same_opt a b = (case (a, b) of (Some x, Some y) \<Rightarrow> same x y | (None, None) \<Rightarrow> True | _ \<Rightarrow> False)"

definition conflicts :: "node \<Rightarrow> node \<Rightarrow> node \<Rightarrow> node \<Rightarrow> bool" where
  "conflicts doc t1 t2 root =
    (same_opt (getSourceState doc t1) (getSourceState doc t2) \<or>
     isDescendant doc (getSourceState doc t1) (getSourceState doc t2) \<or>
     isDescendant doc (getSourceState doc t2) (getSourceState doc t1) \<or>
     hasIntersection (getExitSet doc t1 root) (getExitSet doc t2 root))"

subsection \<open>Initial states and machines\<close>

definition getInitialStates :: "node \<Rightarrow> node \<Rightarrow> node option list" where
  "getInitialStates state root =
    (if isAtomic state then []
     else if isParallel state then map Some (getChildStates state True)
     else if isCompound state then
       (if HAS_ATTR state ''initial'' then getStates (tokens (ATTR state ''initial'')) root
        else
          (case filterChildElements (XML_PREFIX state @ ''initial'') state False of
             ini # _ \<Rightarrow>
               (case filterChildElements (XML_PREFIX ini @ ''transition'') ini False of
                  tr # _ \<Rightarrow> if HAS_ATTR tr ''target'' then map Some (getTargetStates tr root) else []
                | [] \<Rightarrow> [])
           | [] \<Rightarrow> (case List.find (\<lambda>c. isState c True) (elementChildren state) of
                     Some c \<Rightarrow> [Some c] | None \<Rightarrow> [])))
     else [])"

definition getScxmlNode :: "node \<Rightarrow> node \<Rightarrow> node option" where
  "getScxmlNode doc n = List.find (\<lambda>p. iequals (LOCALNAME p) ''scxml'') (path_to (nid n) doc)"

definition areFromSameMachine :: "node \<Rightarrow> node \<Rightarrow> node \<Rightarrow> bool" where
  "areFromSameMachine doc n1 n2 = same_opt (getScxmlNode doc n1) (getScxmlNode doc n2)"

subsection \<open>Symmetry\<close>

lemma same_sym: "same a b = same b a"
  by (auto simp: same_def)

lemma same_opt_sym: "same_opt a b = same_opt b a"
  by (auto simp: same_opt_def same_sym split: option.splits)

lemma hasIntersection_sym: "hasIntersection a b = hasIntersection b a"
  unfolding hasIntersection_def list_ex_iff same_def by metis

lemma conflicts_sym: "conflicts doc t1 t2 root = conflicts doc t2 t1 root"
  using hasIntersection_sym same_opt_sym unfolding conflicts_def by blast

subsection \<open>The innermost compound ancestor\<close>

lemma find_Some_split:
  "List.find P xs = Some x \<Longrightarrow> \<exists>ys zs. xs = ys @ x # zs \<and> P x \<and> (\<forall>y \<in> set ys. \<not> P y)"
proof (induction xs)
  case (Cons a xs)
  show ?case
  proof (cases "P a")
    case True
    then have "a # xs = [] @ x # xs \<and> P x \<and> (\<forall>y \<in> set []. \<not> P y)" using Cons.prems by simp
    then show ?thesis by blast
  next
    case False
    then obtain ys zs where "xs = ys @ x # zs \<and> P x \<and> (\<forall>y \<in> set ys. \<not> P y)" using Cons by auto
    then have "a # xs = (a # ys) @ x # zs \<and> P x \<and> (\<forall>y \<in> set (a # ys). \<not> P y)" using False by simp
    then show ?thesis by blast
  qed
qed simp

text \<open>Ancestors further out in an ancestor list are ancestors of the ones closer in.\<close>

lemma proper_ancestors_nested:
  assumes d: "distinct (nids doc)" and anc: "getProperAncestors doc s None = ys @ l # zs" and a: "a \<in> set zs"
  shows "isDescendant doc (Some l) (Some a)"
proof -
  from anc have ne: "isState s False" and tw: "takeWhile ancestor_kind (parents doc s) = ys @ l # zs"
    by (auto simp: getProperAncestors_def split: if_splits)
  then obtain r where r: "tl (path_to (nid s) doc) = (ys @ l # zs) @ r"
    unfolding parents_def by (metis takeWhile_dropWhile_id)
  then obtain h where "path_to (nid s) doc = (h # ys) @ l # (zs @ r)" by (cases "path_to (nid s) doc") auto
  from path_suffix [OF d this] have p: "path_to (nid l) doc = l # (zs @ r)" .
  then have "a \<in> set (parents doc l)" using a by (simp add: parents_def)
  moreover from this have "a \<in> set (path_to (nid l) doc)" using p by (simp add: parents_def)
  then have "a \<in> set (nodes doc)" using path_to_mem [OF d] by blast
  ultimately show ?thesis using isDescendant_parents [OF d] by blast
qed

text \<open>Traversals return nodes of the subtree.\<close>

lemma filterElementGeneric_sub: "x \<in> set (filterElementGeneric els ord emb incl n) \<Longrightarrow> x \<in> set (nodes n)"
proof (induction els ord emb incl n rule: filterElementGeneric.induct)
  case (1 els ord emb incl i p l ns as cs)
  have sub: "c \<in> set cs \<Longrightarrow> x \<in> set (nodes c) \<Longrightarrow> x \<in> set (nodes (Element i p l ns as cs))" for c by auto
  show ?case using "1.prems" "1.IH" sub
    by (auto simp: Let_def split: if_splits) (metis nodes_self)+
qed simp_all

text \<open>In document order the root comes first; what follows lies strictly below it.\<close>

lemma inDocumentOrder_root:
  assumes "distinct (nids n)"
  obtains R where "inDocumentOrder els n = (if isElement n \<and> TAGNAME n \<in> set els then [n] else []) @ R"
    and "\<And>x. x \<in> set R \<Longrightarrow> x \<in> set (nodes n) \<and> nid x \<noteq> nid n"
proof (cases n)
  case (Element i p l ns as cs)
  let ?R = "concat (map (\<lambda>c. if isElement c \<and> TAGNAME c \<noteq> XML_PREFIX n @ ''scxml''
      then filterElementGeneric els DOCUMENT False True c else []) cs)"
  have "inDocumentOrder els n = (if isElement n \<and> TAGNAME n \<in> set els then [n] else []) @ ?R"
    by (simp add: inDocumentOrder_def Element Let_def cong: if_cong) (intro arg_cong [where f = concat] map_cong, auto)
  moreover have "x \<in> set (nodes n) \<and> nid x \<noteq> nid n" if "x \<in> set ?R" for x
  proof -
    from that obtain c where "c \<in> set cs" "x \<in> set (nodes c)"
      by (auto split: if_splits dest: filterElementGeneric_sub)
    then show ?thesis using assms Element by (auto simp: map_concat comp_def)
  qed
  ultimately show thesis by (rule that)
qed (use that [of "[]"] in \<open>simp_all add: inDocumentOrder_def\<close>)

subsection \<open>Properties\<close>

text \<open>A document: a root with the compound state \<open>a\<close>, its children \<open>a1\<close> and \<open>a2\<close>, and the state \<open>b\<close>; a
  transition leads from \<open>a1\<close> to \<open>b\<close>.\<close>

definition sample_tr :: node where
  "sample_tr = Element 3 None ''transition'' [] [(''event'', ''go''), (''target'', ''b'')] []"

definition sample_a1 :: node where "sample_a1 = Element 2 None ''state'' [] [(''id'', ''a1'')] [sample_tr]"
definition sample_a2 :: node where "sample_a2 = Element 4 None ''final'' [] [(''id'', ''a2'')] []"
definition sample_a :: node where "sample_a = Element 1 None ''state'' [] [(''id'', ''a'')] [sample_a1, sample_a2]"

definition sample_doc :: node where
  "sample_doc = Element 0 None ''scxml'' [] [] [sample_a, Element 5 None ''state'' [] [(''id'', ''b'')] []]"



text \<open>The conflict relation of transitions is symmetric.\<close>

theorem conflicts_symmetric: "conflicts doc t1 t2 root = conflicts doc t2 t1 root"
  by (rule conflicts_sym)

text \<open>
  Every state in the exit set of a transition is a proper descendant of the transition's domain.
\<close>

theorem exit_set_below_domain:
  assumes d: "distinct (nids doc)" and dom: "getTransitionDomain doc tr root = Some domain"
    and mem: "domain \<in> set (nodes doc)" and s: "s \<in> set (getExitSet doc tr root)"
  shows "isDescendant doc (Some s) (Some domain)"
proof -
  let ?p = "XML_PREFIX tr"
  obtain R where R: "inDocumentOrder [?p @ ''parallel'', ?p @ ''state'', ?p @ ''final''] domain =
      (if isElement domain \<and> TAGNAME domain \<in> set [?p @ ''parallel'', ?p @ ''state'', ?p @ ''final''] then [domain] else []) @ R"
    and sub: "\<And>x. x \<in> set R \<Longrightarrow> x \<in> set (nodes domain) \<and> nid x \<noteq> nid domain"
    by (rule inDocumentOrder_root [OF distinct_sub [OF d mem], of "[?p @ ''parallel'', ?p @ ''state'', ?p @ ''final'']"]) (rule that)
  have "(case (if b then [domain] else []) @ R of [] \<Rightarrow> [] | s # rest \<Rightarrow> if same s domain then rest
      else (if b then [domain] else []) @ R) = R" for b
    using sub by (cases b; cases R) (auto simp: same_def)
  then have "getExitSet doc tr root = R"
    using s dom unfolding getExitSet_def Let_def by (simp only: R option.case if_split split: if_splits) simp_all
  then have "s \<in> set R" using s by simp
  then have n: "s \<in> set (nodes domain)" "nid s \<noteq> nid domain" using sub by auto
  have "s \<in> set (nodes doc)" by (rule nodes_trans [OF mem n(1)])
  from isDescendant_iff [OF d this mem] n show ?thesis by auto
qed

theorem exit_set_below_domain_witness: "isDescendant sample_doc (Some sample_a1) (Some sample_doc)"
proof (rule exit_set_below_domain)
  show "distinct (nids sample_doc)" by code_simp
  show "getTransitionDomain sample_doc sample_tr sample_doc = Some sample_doc" by code_simp
  show "sample_a1 \<in> set (getExitSet sample_doc sample_tr sample_doc)" by code_simp
qed simp

end
