(* ===== verification/ContentExecutor.thy ===== *)
theory ContentExecutor
  imports Events Predicates
begin

text \<open>
  Executable content, \<open>src/src/uscxml/interpreter/BasicContentExecutor.cpp\<close>. The calls into the
  interpreter and its data model are the record \<open>exec_callbacks\<close> over an environment \<open>'e\<close>; a method that
  can throw is a function to an exception or a value, together with the environment. The C++ code
  throws two types, \<open>ErrorEvent\<close> and its base \<open>Event\<close>: a handler for the first does not catch the
  second, which is what keeps nested blocks from reporting an error twice. \<open>StdExc\<close> stands for the
  standard exceptions a plugin may throw, \<open>Abort\<close> for a call that does not return (a failed assertion). The lemmas show which branch of an \<open>if\<close> runs, that an error ends the block it occurs in
  and is enqueued exactly once however deeply the content is nested, and what \<open>send\<close> and the done
  events deliver.
\<close>

subsection \<open>Exceptions\<close>

datatype exc = ErrorExc Event | EventExc Event | StdExc string | Abort

type_synonym ('e, 'a) eff = "'e \<Rightarrow> (exc + 'a) \<times> 'e"

definition returnM :: "'a \<Rightarrow> ('e, 'a) eff" where
  "returnM x e = (Inr x, e)"

definition throwM :: "exc \<Rightarrow> ('e, 'a) eff" where
  "throwM x e = (Inl x, e)"

definition bindM :: "('e, 'a) eff \<Rightarrow> ('a \<Rightarrow> ('e, 'b) eff) \<Rightarrow> ('e, 'b) eff" where
  "bindM m f e = (case m e of (Inl x, e') \<Rightarrow> (Inl x, e') | (Inr a, e') \<Rightarrow> f a e')"

definition modifyM :: "('e \<Rightarrow> 'e) \<Rightarrow> ('e, unit) eff" where
  "modifyM f e = (Inr (), f e)"

definition readM :: "('e \<Rightarrow> 'a) \<Rightarrow> ('e, 'a) eff" where
  "readM f e = (Inr (f e), e)"

text \<open>\<open>catch (ErrorEvent e)\<close>.\<close>

definition catchError :: "('e, 'a) eff \<Rightarrow> (Event \<Rightarrow> ('e, 'a) eff) \<Rightarrow> ('e, 'a) eff" where
  "catchError m h e = (case m e of (Inl (ErrorExc x), e') \<Rightarrow> h x e' | r \<Rightarrow> r)"

definition rethrow :: "string \<Rightarrow> string \<Rightarrow> ('e, 'a) eff \<Rightarrow> ('e, 'a) eff" where
  "rethrow caption xpath m = catchError m (\<lambda>x. throwM (ErrorExc (RETHROW caption xpath x)))"

text \<open>
  A local variable that a callee fills through a reference is a second component of the environment:
  what was stored before an exception stays stored. \<open>outerM\<close> leaves the local alone, \<open>localM\<close> opens and
  returns it, \<open>fieldM\<close> passes a field of it on.
\<close>

definition outerM :: "('e, 'a) eff \<Rightarrow> ('e \<times> 's, 'a) eff" where
  "outerM m = (\<lambda>(e, s). case m e of (r, e') \<Rightarrow> (r, (e', s)))"

definition localM :: "'s \<Rightarrow> ('e \<times> 's, unit) eff \<Rightarrow> ('e, 's) eff" where
  "localM s m e = (case m (e, s) of (Inl x, (e', s')) \<Rightarrow> (Inl x, e') | (Inr _, (e', s')) \<Rightarrow> (Inr s', e'))"

definition fieldM :: "('r \<Rightarrow> 's) \<Rightarrow> ('s \<Rightarrow> 'r \<Rightarrow> 'r) \<Rightarrow> ('e \<times> 's, 'a) eff \<Rightarrow> ('e \<times> 'r, 'a) eff" where
  "fieldM get upd m = (\<lambda>(e, r). case m (e, get r) of (x, (e', s')) \<Rightarrow> (x, (e', upd s' r)))"

fun repeatM :: "(nat \<Rightarrow> ('e, unit) eff) \<Rightarrow> nat \<Rightarrow> nat \<Rightarrow> ('e, unit) eff" where
  "repeatM body i 0 = returnM ()"
| "repeatM body i (Suc n) = bindM (body i) (\<lambda>_. repeatM body (Suc i) n)"

subsection \<open>Callbacks\<close>

datatype exec_note = BeforeExec node | AfterExec node | BeforeInvoking node string | AfterInvoking node string
  | BeforeUninvoking node string | AfterUninvoking node string

record 'e exec_callbacks =
  x_evalAsData :: "string \<Rightarrow> ('e, data) eff"
  x_getAsData :: "string \<Rightarrow> ('e, data) eff"
  x_isTrue :: "string \<Rightarrow> ('e, bool) eff"
  x_assign :: "string \<Rightarrow> data \<Rightarrow> (string \<times> string) list \<Rightarrow> ('e, unit) eff"
  x_enqueueInternal :: "Event \<Rightarrow> 'e \<Rightarrow> 'e"
  x_getInvokeId :: "'e \<Rightarrow> string"
  x_getUUID :: "('e, string) eff"
  x_checkValidSendType :: "string \<Rightarrow> string \<Rightarrow> ('e, unit) eff"
  x_enqueue :: "string \<Rightarrow> string \<Rightarrow> nat \<Rightarrow> Event \<Rightarrow> ('e, unit) eff"
  x_cancelDelayed :: "string \<Rightarrow> ('e, unit) eff"
  x_getLength :: "string \<Rightarrow> ('e, nat) eff"
  x_setForeach :: "string \<Rightarrow> string \<Rightarrow> string \<Rightarrow> nat \<Rightarrow> ('e, unit) eff"
  x_eval :: "string \<Rightarrow> ('e, unit) eff"
  x_log :: "string \<Rightarrow> data \<Rightarrow> 'e \<Rightarrow> 'e"
  x_getCurrentEvent :: "'e \<Rightarrow> Event"
  x_isValidExprSyntax :: "string \<Rightarrow> 'e \<Rightarrow> bool"
  x_invoke :: "string \<Rightarrow> string \<Rightarrow> bool \<Rightarrow> node option \<Rightarrow> Event \<Rightarrow> ('e, unit) eff"
  x_uninvoke :: "string \<Rightarrow> ('e, unit) eff"
  x_setInvokeId :: "node \<Rightarrow> string option \<Rightarrow> 'e \<Rightarrow> 'e"
  x_invokeIdOf :: "node \<Rightarrow> 'e \<Rightarrow> string option"
  x_hasExecutableContent :: "string \<Rightarrow> string \<Rightarrow> bool"
  x_enterElement :: "node \<Rightarrow> ('e, unit) eff"
  x_processChildren :: "node \<Rightarrow> bool"
  x_exitElement :: "node \<Rightarrow> ('e, unit) eff"
  x_fetch :: "node \<Rightarrow> string \<Rightarrow> ('e, node option \<times> string) eff"
  x_secondsToMs :: "string \<Rightarrow> nat"
  x_junk :: dtype
  x_monitor :: "exec_note \<Rightarrow> 'e \<Rightarrow> 'e"

subsection \<open>Data from elements\<close>

definition normalized :: "data \<Rightarrow> data" where
  "normalized d = (if type_of d = VERBATIM then set_atom (spaceNormalize (atom d)) d else d)"

text \<open>A nested \<open>try\<close> that falls through to the verbatim string on every exception.\<close>

definition data_or_verbatim :: "'e exec_callbacks \<Rightarrow> string \<Rightarrow> ('e, data) eff" where
  "data_or_verbatim cc content e =
    (case x_getAsData cc content e of
       (Inr d, e') \<Rightarrow> (Inr (if \<not> Data_is_empty d then normalized d
                           else Data_atom (spaceNormalize content) VERBATIM), e')
     | (Inl Abort, e') \<Rightarrow> (Inl Abort, e')
     | (Inl _, e') \<Rightarrow> (Inr (Data_atom (spaceNormalize content) VERBATIM), e'))"

definition elementAsData :: "'e exec_callbacks \<Rightarrow> node \<Rightarrow> ('e, data) eff" where
  "elementAsData cc element =
    (if HAS_ATTR element ''expr'' then returnM (Data_atom (ATTR element ''expr'') INTERPRETED)
     else if HAS_ATTR element ''src'' then
       bindM (x_fetch cc element (ATTR element ''src'')) (\<lambda>(parsed, content).
         case parsed of
           Some newNode \<Rightarrow> returnM (set_node (Some newNode) Data_empty)
         | None \<Rightarrow> data_or_verbatim cc content)
     else if elementChildren element \<noteq> [] then returnM (Data_node (x_junk cc) element)
     else
       (let texts = filterChildType isText element; content = concat (map nodeValue texts) in
        if texts \<noteq> [] then
          (if LOCALNAME element = ''content'' then data_or_verbatim cc content
           else bindM (x_getAsData cc content) (\<lambda>d.
             returnM (if \<not> Data_is_empty d then normalized d
                      else Data_atom (spaceNormalize content) VERBATIM)))
        else returnM Data_empty))"

definition elementAsEvaluatedData :: "'e exec_callbacks \<Rightarrow> node \<Rightarrow> ('e, data) eff" where
  "elementAsEvaluatedData cc element =
     bindM (elementAsData cc element) (\<lambda>d.
       if type_of d = INTERPRETED \<and> length (atom d) > 0 \<and> \<not> isNumeric (atom d) 10
       then x_evalAsData cc (atom d) else returnM d)"

text \<open>
  \<open>processNameLists\<close> and \<open>processParams\<close> fill the map of their caller. \<open>nameMap[name] = eval(name)\<close>
  is read with the value computed before the entry is created.
\<close>

fun processNames :: "'e exec_callbacks \<Rightarrow> string list \<Rightarrow> ('e \<times> (string \<times> data) list, unit) eff" where
  "processNames cc [] = returnM ()"
| "processNames cc (n # ns) =
     bindM (outerM (x_evalAsData cc n)) (\<lambda>d.
     bindM (modifyM (apsnd (put_key n d))) (\<lambda>_. processNames cc ns))"

definition processNameLists :: "'e exec_callbacks \<Rightarrow> node \<Rightarrow> ('e \<times> (string \<times> data) list, unit) eff" where
  "processNameLists cc element =
    (if HAS_ATTR element ''namelist'' then processNames cc (tokens (ATTR element ''namelist''))
     else returnM ())"

definition paramValue :: "'e exec_callbacks \<Rightarrow> node \<Rightarrow> ('e, data) eff" where
  "paramValue cc p =
    (if HAS_ATTR p ''expr'' then x_evalAsData cc (ATTR p ''expr'')
     else if HAS_ATTR p ''location'' then x_evalAsData cc (ATTR p ''location'')
     else elementAsEvaluatedData cc p)"

fun processParamList :: "'e exec_callbacks \<Rightarrow> node list \<Rightarrow> ('e \<times> (string \<times> data) list, unit) eff" where
  "processParamList cc [] = returnM ()"
| "processParamList cc (p # ps) =
     bindM (outerM (paramValue cc p)) (\<lambda>d.
     bindM (modifyM (apsnd (multimap_insert (ATTR p ''name'') d))) (\<lambda>_. processParamList cc ps))"

definition processParams :: "'e exec_callbacks \<Rightarrow> node \<Rightarrow> ('e \<times> (string \<times> data) list, unit) eff" where
  "processParams cc element =
     processParamList cc (filterChildElements (XML_PREFIX element @ ''param'') element False)"

definition contentData :: "'e exec_callbacks \<Rightarrow> node \<Rightarrow> ('e, data) eff" where
  "contentData cc element =
    (case filterChildElements (XML_PREFIX element @ ''content'') element False of
       [] \<Rightarrow> returnM Data_empty | c # _ \<Rightarrow> elementAsEvaluatedData cc c)"

subsection \<open>send\<close>

definition SCXML_IOPROC :: string where
  "SCXML_IOPROC = ''http://www.w3.org/TR/scxml/#SCXMLEventProcessor''"

text \<open>An attribute or the value of its expression variant.\<close>

definition attrOrExpr :: "'e exec_callbacks \<Rightarrow> node \<Rightarrow> string \<Rightarrow> string \<Rightarrow> string \<Rightarrow> ('e, string) eff" where
  "attrOrExpr cc element expr attr dflt =
    (if HAS_ATTR element expr then bindM (x_evalAsData cc (ATTR element expr)) (\<lambda>d. returnM (atom d))
     else returnM (if HAS_ATTR element attr then ATTR element attr else dflt))"

text \<open>\<open>strTo<uint32_t>\<close>: too large a numeral gives the maximum. Seconds are a floating point value, whose
  conversion is the parameter \<open>x_secondsToMs\<close>.\<close>

definition strTo_u32 :: "string \<Rightarrow> nat" where
  "strTo_u32 s = min (2 ^ 32 - 1) (strTo_nat s 0)"

definition delayOf :: "'e exec_callbacks \<Rightarrow> string \<Rightarrow> nat" where
  "delayOf cc delay =
    (if delay = [] then 0
     else (let a = mkNumAttr delay in
           if iequals (unit_of a) ''ms'' then strTo_u32 (value_of a)
           else if iequals (unit_of a) ''s'' then x_secondsToMs cc (value_of a)
           else if length (unit_of a) = 0 then strTo_u32 (value_of a)
           else 0))"

text \<open>The identifier of a send and whether it is hidden.\<close>

text \<open>An identifier built from the id of the parent state; an element without one dereferences a null pointer.\<close>

definition freshId :: "'e exec_callbacks \<Rightarrow> node \<Rightarrow> node \<Rightarrow> ('e, string) eff" where
  "freshId cc doc element =
    (case getParentState doc element of
       None \<Rightarrow> throwM Abort
     | Some p \<Rightarrow> bindM (x_getUUID cc) (\<lambda>u. returnM (ATTR p ''id'' @ ''.'' @ u)))"

definition sendId :: "'e exec_callbacks \<Rightarrow> node \<Rightarrow> node \<Rightarrow> ('e, string \<times> bool) eff" where
  "sendId cc doc element =
    (if HAS_ATTR element ''id'' then returnM (ATTR element ''id'', False)
     else bindM (freshId cc doc element) (\<lambda>sid.
       if HAS_ATTR element ''idlocation''
       then bindM (x_assign cc (ATTR element ''idlocation'') (Data_atom sid VERBATIM) []) (\<lambda>_. returnM (sid, False))
       else returnM (sid, True)))"

definition processSend :: "'e exec_callbacks \<Rightarrow> node \<Rightarrow> node \<Rightarrow> ('e, unit) eff" where
  "processSend cc doc element =
    (let xp = xPathForNode doc element [] in
     bindM (x_getUUID cc) (\<lambda>uid.
     bindM (readM (x_getInvokeId cc)) (\<lambda>invId.
     bindM (rethrow ''Syntax error in send element eventexpr'' xp
       (attrOrExpr cc element ''eventexpr'' ''event'' [])) (\<lambda>name.
     bindM (rethrow ''Syntax error in send element targetexpr'' xp
       (attrOrExpr cc element ''targetexpr'' ''target'' [])) (\<lambda>target.
     bindM (rethrow ''Syntax error in send element typeexpr'' xp
       (attrOrExpr cc element ''typeexpr'' ''type'' SCXML_IOPROC)) (\<lambda>type.
     bindM (rethrow ''Syntax error in send element idlocation'' xp (sendId cc doc element)) (\<lambda>(sid, hide).
     bindM (rethrow ''Syntax error in send element delayexpr'' xp
       (attrOrExpr cc element ''delayexpr'' ''delay'' [])) (\<lambda>delay.
     bindM (rethrow ''Syntax error in send element namelist'' xp (localM [] (processNameLists cc element))) (\<lambda>nl.
     bindM (rethrow ''Syntax error in send element param expr'' xp (localM [] (processParams cc element))) (\<lambda>ps.
     bindM (rethrow ''Syntax error in send element content'' xp (contentData cc element)) (\<lambda>d.
     bindM (catchError (x_checkValidSendType cc type target)
       (\<lambda>x. throwM (ErrorExc ((with_xpath xp x)\<lparr>sendid := sid\<rparr>)))) (\<lambda>_.
     x_enqueue cc type target (delayOf cc delay)
       ((Event_new uid)\<lparr>ename := name, eventType := EXTERNAL, invokeid := invId, sendid := sid,
           hideSendId := hide, namelist := nl, params := ps, edata := d\<rparr>)))))))))))))"

subsection \<open>Other elements\<close>

definition processRaise :: "'e exec_callbacks \<Rightarrow> node \<Rightarrow> ('e, unit) eff" where
  "processRaise cc content = modifyM (x_enqueueInternal cc (Event_named (ATTR content ''event'') INTERNAL))"

definition processCancel :: "'e exec_callbacks \<Rightarrow> node \<Rightarrow> node \<Rightarrow> ('e, unit) eff" where
  "processCancel cc doc content =
    (if HAS_ATTR content ''sendid'' then x_cancelDelayed cc (ATTR content ''sendid'')
     else if HAS_ATTR content ''sendidexpr'' then
       bindM (x_evalAsData cc (ATTR content ''sendidexpr'')) (\<lambda>d. x_cancelDelayed cc (atom d))
     else bindM (x_getUUID cc) (\<lambda>uid. throwM (ErrorExc (with_xpath (xPathForNode doc content [])
       (ERROR_EXECUTION uid (''BasicContentExecutor.cpp'', 220)
          ''Cancel element has neither sendid nor sendidexpr attribute'')))))"

definition processAssign :: "'e exec_callbacks \<Rightarrow> node \<Rightarrow> ('e, unit) eff" where
  "processAssign cc content =
     bindM (elementAsData cc content) (\<lambda>d. x_assign cc (ATTR content ''location'') d (attributes content))"

definition processForeach :: "'e exec_callbacks \<Rightarrow> node \<Rightarrow> ('e, unit) eff \<Rightarrow> ('e, unit) eff" where
  "processForeach cc content body =
     bindM (x_getLength cc (ATTR content ''array'')) (\<lambda>n.
       repeatM (\<lambda>i. bindM (x_setForeach cc (ATTR content ''item'') (ATTR content ''array'')
           (if HAS_ATTR content ''index'' then ATTR content ''index'' else []) i) (\<lambda>_. body)) 0 (n mod 2 ^ 32))"

definition processLog :: "'e exec_callbacks \<Rightarrow> node \<Rightarrow> ('e, unit) eff" where
  "processLog cc content =
     bindM (x_evalAsData cc (ATTR content ''expr'')) (\<lambda>d.
       modifyM (x_log cc (if ATTR content ''label'' \<noteq> [] then ATTR content ''label'' @ '': '' else []) d))"

definition processScript :: "'e exec_callbacks \<Rightarrow> node \<Rightarrow> ('e, unit) eff" where
  "processScript cc content =
     x_eval cc (case childNodes content of Text _ v # _ \<Rightarrow> v | _ \<Rightarrow> [])"

text \<open>An empty \<open>finalize\<close> of an \<open>invoke\<close> copies the listed names from the current event.\<close>

fun assignNames :: "'e exec_callbacks \<Rightarrow> string list \<Rightarrow> ('e, unit) eff" where
  "assignNames cc [] = returnM ()"
| "assignNames cc (n # ns) =
     bindM (\<lambda>e. let ev = x_getCurrentEvent cc e in
        case map_of (namelist ev) n of
          Some d \<Rightarrow> x_assign cc n d [] e
        | None \<Rightarrow> (case map_of (compound (edata ev)) n of
              Some d \<Rightarrow> x_assign cc n d [] e | None \<Rightarrow> (Inr (), e)))
       (\<lambda>_. assignNames cc ns)"

definition emptyFinalize :: "'e exec_callbacks \<Rightarrow> node \<Rightarrow> node \<Rightarrow> ('e, unit) eff" where
  "emptyFinalize cc doc block =
    (case getParentNode doc block of
       None \<Rightarrow> returnM ()
     | Some invokeElem \<Rightarrow>
         if isElement invokeElem \<and> iequals (TAGNAME invokeElem) (XML_PREFIX block @ ''invoke'')
         then assignNames cc (tokens (ATTR invokeElem ''namelist'')) else returnM ())"

definition customContent :: "'e exec_callbacks \<Rightarrow> node \<Rightarrow> ('e, unit) eff \<Rightarrow> ('e, unit) eff" where
  "customContent cc block children =
     bindM (x_enterElement cc block) (\<lambda>_.
     bindM (if x_processChildren cc block then children else returnM ()) (\<lambda>_. x_exitElement cc block))"

subsection \<open>process\<close>

text \<open>The \<open>try\<close> around the elements that are executed: an \<open>ErrorEvent\<close> is enqueued and rethrown as an \<open>Event\<close>.\<close>

definition guarded :: "'e exec_callbacks \<Rightarrow> node \<Rightarrow> ('e, unit) eff \<Rightarrow> ('e, unit) eff" where
  "guarded cc block body e =
    (case body (x_monitor cc (BeforeExec block) e) of
       (Inl (ErrorExc x), e') \<Rightarrow>
         (Inl (EventExc x), x_monitor cc (AfterExec block) (x_enqueueInternal cc x e'))
     | (Inl y, e') \<Rightarrow> (Inl y, e')
     | (Inr _, e') \<Rightarrow> (Inr (), x_monitor cc (AfterExec block) e'))"

fun process :: "'e exec_callbacks \<Rightarrow> node \<Rightarrow> node \<Rightarrow> ('e, unit) eff"
  and process_seq :: "'e exec_callbacks \<Rightarrow> node \<Rightarrow> node list \<Rightarrow> ('e, unit) eff"
  and process_if :: "'e exec_callbacks \<Rightarrow> node \<Rightarrow> string \<Rightarrow> node list \<Rightarrow> bool \<Rightarrow> ('e, unit) eff" where
  "process cc doc (Element i p l ns as cs) =
    (let block = Element i p l ns as cs; tagName = TAGNAME block; px = XML_PREFIX block in
     if iequals tagName (px @ ''onentry'') \<or> iequals tagName (px @ ''onexit'') \<or>
        iequals tagName (px @ ''transition'') then process_seq cc doc cs
     else if iequals tagName (px @ ''finalize'') then
       (if elementChildren block \<noteq> [] then process_seq cc doc cs else emptyFinalize cc doc block)
     else guarded cc block
       (if iequals tagName (px @ ''raise'') then processRaise cc block
        else if iequals tagName (px @ ''send'') then processSend cc doc block
        else if iequals tagName (px @ ''cancel'') then processCancel cc doc block
        else if iequals tagName (px @ ''if'') then
          bindM (x_isTrue cc (ATTR block ''cond'')) (process_if cc doc px cs)
        else if iequals tagName (px @ ''assign'') then processAssign cc block
        else if iequals tagName (px @ ''foreach'') then processForeach cc block (process_seq cc doc cs)
        else if iequals tagName (px @ ''log'') then processLog cc block
        else if iequals tagName (px @ ''script'') then processScript cc block
        else if x_hasExecutableContent cc l ns then customContent cc block (process_seq cc doc cs)
        else throwM Abort))"
| "process cc doc (Text i v) = returnM ()"
| "process cc doc (Other i) = returnM ()"
| "process_seq cc doc [] = returnM ()"
| "process_seq cc doc (c # cs) =
     (if isElement c then bindM (process cc doc c) (\<lambda>_. process_seq cc doc cs) else process_seq cc doc cs)"
| "process_if cc doc px [] blockIsTrue = returnM ()"
| "process_if cc doc px (c # cs) blockIsTrue =
     (if \<not> isElement c then process_if cc doc px cs blockIsTrue
      else if iequals (TAGNAME c) (px @ ''elseif'') then
        (if blockIsTrue then returnM () else bindM (x_isTrue cc (ATTR c ''cond'')) (process_if cc doc px cs))
      else if iequals (TAGNAME c) (px @ ''else'') then
        (if blockIsTrue then returnM () else process_if cc doc px cs True)
      else if blockIsTrue then bindM (process cc doc c) (\<lambda>_. process_if cc doc px cs blockIsTrue)
      else process_if cc doc px cs blockIsTrue)"

subsection \<open>invoke, uninvoke and done events\<close>

definition invokeId_of :: "'e exec_callbacks \<Rightarrow> node \<Rightarrow> node \<Rightarrow> ('e, string) eff" where
  "invokeId_of cc doc element =
     bindM (if HAS_ATTR element ''id'' then returnM (ATTR element ''id'')
            else bindM (freshId cc doc element) (\<lambda>i.
              if HAS_ATTR element ''idlocation''
              then bindM (x_assign cc (ATTR element ''idlocation'') (Data_atom i VERBATIM) []) (\<lambda>_. returnM i)
              else returnM i))
       (\<lambda>i. bindM (modifyM (x_setInvokeId cc element (Some i))) (\<lambda>_. returnM i))"

definition exec_invoke :: "'e exec_callbacks \<Rightarrow> node \<Rightarrow> node \<Rightarrow> ('e, unit) eff" where
  "exec_invoke cc doc element =
    (let xp = xPathForNode doc element [] in
     bindM (x_getUUID cc) (\<lambda>uid.
     bindM (attrOrExpr cc element ''typeexpr'' ''type'' ''http://www.w3.org/TR/scxml/'') (\<lambda>type.
     bindM (attrOrExpr cc element ''srcexpr'' ''src'' []) (\<lambda>source.
     bindM (rethrow ''Syntax error in invoke element idlocation'' xp (invokeId_of cc doc element)) (\<lambda>i.
     bindM (rethrow ''Syntax error in send element namelist'' xp (localM [] (processNameLists cc element))) (\<lambda>nl.
     bindM (rethrow ''Syntax error in send element param expr'' xp (localM [] (processParams cc element))) (\<lambda>ps.
     bindM (rethrow ''Syntax error in invoke element content'' xp (contentData cc element)) (\<lambda>d.
     bindM (modifyM (x_monitor cc (BeforeInvoking element i))) (\<lambda>_.
     bindM (x_invoke cc type source
         (HAS_ATTR element ''autoforward'' \<and> iequals (ATTR element ''autoforward'') ''true'')
         (case filterChildElements (XML_PREFIX element @ ''finalize'') element False of [] \<Rightarrow> None | f # _ \<Rightarrow> Some f)
         ((Event_new uid)\<lparr>invokeid := i, namelist := nl, params := ps, edata := d\<rparr>)) (\<lambda>_.
     modifyM (x_monitor cc (AfterInvoking element i))))))))))))"

definition exec_uninvoke :: "'e exec_callbacks \<Rightarrow> node \<Rightarrow> ('e, unit) eff" where
  "exec_uninvoke cc element e =
    (case x_invokeIdOf cc element e of
       None \<Rightarrow> (Inl Abort, e)
     | Some i \<Rightarrow>
         bindM (modifyM (x_monitor cc (BeforeUninvoking element i))) (\<lambda>_.
         bindM (x_uninvoke cc i) (\<lambda>_.
         bindM (modifyM (x_monitor cc (AfterUninvoking element i))) (\<lambda>_.
         modifyM (x_setInvokeId cc element None)))) e)"

text \<open>The content of \<open>donedata\<close>; the local is the done event.\<close>

definition doneContent :: "'e exec_callbacks \<Rightarrow> node \<Rightarrow> node \<Rightarrow> ('e \<times> Event, unit) eff" where
  "doneContent cc doc doneData =
    (case filterChildElements (XML_PREFIX doneData @ ''content'') doneData False of
       [] \<Rightarrow> returnM ()
     | c # _ \<Rightarrow>
         bindM (outerM (readM (x_isValidExprSyntax cc (ATTR c ''expr'')))) (\<lambda>valid.
         if HAS_ATTR c ''expr'' \<and> \<not> valid
         then bindM (outerM (x_getUUID cc)) (\<lambda>uid. throwM (ErrorExc (with_xpath (xPathForNode doc c [])
           (ERROR_EXECUTION uid (''BasicContentExecutor.cpp'', 553)
             (''Expression '' @ [CHR 0x27] @ ATTR c ''expr'' @ [CHR 0x27] @ '' is not a legal data value'')))))
         else bindM (outerM (elementAsEvaluatedData cc c)) (\<lambda>d. modifyM (apsnd (edata_update (\<lambda>_. d))))))"

definition doneDataM :: "'e exec_callbacks \<Rightarrow> node \<Rightarrow> node \<Rightarrow> ('e \<times> Event, unit) eff" where
  "doneDataM cc doc doneData =
    (let xp = xPathForNode doc doneData [] in
     bindM (rethrow ''Syntax error in donedata element namelist'' xp
       (fieldM namelist (\<lambda>nl. namelist_update (\<lambda>_. nl)) (processNameLists cc doneData))) (\<lambda>_.
     bindM (rethrow ''Syntax error in donedata element param expr'' xp
       (fieldM params (\<lambda>ps. params_update (\<lambda>_. ps)) (processParams cc doneData))) (\<lambda>_.
     rethrow ''Syntax error in donedata element content'' xp (doneContent cc doc doneData))))"

definition done_name :: "node \<Rightarrow> node \<Rightarrow> string" where
  "done_name doc state = ''done.state.'' @
     (if HAS_ATTR state ''id'' then ATTR state ''id'' else idForNode doc state)"

definition raiseDoneEvent :: "'e exec_callbacks \<Rightarrow> node \<Rightarrow> node \<Rightarrow> node option \<Rightarrow> ('e, unit) eff" where
  "raiseDoneEvent cc doc state doneData =
     bindM (x_getUUID cc) (\<lambda>uid e.
       let doneEvent = (Event_new uid)\<lparr>ename := done_name doc state\<rparr> in
       case doneData of
         None \<Rightarrow> (Inr (), x_enqueueInternal cc doneEvent e)
       | Some dd \<Rightarrow>
           (case doneDataM cc doc dd (e, doneEvent) of
              (Inr _, (e', ev)) \<Rightarrow> (Inr (), x_enqueueInternal cc ev e')
            | (Inl (ErrorExc x), (e', ev)) \<Rightarrow>
                (Inr (), x_enqueueInternal cc (ev\<lparr>edata := Data_empty\<rparr>) (x_enqueueInternal cc x e'))
            | (Inl (EventExc x), (e', ev)) \<Rightarrow>
                (Inl (EventExc (RETHROW ''Error in donedata element'' (xPathForNode doc dd []) x)), e')
            | (Inl y, (e', ev)) \<Rightarrow> (Inl y, e')))"

subsection \<open>Which exceptions can leave an operation\<close>

definition throws :: "(exc \<Rightarrow> bool) \<Rightarrow> ('e, 'a) eff \<Rightarrow> bool" where
  "throws P m \<longleftrightarrow> (\<forall>e x e'. m e = (Inl x, e') \<longrightarrow> P x)"

text \<open>The calls into the interpreter throw exceptions of kind \<open>P\<close> only.\<close>

definition callbacks_throw :: "(exc \<Rightarrow> bool) \<Rightarrow> 'e exec_callbacks \<Rightarrow> bool" where
  "callbacks_throw P cc \<longleftrightarrow> (\<forall>v. P (ErrorExc v)) \<and> throws P (x_getUUID cc) \<and>
     (\<forall>s. throws P (x_evalAsData cc s) \<and> throws P (x_getAsData cc s) \<and> throws P (x_isTrue cc s) \<and>
        throws P (x_cancelDelayed cc s) \<and> throws P (x_getLength cc s) \<and> throws P (x_eval cc s)) \<and>
     (\<forall>l d a. throws P (x_assign cc l d a)) \<and> (\<forall>a b. throws P (x_checkValidSendType cc a b)) \<and>
     (\<forall>a b n ev. throws P (x_enqueue cc a b n ev)) \<and> (\<forall>a b c n. throws P (x_setForeach cc a b c n)) \<and>
     (\<forall>n. throws P (x_enterElement cc n) \<and> throws P (x_exitElement cc n)) \<and> (\<forall>n s. throws P (x_fetch cc n s))"

named_theorems throws_intros

lemma throws_callbacks [throws_intros]:
  assumes "callbacks_throw P cc"
  shows "throws P (x_getUUID cc)" and "throws P (x_evalAsData cc s)" and "throws P (x_getAsData cc s)"
    and "throws P (x_isTrue cc s)" and "throws P (x_cancelDelayed cc s)" and "throws P (x_getLength cc s)"
    and "throws P (x_eval cc s)" and "throws P (x_assign cc l d a)" and "throws P (x_checkValidSendType cc s s')"
    and "throws P (x_enqueue cc s s' n ev)" and "throws P (x_setForeach cc s s' s'' n)"
    and "throws P (x_enterElement cc nd)" and "throws P (x_exitElement cc nd)" and "throws P (x_fetch cc nd s)"
  using assms by (simp_all add: callbacks_throw_def)

lemma throws_ErrorExc [throws_intros]: "callbacks_throw P cc \<Longrightarrow> throws P (throwM (ErrorExc v))"
  by (simp add: callbacks_throw_def throws_def throwM_def)

lemma throws_basic [throws_intros]:
  "throws P (returnM a)" "throws P (modifyM f)" "throws P (readM g)"
  by (simp_all add: throws_def returnM_def modifyM_def throwM_def readM_def)

lemma throws_bindM [throws_intros]:
  "throws P m \<Longrightarrow> (\<And>a. throws P (f a)) \<Longrightarrow> throws P (bindM m f)"
  by (fastforce simp: throws_def bindM_def split: prod.splits sum.splits)

lemma throws_outerM [throws_intros]: "throws P m \<Longrightarrow> throws P (outerM m)"
  by (fastforce simp: throws_def outerM_def split: prod.splits)

lemma throws_localM [throws_intros]: "throws P m \<Longrightarrow> throws P (localM s m)"
  unfolding throws_def localM_def by (auto split: prod.splits sum.splits unit.splits) blast

lemma throws_fieldM [throws_intros]: "throws P m \<Longrightarrow> throws P (fieldM get upd m)"
  by (fastforce simp: throws_def fieldM_def split: prod.splits)

lemma throws_catchError:
  "throws P m \<Longrightarrow> (\<And>x. throws P (h x)) \<Longrightarrow> throws P (catchError m h)"
  by (fastforce simp: throws_def catchError_def split: prod.splits sum.splits exc.splits)

lemma throws_rethrow: "callbacks_throw P cc \<Longrightarrow> throws P m \<Longrightarrow> throws P (rethrow c xp m)"
  unfolding rethrow_def by (intro throws_catchError throws_ErrorExc)

lemma throws_if [throws_intros]:
  "(b \<Longrightarrow> throws P m) \<Longrightarrow> (\<not> b \<Longrightarrow> throws P m') \<Longrightarrow> throws P (if b then m else m')"
  by simp

lemma throws_repeatM [throws_intros]: "(\<And>i. throws P (body i)) \<Longrightarrow> throws P (repeatM body i n)"
  by (induction body i n rule: repeatM.induct) (auto intro!: throws_intros)

lemma throws_data_or_verbatim [throws_intros]: "callbacks_throw P cc \<Longrightarrow> throws P (data_or_verbatim cc c)"
  using throws_callbacks(3) [of P cc c]
  by (auto simp: throws_def data_or_verbatim_def split: prod.splits sum.splits exc.splits)

lemma throws_elementAsData [throws_intros]:
  assumes "callbacks_throw P cc" shows "throws P (elementAsData cc n)"
  using assms unfolding elementAsData_def Let_def
  by (auto intro!: throws_intros split: prod.split option.split)

lemma throws_elementAsEvaluatedData [throws_intros]:
  "callbacks_throw P cc \<Longrightarrow> throws P (elementAsEvaluatedData cc n)"
  unfolding elementAsEvaluatedData_def by (intro throws_intros)

lemma throws_processNameLists [throws_intros]:
  assumes "callbacks_throw P cc" shows "throws P (processNameLists cc n)"
proof -
  have "throws P (processNames cc ns)" for ns
    using assms by (induction ns) (auto intro!: throws_intros)
  then show ?thesis unfolding processNameLists_def by (intro throws_intros)
qed

lemma throws_processParams [throws_intros]:
  assumes "callbacks_throw P cc" shows "throws P (processParams cc n)"
proof -
  have "throws P (paramValue cc p)" for p
    using assms unfolding paramValue_def by (intro throws_intros)
  then have "throws P (processParamList cc ps)" for ps
    using assms by (induction ps) (auto intro!: throws_intros)
  then show ?thesis unfolding processParams_def .
qed

lemma throws_contentData [throws_intros]: "callbacks_throw P cc \<Longrightarrow> throws P (contentData cc n)"
  unfolding contentData_def by (auto intro!: throws_intros split: list.split)

lemma throws_attrOrExpr [throws_intros]: "callbacks_throw P cc \<Longrightarrow> throws P (attrOrExpr cc n a b d)"
  unfolding attrOrExpr_def by (intro throws_intros)

lemma throws_doneDataM:
  assumes "callbacks_throw P cc" shows "throws P (doneDataM cc doc n)"
proof -
  have "throws P (doneContent cc doc n)"
    using assms unfolding doneContent_def
    by (auto intro!: throws_intros split: list.split)
  then show ?thesis
    unfolding doneDataM_def Let_def
    by (intro throws_bindM throws_rethrow [OF assms] throws_fieldM throws_processNameLists
        throws_processParams assms)
qed

definition no_event :: "exc \<Rightarrow> bool" where
  "no_event x = (case x of ErrorExc _ \<Rightarrow> True | Abort \<Rightarrow> True | _ \<Rightarrow> False)"

definition is_error :: "exc \<Rightarrow> bool" where
  "is_error x = (case x of ErrorExc _ \<Rightarrow> True | _ \<Rightarrow> False)"

lemma throws_Abort: "throws no_event (throwM Abort)"
  by (simp add: throws_def throwM_def no_event_def)

lemma throws_processSend:
  assumes "callbacks_throw no_event cc" shows "throws no_event (processSend cc doc n)"
proof -
  have "throws no_event (freshId cc doc n)"
    using assms unfolding freshId_def by (auto intro!: throws_intros throws_Abort split: option.split)
  then have "throws no_event (sendId cc doc n)"
    using assms unfolding sendId_def by (auto intro!: throws_intros split: prod.split)
  then show ?thesis
    unfolding processSend_def Let_def
    by (auto intro!: throws_bindM throws_rethrow [OF assms] throws_catchError throws_basic(3)
        throws_localM throws_ErrorExc [OF assms] throws_callbacks [OF assms] throws_attrOrExpr [OF assms]
        throws_processNameLists [OF assms] throws_processParams [OF assms] throws_contentData [OF assms]
        split: prod.split)
qed


subsection \<open>An error ends the block and is reported once\<close>

text \<open>
  \<open>reports err cc S m\<close>: when \<open>m\<close> ends with an exception other than a failed assertion, it is an
  \<open>Event\<close> whose enqueueing by an element of \<open>S\<close> is the last thing that happened; an \<open>ErrorEvent\<close> only if
  \<open>err\<close>.
\<close>

definition reported :: "bool \<Rightarrow> 'e exec_callbacks \<Rightarrow> node set \<Rightarrow> exc \<Rightarrow> 'e \<Rightarrow> bool" where
  "reported err cc S x e' \<longleftrightarrow> (case x of Abort \<Rightarrow> True | ErrorExc _ \<Rightarrow> err | StdExc _ \<Rightarrow> False
     | EventExc v \<Rightarrow> (\<exists>b \<in> S. \<exists>e''. e' = x_monitor cc (AfterExec b) (x_enqueueInternal cc v e'')))"

definition reports :: "bool \<Rightarrow> 'e exec_callbacks \<Rightarrow> node set \<Rightarrow> ('e, 'a) eff \<Rightarrow> bool" where
  "reports err cc S m \<longleftrightarrow> (\<forall>e x e'. m e = (Inl x, e') \<longrightarrow> reported err cc S x e')"

lemma reports_bindM:
  "reports err cc S m \<Longrightarrow> (\<And>a. reports err cc S (f a)) \<Longrightarrow> reports err cc S (bindM m f)"
  unfolding reports_def bindM_def by (fastforce split: prod.splits sum.splits)

lemma reported_mono:
  "reported err cc S x e \<Longrightarrow> S \<subseteq> S' \<Longrightarrow> (err \<Longrightarrow> err') \<Longrightarrow> reported err' cc S' x e"
  by (cases x) (auto simp: reported_def)

lemma reports_mono:
  "reports err cc S m \<Longrightarrow> S \<subseteq> S' \<Longrightarrow> (err \<Longrightarrow> err') \<Longrightarrow> reports err' cc S' m"
  unfolding reports_def by (meson reported_mono)

lemma reported_no_event: "no_event x \<Longrightarrow> reported True cc S x e"
  by (cases x) (auto simp: reported_def no_event_def)

lemma reports_throws: "throws no_event m \<Longrightarrow> reports True cc S m"
  unfolding reports_def throws_def by (meson reported_no_event)

lemma reports_returnM: "reports err cc S (returnM a)"
  by (simp add: reports_def returnM_def)

lemma reports_guarded:
  assumes m: "reports True cc S m" and b: "b \<in> S"
  shows "reports False cc S (guarded cc b m)"
  unfolding reports_def
proof (intro allI impI)
  fix e x e'
  assume g: "guarded cc b m e = (Inl x, e')"
  obtain r e1 where r: "m (x_monitor cc (BeforeExec b) e) = (r, e1)" by fastforce
  show "reported False cc S x e'"
  proof (cases r)
    case (Inl y)
    then have "reported True cc S y e1" using m r by (auto simp: reports_def)
    then show ?thesis using g r Inl b by (auto simp: guarded_def reported_def split: exc.splits)
  next
    case (Inr u)
    then show ?thesis using g r by (simp add: guarded_def)
  qed
qed

lemma reports_repeatM: "(\<And>i. reports err cc S (body i)) \<Longrightarrow> reports err cc S (repeatM body i n)"
  by (induction body i n rule: repeatM.induct) (auto intro!: reports_returnM reports_bindM)

text \<open>No empty \<open>finalize\<close>, whose assignments are made outside the handler.\<close>

definition no_empty_finalize :: "node \<Rightarrow> bool" where
  "no_empty_finalize block \<longleftrightarrow> (\<forall>b \<in> set (nodes block).
     iequals (TAGNAME b) (XML_PREFIX b @ ''finalize'') \<longrightarrow> elementChildren b \<noteq> [])"

lemma no_empty_finalize_child:
  "no_empty_finalize (Element i p l ns as cs) \<Longrightarrow> c \<in> set cs \<Longrightarrow> no_empty_finalize c"
  by (auto simp: no_empty_finalize_def)

lemma reports_if:
  "(b \<Longrightarrow> reports err cc S m) \<Longrightarrow> (\<not> b \<Longrightarrow> reports err cc S m') \<Longrightarrow> reports err cc S (if b then m else m')"
  by simp

text \<open>A sequence and the branches of an \<open>if\<close> report when their elements do.\<close>

lemma process_seq_reports:
  "\<forall>c \<in> set cs. reports False cc S (process cc doc c) \<Longrightarrow> reports False cc S (process_seq cc doc cs)"
  by (induction cs) (auto intro!: reports_returnM reports_bindM)

lemma process_if_reports:
  assumes "callbacks_throw no_event cc"
  shows "\<forall>c \<in> set cs. reports False cc S (process cc doc c) \<Longrightarrow> reports True cc S (process_if cc doc px cs b)"
proof (induction cs arbitrary: b)
  case Nil
  show ?case by (simp add: reports_returnM)
next
  case (Cons c cs)
  have "reports True cc S (process cc doc c)" using Cons.prems by (auto intro: reports_mono)
  moreover have "reports True cc S (x_isTrue cc s)" for s
    using assms by (intro reports_throws throws_callbacks)
  ultimately show ?case using Cons by (auto intro!: reports_returnM reports_bindM)
qed

lemma simple_reports:
  assumes "callbacks_throw no_event cc"
  shows "reports True cc S (processRaise cc n)" and "reports True cc S (processSend cc doc n)"
    and "reports True cc S (processCancel cc doc n)" and "reports True cc S (processAssign cc n)"
    and "reports True cc S (processLog cc n)" and "reports True cc S (processScript cc n)"
    and "reports True cc S (throwM Abort)"
proof -
  note t = throws_bindM throws_if throws_basic throws_callbacks [OF assms] throws_ErrorExc [OF assms]
    throws_elementAsData [OF assms] throws_Abort throws_processSend [OF assms]
  show "reports True cc S (processRaise cc n)" "reports True cc S (processSend cc doc n)"
    "reports True cc S (processCancel cc doc n)" "reports True cc S (processAssign cc n)"
    "reports True cc S (processLog cc n)" "reports True cc S (processScript cc n)" "reports True cc S (throwM Abort)"
    unfolding processRaise_def processCancel_def processAssign_def processLog_def processScript_def
    by (intro reports_throws t)+
qed

lemma process_reports:
  assumes cc: "callbacks_throw no_event cc"
  shows "no_empty_finalize n \<Longrightarrow> reports False cc (set (nodes n)) (process cc doc n)"
proof (induction n)
  case (Element i p l ns as cs)
  let ?n = "Element i p l ns as cs" and ?S = "set (nodes (Element i p l ns as cs))"
  have child: "\<forall>c \<in> set cs. reports False cc ?S (process cc doc c)"
  proof
    fix c
    assume c: "c \<in> set cs"
    then have "reports False cc (set (nodes c)) (process cc doc c)"
      using Element no_empty_finalize_child by blast
    then show "reports False cc ?S (process cc doc c)" by (rule reports_mono) (use c in auto)
  qed
  have seq: "reports False cc ?S (process_seq cc doc cs)" using child by (rule process_seq_reports)
  then have seq': "reports True cc ?S (process_seq cc doc cs)" by (rule reports_mono) auto
  have iff: "reports True cc ?S (process_if cc doc px cs b)" for px b
    using process_if_reports [OF cc child] .
  have ext: "reports True cc ?S (x_isTrue cc s)" "reports True cc ?S (x_getLength cc s)"
    "reports True cc ?S (x_setForeach cc s s' s'' k)" "reports True cc ?S (x_enterElement cc m)"
    "reports True cc ?S (x_exitElement cc m)" for s s' s'' k m
    using cc by (auto intro!: reports_throws throws_callbacks)
  have fe: "reports True cc ?S (processForeach cc ?n (process_seq cc doc cs))"
    unfolding processForeach_def by (intro reports_bindM reports_repeatM ext seq')
  have cu: "reports True cc ?S (customContent cc ?n (process_seq cc doc cs))"
    unfolding customContent_def by (intro reports_bindM reports_if reports_returnM ext seq')
  have fin: "elementChildren ?n \<noteq> []" if "iequals (TAGNAME ?n) (XML_PREFIX ?n @ ''finalize'')"
    using Element.prems that by (simp add: no_empty_finalize_def)
  show ?case
    unfolding process.simps Let_def
    by (intro reports_if reports_guarded reports_bindM seq iff ext fe cu simple_reports [OF cc])
      (use fin in auto)
qed (simp_all add: reports_returnM)


subsection \<open>Properties of executable content\<close>

text \<open>The content of an \<open>if\<close> cut at its \<open>elseif\<close> and \<open>else\<close> elements, and the first branch that applies.\<close>

definition isElse :: "string \<Rightarrow> node \<Rightarrow> bool" where
  "isElse px c = iequals (TAGNAME c) (px @ ''else'')"

definition isElseif :: "string \<Rightarrow> node \<Rightarrow> bool" where
  "isElseif px c = iequals (TAGNAME c) (px @ ''elseif'')"

fun if_branches :: "string \<Rightarrow> node list \<Rightarrow> node list \<times> (node \<times> node list) list" where
  "if_branches px [] = ([], [])"
| "if_branches px (c # cs) = (case if_branches px cs of (block, rest) \<Rightarrow>
     if \<not> isElement c then (block, rest)
     else if isElseif px c \<or> isElse px c then ([], (c, block) # rest)
     else (c # block, rest))"

fun first_branch :: "'e exec_callbacks \<Rightarrow> node \<Rightarrow> string \<Rightarrow> (node \<times> node list) list \<Rightarrow> ('e, unit) eff" where
  "first_branch cc doc px [] = returnM ()"
| "first_branch cc doc px ((c, block) # rest) =
     (if isElseif px c
      then bindM (x_isTrue cc (ATTR c ''cond'')) (\<lambda>b. if b then process_seq cc doc block else first_branch cc doc px rest)
      else process_seq cc doc block)"

lemma returnM_bindM [simp]: "bindM (returnM a) f = f a"
  by (simp add: bindM_def returnM_def fun_eq_iff)

lemma iequals_append [simp]: "iequals (p @ a) (p @ b) = iequals a b"
  by (simp add: iequals_iff)

lemma iequals_tag: "iequals (TAGNAME n) (XML_PREFIX n @ t) = iequals (LOCALNAME n) t"
  by (simp add: TAGNAME_def)

lemma iequals_other: "length a \<noteq> length b \<Longrightarrow> iequals a b = False"
  using iequals_length by blast

lemma process_if_branches:
  "process_if cc doc px cs b = (if b then process_seq cc doc (fst (if_branches px cs))
     else first_branch cc doc px (snd (if_branches px cs)))"
proof (induction cs arbitrary: b)
  case (Cons c cs)
  obtain block rest where br: "if_branches px cs = (block, rest)" by fastforce
  have IH: "process_if cc doc px cs =
      (\<lambda>b. if b then process_seq cc doc block else first_branch cc doc px rest)"
    using Cons br by (intro ext) simp
  show ?case
    by (simp add: br isElse_def isElseif_def IH)
qed simp

text \<open>
  C16. An \<open>if\<close> evaluates its conditions in document order up to the first true one and executes exactly the
  content between that condition's element and the next \<open>elseif\<close> or \<open>else\<close>; an \<open>else\<close> counts as true, and
  with no true condition nothing is executed.
\<close>

theorem if_first_true_branch:
  assumes "isElement block" and "iequals (TAGNAME block) (XML_PREFIX block @ ''if'')"
  shows "process cc doc block = guarded cc block
    (bindM (x_isTrue cc (ATTR block ''cond'')) (\<lambda>b.
       if b then process_seq cc doc (fst (if_branches (XML_PREFIX block) (childNodes block)))
       else first_branch cc doc (XML_PREFIX block) (snd (if_branches (XML_PREFIX block) (childNodes block)))))"
proof (cases block)
  case (Element i p l ns as cs)
  have "iequals (LOCALNAME block) ''if''" using assms(2) by (simp add: iequals_tag)
  moreover from this have "iequals l t = False" if "length t \<noteq> 2" for t
    using that Element by (intro iequals_other) (auto dest: iequals_length)
  ultimately show ?thesis
    unfolding Element process.simps iequals_tag Let_def childNodes.simps by (simp add: process_if_branches [abs_def])
qed (use assms in auto)

text \<open>Callbacks over the list of delivered events: \<open>bad\<close> cannot be evaluated, \<open>true\<close> holds.\<close>

definition sample_eval :: "string \<Rightarrow> (Event list, data) eff" where
  "sample_eval s e = (if s = ''bad'' then (Inl (ErrorExc (ERROR_EXECUTION ''u'' ([], 1) ''bad'')), e)
     else (Inr (Data_atom s VERBATIM), e))"

definition sample_exec :: "Event list exec_callbacks" where
  "sample_exec = \<lparr>x_evalAsData = sample_eval, x_getAsData = sample_eval, x_isTrue = (\<lambda>s. returnM (s = ''true'')),
     x_assign = (\<lambda>l d a. returnM ()), x_enqueueInternal = (\<lambda>ev e. e @ [ev]), x_getInvokeId = (\<lambda>e. []),
     x_getUUID = returnM ''id0'', x_checkValidSendType = (\<lambda>a b. returnM ()),
     x_enqueue = (\<lambda>a b n ev. modifyM (\<lambda>e. e @ [ev])), x_cancelDelayed = (\<lambda>s. returnM ()),
     x_getLength = (\<lambda>s. returnM 2), x_setForeach = (\<lambda>a b c n. returnM ()), x_eval = (\<lambda>s. returnM ()),
     x_log = (\<lambda>l d e. e), x_getCurrentEvent = (\<lambda>e. Event_new []), x_isValidExprSyntax = (\<lambda>s e. s \<noteq> ''bad''),
     x_invoke = (\<lambda>a b c d ev. returnM ()), x_uninvoke = (\<lambda>s. returnM ()), x_setInvokeId = (\<lambda>n i e. e),
     x_invokeIdOf = (\<lambda>n e. None), x_hasExecutableContent = (\<lambda>a b. False), x_enterElement = (\<lambda>n. returnM ()),
     x_processChildren = (\<lambda>n. False), x_exitElement = (\<lambda>n. returnM ()), x_fetch = (\<lambda>n s. returnM (None, s)),
     x_secondsToMs = (\<lambda>s. 1000 * strTo_nat s 0), x_junk = VERBATIM, x_monitor = (\<lambda>n e. e)\<rparr>"

definition sample_if :: node where
  "sample_if = Element 1 None ''if'' [] [(''cond'', ''false'')]
     [Element 2 None ''raise'' [] [(''event'', ''a'')] [],
      Element 3 None ''elseif'' [] [(''cond'', ''true'')] [],
      Element 4 None ''raise'' [] [(''event'', ''b'')] [],
      Element 5 None ''log'' [] [(''expr'', ''bad'')] [],
      Element 6 None ''raise'' [] [(''event'', ''c'')] [],
      Element 7 None ''else'' [] [] [],
      Element 8 None ''raise'' [] [(''event'', ''d'')] []]"

theorem if_first_true_branch_witness:
  "process sample_exec sample_if sample_if = guarded sample_exec sample_if
    (bindM (x_isTrue sample_exec (ATTR sample_if ''cond'')) (\<lambda>b.
       if b then process_seq sample_exec sample_if (fst (if_branches (XML_PREFIX sample_if) (childNodes sample_if)))
       else first_branch sample_exec sample_if (XML_PREFIX sample_if)
         (snd (if_branches (XML_PREFIX sample_if) (childNodes sample_if)))))"
  by (rule if_first_true_branch) (simp_all add: sample_if_def iequals_tag)


lemma sample_exec_throws: "callbacks_throw no_event sample_exec" "callbacks_throw is_error sample_exec"
  by (auto simp: callbacks_throw_def sample_exec_def throws_basic)
    (auto simp: throws_def sample_eval_def no_event_def is_error_def split: if_splits)

definition sample_error :: "exc \<times> Event list" where
  "sample_error = (case process sample_exec sample_if sample_if [] of (Inl x, e) \<Rightarrow> (x, e) | (Inr _, e) \<Rightarrow> (Abort, e))"


text \<open>Evaluating the \<open>donedata\<close> fills fields of the event other than its name and identifier.\<close>

definition keeps_id :: "('e \<times> Event, 'a) eff \<Rightarrow> bool" where
  "keeps_id m \<longleftrightarrow> (\<forall>e ev r e' ev'. m (e, ev) = (r, (e', ev')) \<longrightarrow> uuid ev' = uuid ev \<and> ename ev' = ename ev)"

lemma keeps_id_bindM: "keeps_id m \<Longrightarrow> (\<And>a. keeps_id (f a)) \<Longrightarrow> keeps_id (bindM m f)"
  unfolding keeps_id_def bindM_def by (fastforce split: prod.splits sum.splits)

lemma keeps_id_rethrow: "keeps_id m \<Longrightarrow> keeps_id (rethrow c xp m)"
  unfolding keeps_id_def rethrow_def catchError_def throwM_def by (auto split: prod.splits sum.splits exc.splits)

lemma keeps_id_basic:
  "keeps_id (outerM m)" "keeps_id (returnM a)" "keeps_id (throwM x)" "keeps_id (modifyM (apsnd (edata_update f)))"
  "keeps_id (fieldM namelist (\<lambda>nl. namelist_update (\<lambda>_. nl)) n)"
  "keeps_id (fieldM params (\<lambda>ps. params_update (\<lambda>_. ps)) n)"
  by (auto simp: keeps_id_def outerM_def returnM_def throwM_def modifyM_def fieldM_def split: prod.splits)

lemma doneDataM_keeps: "keeps_id (doneDataM cc doc dd)"
proof -
  have "keeps_id (doneContent cc doc dd)"
    unfolding doneContent_def by (auto intro!: keeps_id_bindM keeps_id_basic split: list.split)
  then show ?thesis
    unfolding doneDataM_def Let_def by (intro keeps_id_bindM keeps_id_rethrow keeps_id_basic)
qed

text \<open>
  \<open>raiseDoneEvent\<close> always delivers the done event, as the last event it enqueues, even when evaluating
  the \<open>donedata\<close> fails; then the error comes before it and the event carries no content.
\<close>

theorem done_event_delivered:
  assumes "callbacks_throw is_error cc" and "x_getUUID cc e = (Inr uid, e1)"
  shows "\<exists>ev e'. raiseDoneEvent cc doc state doneData e = (Inr (), x_enqueueInternal cc ev e') \<and>
    uuid ev = uid \<and> ename ev = done_name doc state \<and>
    (\<forall>dd v e2 ev2. doneData = Some dd \<and>
       doneDataM cc doc dd (e1, (Event_new uid)\<lparr>ename := done_name doc state\<rparr>) = (Inl (ErrorExc v), (e2, ev2)) \<longrightarrow>
       edata ev = Data_empty \<and> e' = x_enqueueInternal cc v e2)"

proof (cases doneData)
  case None
  then show ?thesis using assms(2)
    by (intro exI [of _ "(Event_new uid)\<lparr>ename := done_name doc state\<rparr>"] exI [of _ e1])
      (simp add: raiseDoneEvent_def bindM_def Event_new_def)
next
  case (Some dd)
  obtain r e2 ev2 where r: "doneDataM cc doc dd (e1, (Event_new uid)\<lparr>ename := done_name doc state\<rparr>) = (r, (e2, ev2))"
    by (metis prod.exhaust)
  then have kept: "uuid ev2 = uid \<and> ename ev2 = done_name doc state"
    using doneDataM_keeps [of cc doc dd] by (auto simp: keeps_id_def Event_new_def)
  show ?thesis
  proof (cases r)
    case (Inl x)
    then have "is_error x"
      using throws_doneDataM [OF assms(1), of doc dd] r unfolding throws_def by blast
    then obtain v where v: "r = Inl (ErrorExc v)" using Inl by (auto simp: is_error_def split: exc.splits)
    then show ?thesis using r kept Some assms(2)
      by (intro exI [of _ "ev2\<lparr>edata := Data_empty\<rparr>"] exI [of _ "x_enqueueInternal cc v e2"])
        (simp add: raiseDoneEvent_def bindM_def)
  next
    case (Inr u)
    then show ?thesis using r kept Some assms(2)
      by (intro exI [of _ ev2] exI [of _ e2]) (simp add: raiseDoneEvent_def bindM_def)
  qed
qed

definition sample_donedata :: node where
  "sample_donedata = Element 3 None ''donedata'' [] []
     [Element 4 None ''param'' [] [(''name'', ''p''), (''expr'', ''1'')] [],
      Element 5 None ''content'' [] [(''expr'', ''bad'')] []]"

definition sample_final :: node where
  "sample_final = Element 2 None ''final'' [] [(''id'', ''f'')] [sample_donedata]"

theorem done_event_delivered_witness:
  "(\<exists>ev e'. raiseDoneEvent sample_exec sample_final sample_final (Some sample_donedata) [] =
       (Inr (), x_enqueueInternal sample_exec ev e') \<and> uuid ev = ''id0'' \<and> ename ev = ''done.state.f'' \<and>
       edata ev = Data_empty) \<and>
   map ename (snd (raiseDoneEvent sample_exec sample_final sample_final (Some sample_donedata) [])) =
     [''error.execution'', ''done.state.f'']"
proof
  let ?d = "doneDataM sample_exec sample_final sample_donedata ([], (Event_new ''id0'')\<lparr>ename := ''done.state.f''\<rparr>)"
  have d: "\<exists>v e2 ev2. ?d = (Inl (ErrorExc v), (e2, ev2))"
  proof -
    have "(case ?d of (Inl (ErrorExc v), (e2, ev2)) \<Rightarrow> True | _ \<Rightarrow> False)" by code_simp
    then show ?thesis by (auto split: prod.splits sum.splits exc.splits)
  qed
  have n: "done_name sample_final sample_final = ''done.state.f''" by code_simp
  show "\<exists>ev e'. raiseDoneEvent sample_exec sample_final sample_final (Some sample_donedata) [] =
       (Inr (), x_enqueueInternal sample_exec ev e') \<and> uuid ev = ''id0'' \<and> ename ev = ''done.state.f'' \<and>
       edata ev = Data_empty"
    using done_event_delivered [of sample_exec "[]" "''id0''" "[]" sample_final sample_final "Some sample_donedata"]
      sample_exec_throws(2) d n by (auto simp: sample_exec_def returnM_def)
  show "map ename (snd (raiseDoneEvent sample_exec sample_final sample_final (Some sample_donedata) [])) =
     [''error.execution'', ''done.state.f'']" by code_simp
qed

text \<open>A \<open>send\<close> without expressions and content.\<close>

lemma processSend_literal:
  assumes "\<forall>a \<in> {''eventexpr'', ''targetexpr'', ''typeexpr'', ''delayexpr'', ''idlocation'', ''namelist''}. \<not> HAS_ATTR n a"
    and "HAS_ATTR n ''type''" and "childNodes n = []" and "getParentState doc n = Some p"
    and "\<forall>e. x_getUUID cc e = (Inr (u e), next_id e)"
  shows "processSend cc doc n e =
    (let given = HAS_ATTR n ''id''; e1 = next_id e; e2 = (if given then e1 else next_id e1);
         sid = (if given then ATTR n ''id'' else ATTR p ''id'' @ ''.'' @ u e1) in
     case x_checkValidSendType cc (ATTR n ''type'') (ATTR n ''target'') e2 of
       (Inl (ErrorExc x), e3) \<Rightarrow> (Inl (ErrorExc ((with_xpath (xPathForNode doc n []) x)\<lparr>sendid := sid\<rparr>)), e3)
     | (Inl y, e3) \<Rightarrow> (Inl y, e3)
     | (Inr _, e3) \<Rightarrow> x_enqueue cc (ATTR n ''type'') (ATTR n ''target'') (delayOf cc (ATTR n ''delay''))
         ((Event_new (u e))\<lparr>ename := ATTR n ''event'', eventType := EXTERNAL, invokeid := x_getInvokeId cc e1,
            sendid := sid, hideSendId := \<not> given\<rparr>) e3)"
proof -
  have attr: "attrOrExpr cc n x a [] = returnM (ATTR n a)" if "\<not> HAS_ATTR n x" for x a
    using that by (auto simp: attrOrExpr_def HAS_ATTR_def ATTR_def)
  have re: "rethrow c xp (returnM v) = returnM v" for c xp v
    by (simp add: rethrow_def catchError_def returnM_def fun_eq_iff)
  have names: "localM [] (processNameLists cc n) = returnM []"
    using assms(1) by (simp add: processNameLists_def localM_def returnM_def fun_eq_iff)
  have noch: "filterChildElements t n False = []" for t
    using assms(3) by (cases n) (simp_all add: filterChildElements_def Let_def)
  have pay: "localM [] (processParams cc n) = returnM []" "contentData cc n = returnM Data_empty"
    by (simp_all add: processParams_def contentData_def noch localM_def returnM_def fun_eq_iff)
  have ty: "attrOrExpr cc n ''typeexpr'' ''type'' SCXML_IOPROC = returnM (ATTR n ''type'')"
    using assms(1,2) by (simp add: attrOrExpr_def)
  have sid: "rethrow c xp (sendId cc doc n) e = (if HAS_ATTR n ''id'' then (Inr (ATTR n ''id'', False), e)
      else (Inr (ATTR p ''id'' @ ''.'' @ u e, True), next_id e))" for c xp e
    using assms(1,4,5)
    by (simp add: sendId_def freshId_def rethrow_def catchError_def bindM_def returnM_def)
  have a: "\<not> HAS_ATTR n ''eventexpr''" "\<not> HAS_ATTR n ''targetexpr''" "\<not> HAS_ATTR n ''delayexpr''"
    using assms(1) by simp_all
  show ?thesis
    unfolding processSend_def Let_def attr [OF a(1)] attr [OF a(2)] attr [OF a(3)] ty names pay re returnM_bindM
    using assms(5)
    by (auto simp: bindM_def sid readM_def catchError_def throwM_def Event_new_def
        split: prod.splits sum.splits exc.splits)
qed

text \<open>
  A \<open>send\<close> with literal attributes and no payload hands the interpreter exactly one event, external and
  with the name, target, type and delay of its attributes; without an \<open>id\<close> the event carries a fresh
  identifier that is marked hidden, and a rejected target turns into the error of \<open>checkValidSendType\<close>
  with the send's identifier, with nothing sent.
\<close>

theorem send_literal:
  assumes "\<forall>a \<in> {''eventexpr'', ''targetexpr'', ''typeexpr'', ''delayexpr'', ''idlocation'', ''namelist''}. \<not> HAS_ATTR n a"
    and "HAS_ATTR n ''type''" and "childNodes n = []" and "getParentState doc n = Some p"
    and "\<forall>e. x_getUUID cc e = (Inr (u e), next_id e)"
  shows "processSend cc doc n e =
    (let given = HAS_ATTR n ''id''; e1 = next_id e; e2 = (if given then e1 else next_id e1);
         sid = (if given then ATTR n ''id'' else ATTR p ''id'' @ ''.'' @ u e1) in
     case x_checkValidSendType cc (ATTR n ''type'') (ATTR n ''target'') e2 of
       (Inl (ErrorExc x), e3) \<Rightarrow> (Inl (ErrorExc ((with_xpath (xPathForNode doc n []) x)\<lparr>sendid := sid\<rparr>)), e3)
     | (Inl y, e3) \<Rightarrow> (Inl y, e3)
     | (Inr _, e3) \<Rightarrow> x_enqueue cc (ATTR n ''type'') (ATTR n ''target'') (delayOf cc (ATTR n ''delay''))
         ((Event_new (u e))\<lparr>ename := ATTR n ''event'', eventType := EXTERNAL, invokeid := x_getInvokeId cc e1,
            sendid := sid, hideSendId := \<not> given\<rparr>) e3)"
  using assms by (rule processSend_literal)

definition sample_send :: node where
  "sample_send = Element 12 None ''send'' [] [(''event'', ''go''), (''type'', ''scxml''), (''delay'', ''20ms'')] []"

definition sample_sender :: node where
  "sample_sender = Element 10 None ''state'' [] [(''id'', ''s0'')] [Element 11 None ''onentry'' [] [] [sample_send]]"

theorem send_literal_witness:
  "processSend sample_exec sample_sender sample_send [] =
     (Inr (), [(Event_new ''id0'')\<lparr>ename := ''go'', eventType := EXTERNAL, sendid := ''s0.id0'', hideSendId := True\<rparr>])"
proof -
  have "processSend sample_exec sample_sender sample_send [] =
    (let given = HAS_ATTR sample_send ''id''; e1 = []; e2 = (if given then e1 else e1);
         sid = (if given then ATTR sample_send ''id'' else ATTR sample_sender ''id'' @ ''.'' @ ''id0'') in
     case x_checkValidSendType sample_exec (ATTR sample_send ''type'') (ATTR sample_send ''target'') e2 of
       (Inl (ErrorExc x), e3) \<Rightarrow>
         (Inl (ErrorExc ((with_xpath (xPathForNode sample_sender sample_send []) x)\<lparr>sendid := sid\<rparr>)), e3)
     | (Inl y, e3) \<Rightarrow> (Inl y, e3)
     | (Inr _, e3) \<Rightarrow> x_enqueue sample_exec (ATTR sample_send ''type'') (ATTR sample_send ''target'')
         (delayOf sample_exec (ATTR sample_send ''delay''))
         ((Event_new ''id0'')\<lparr>ename := ATTR sample_send ''event'', eventType := EXTERNAL, invokeid := x_getInvokeId sample_exec e1,
            sendid := sid, hideSendId := \<not> given\<rparr>) e3)"
  proof (rule send_literal [where u = "\<lambda>e. ''id0''" and next_id = "\<lambda>e. e"])
    show "getParentState sample_sender sample_send = Some sample_sender" by code_simp
  qed (simp_all add: sample_send_def HAS_ATTR_def sample_exec_def returnM_def)
  also have "\<dots> = (Inr (), [(Event_new ''id0'')\<lparr>ename := ''go'', eventType := EXTERNAL, sendid := ''s0.id0'',
      hideSendId := True\<rparr>])"
    by (simp add: sample_send_def sample_sender_def sample_exec_def HAS_ATTR_def ATTR_def returnM_def modifyM_def
        Event_new_def)
  finally show "processSend sample_exec sample_sender sample_send [] =
     (Inr (), [(Event_new ''id0'')\<lparr>ename := ''go'', eventType := EXTERNAL, sendid := ''s0.id0'', hideSendId := True\<rparr>])" .
qed

end
