(* ===== verification/EventQueue.thy ===== *)
theory EventQueue
  imports Events
begin

text \<open>
  The event queues: \<open>src/src/uscxml/interpreter/BasicEventQueue.cpp\<close> (a FIFO list behind a mutex and a
  condition variable) and \<open>BasicDelayedEventQueue.cpp\<close> (timers of libevent). The interface that the
  interpreter relies on is the locale \<open>event_queue\<close>: its laws are the FIFO contract, its lemmas follow
  from the laws, and it is interpreted on the operations of \<open>BasicEventQueue\<close>.
\<close>

subsection \<open>BasicEventQueue\<close>

record BasicEventQueue =
  bq_queue :: "Event list"

definition bq_create :: BasicEventQueue where
  "bq_create = \<lparr>bq_queue = []\<rparr>"

definition size_t_max :: nat where
  "size_t_max = 2 ^ 64 - 1"

text \<open>
  \<open>dequeue\<close>: \<open>arrived\<close> are the events that other threads enqueue while the call waits, which it does
  only when the queue is empty and \<open>blockMs\<close> is not 0; \<open>None\<close> is a call that is still waiting, which
  can be the case for the maximal \<open>blockMs\<close> only. The uuid of the empty event is the first argument.
\<close>

definition bq_dequeue ::
  "string \<Rightarrow> nat \<Rightarrow> Event list \<Rightarrow> BasicEventQueue \<Rightarrow> (Event \<times> BasicEventQueue) option" where
  "bq_dequeue uid blockMs arrived q =
    (let queue = (if bq_queue q = [] \<and> 0 < blockMs then arrived else bq_queue q) in
     if queue = [] \<and> blockMs = size_t_max then None
     else Some (case queue of
         [] \<Rightarrow> (Event_new uid, q\<lparr>bq_queue := []\<rparr>)
       | event # rest \<Rightarrow> (event, q\<lparr>bq_queue := rest\<rparr>)))"

definition bq_enqueue :: "Event \<Rightarrow> BasicEventQueue \<Rightarrow> BasicEventQueue" where
  "bq_enqueue event q = q\<lparr>bq_queue := bq_queue q @ [event]\<rparr>"

definition bq_reset :: "BasicEventQueue \<Rightarrow> BasicEventQueue" where
  "bq_reset q = q\<lparr>bq_queue := []\<rparr>"

text \<open>\<open>serialize\<close> stores the data of each event, not the event.\<close>

fun bq_entries :: "int \<Rightarrow> Event list \<Rightarrow> data \<Rightarrow> data" where
  "bq_entries index [] d = d"
| "bq_entries index (e # es) d =
     bq_entries (index + 1) es
       (put ''BasicEventQueue'' (put_item index (edata e) (data_at d ''BasicEventQueue'')) d)"

definition bq_serialize :: "BasicEventQueue \<Rightarrow> data" where
  "bq_serialize q = bq_entries 0 (bq_queue q) Data_empty"

definition bq_deserialize :: "string \<Rightarrow> data \<Rightarrow> BasicEventQueue \<Rightarrow> BasicEventQueue" where
  "bq_deserialize uid d q =
    (if hasKey d ''BasicEventQueue''
     then q\<lparr>bq_queue := bq_queue q @ map (\<lambda>e. fromData uid (snd e)) (array_of (data_at d ''BasicEventQueue''))\<rparr>
     else q)"

subsection \<open>The queue interface\<close>

datatype qop = Enq Event | Deq

locale event_queue =
  fixes contents :: "'q \<Rightarrow> Event list"
    and enq :: "Event \<Rightarrow> 'q \<Rightarrow> 'q"
    and deq :: "'q \<Rightarrow> Event \<times> 'q"
  assumes contents_enq: "contents (enq e q) = contents q @ [e]"
    and deq_empty: "contents q = [] \<Longrightarrow> \<not> event_valid (fst (deq q)) \<and> contents (snd (deq q)) = []"
    and deq_cons: "contents q = e # es \<Longrightarrow> fst (deq q) = e \<and> contents (snd (deq q)) = es"
begin

text \<open>A sequence of operations and the valid events it delivers.\<close>

fun run :: "qop list \<Rightarrow> 'q \<Rightarrow> Event list \<times> 'q" where
  "run [] q = ([], q)"
| "run (Enq e # ops) q = run ops (enq e q)"
| "run (Deq # ops) q =
     (let (e, q1) = deq q; (out, q2) = run ops q1 in (if event_valid e then e # out else out, q2))"

fun inputs :: "qop list \<Rightarrow> Event list" where
  "inputs [] = []"
| "inputs (Enq e # ops) = e # inputs ops"
| "inputs (Deq # ops) = inputs ops"

lemma contents_enq_all: "contents (fold enq es q) = contents q @ es"
  by (induction es arbitrary: q) (simp_all add: contents_enq)

text \<open>Nothing is lost, invented or reordered.\<close>

lemma fifo:
  assumes "\<forall>e \<in> set (contents q) \<union> set (inputs ops). event_valid e"
  shows "fst (run ops q) @ contents (snd (run ops q)) = contents q @ inputs ops"
  using assms
proof (induction ops arbitrary: q)
  case (Cons op ops)
  show ?case
  proof (cases op)
    case (Enq e)
    with Cons show ?thesis by (simp add: contents_enq)
  next
    case Deq
    show ?thesis
    proof (cases "contents q")
      case Nil
      with Cons Deq deq_empty [OF Nil] show ?thesis by (simp add: case_prod_beta Let_def)
    next
      case (Cons e es)
      from deq_cons [OF Cons] have d: "fst (deq q) = e" "contents (snd (deq q)) = es" by auto
      have "event_valid e" using Cons.prems Cons by simp
      with Cons.IH [of "snd (deq q)"] Cons.prems Cons Deq d show ?thesis
        by (simp add: case_prod_beta Let_def)
    qed
  qed
qed simp

end

text \<open>Polling the queue, \<open>dequeue(0)\<close>.\<close>

definition bq_poll :: "BasicEventQueue \<Rightarrow> Event \<times> BasicEventQueue" where
  "bq_poll q = the (bq_dequeue [] 0 [] q)"

lemma bq_poll_eq:
  "bq_poll q = (case bq_queue q of [] \<Rightarrow> (Event_new [], q) | e # es \<Rightarrow> (e, q\<lparr>bq_queue := es\<rparr>))"
  by (cases q) (simp add: bq_poll_def bq_dequeue_def Let_def size_t_max_def split: list.split)

interpretation bq: event_queue bq_queue bq_enqueue bq_poll
  by unfold_locales (simp_all add: bq_enqueue_def bq_poll_eq)

subsection \<open>BasicDelayedEventQueue\<close>

text \<open>
  The timer of an entry is a libevent object: \<open>event_new\<close> returns a fresh handle (an argument here),
  \<open>event_free\<close> releases it, and \<open>event_del\<close> or \<open>event_free\<close> on a released handle is undefined, which is
  the result \<open>None\<close>. \<open>dq_live\<close> are the allocated timers. Times are milliseconds.
\<close>

record callbackData =
  cd_userData :: Event
  cd_eventUUID :: string
  cd_event :: nat
  cd_added :: nat
  cd_due :: nat

record DelayedQueue = BasicEventQueue +
  dq_callbackData :: "(string \<times> callbackData) list"
  dq_live :: "nat list"
  dq_isStarted :: bool
  dq_thread :: bool

definition event_free :: "nat \<Rightarrow> DelayedQueue \<Rightarrow> DelayedQueue option" where
  "event_free h q = (if h \<in> set (dq_live q) then Some (q\<lparr>dq_live := removeAll h (dq_live q)\<rparr>) else None)"

definition event_del :: "nat \<Rightarrow> DelayedQueue \<Rightarrow> DelayedQueue option" where
  "event_del h q = (if h \<in> set (dq_live q) then Some q else None)"

definition dq_erase :: "string \<Rightarrow> DelayedQueue \<Rightarrow> DelayedQueue" where
  "dq_erase u q = q\<lparr>dq_callbackData := alist_erase u (dq_callbackData q)\<rparr>"

definition dq_cancelDelayed :: "string \<Rightarrow> DelayedQueue \<Rightarrow> DelayedQueue option" where
  "dq_cancelDelayed eventId q =
    (case map_of (dq_callbackData q) eventId of
       None \<Rightarrow> Some q
     | Some cd \<Rightarrow> Option.bind (event_del (cd_event cd) q)
         (\<lambda>q1. map_option (dq_erase eventId) (event_free (cd_event cd) q1)))"

definition dq_enqueueDelayed ::
  "nat \<Rightarrow> nat \<Rightarrow> Event \<Rightarrow> nat \<Rightarrow> string \<Rightarrow> DelayedQueue \<Rightarrow> DelayedQueue option" where
  "dq_enqueueDelayed h now event delayMs eventUUID q =
     map_option (\<lambda>q1. q1\<lparr>dq_callbackData := put_key eventUUID
         \<lparr>cd_userData = event, cd_eventUUID = eventUUID, cd_event = h, cd_added = now, cd_due = now + delayMs\<rparr>
         (dq_callbackData q1), dq_live := h # dq_live q1\<rparr>)
       (if map_of (dq_callbackData q) eventUUID \<noteq> None then dq_cancelDelayed eventUUID q else Some q)"

function dq_cancelAllDelayed :: "DelayedQueue \<Rightarrow> DelayedQueue option" where
  "dq_cancelAllDelayed q =
    (case dq_callbackData q of
       [] \<Rightarrow> Some q
     | (u, cd) # _ \<Rightarrow>
         Option.bind (event_del (cd_event cd) q) (\<lambda>q1.
         Option.bind (event_free (cd_event cd) q1) (\<lambda>q2. dq_cancelAllDelayed (dq_erase u q2))))"
  by pat_completeness auto
termination
proof (relation "measure (\<lambda>q. length (dq_callbackData q))", goal_cases)
  case (2 q e es u cd q1 q2)
  then show ?case
    by (auto simp: event_del_def event_free_def dq_erase_def alist_erase_def less_Suc_eq_le split: if_splits)
qed simp

text \<open>
  \<open>timerCallback\<close> in its three parts: under the mutex, look the entry up and free its timer; without
  the mutex, deliver the event with \<open>eventReady\<close>; under the mutex again, erase the entry.
\<close>

definition timer_begin :: "string \<Rightarrow> DelayedQueue \<Rightarrow> (Event option \<times> DelayedQueue) option" where
  "timer_begin u q =
    (case map_of (dq_callbackData q) u of
       None \<Rightarrow> Some (None, q)
     | Some cd \<Rightarrow> map_option (\<lambda>q1. (Some (cd_userData cd), q1)) (event_free (cd_event cd) q))"

definition timer_end :: "string \<Rightarrow> DelayedQueue \<Rightarrow> DelayedQueue" where
  "timer_end u q = dq_erase u q"

definition dq_start :: "DelayedQueue \<Rightarrow> DelayedQueue" where
  "dq_start q = (if dq_isStarted q then q else q\<lparr>dq_isStarted := True, dq_thread := True\<rparr>)"

definition dq_stop :: "DelayedQueue \<Rightarrow> DelayedQueue option" where
  "dq_stop q = map_option (\<lambda>q1. q1\<lparr>dq_thread := False\<rparr>)
     (if dq_isStarted q then dq_cancelAllDelayed (q\<lparr>dq_isStarted := False\<rparr>) else Some q)"

definition dq_reset :: "DelayedQueue \<Rightarrow> DelayedQueue option" where
  "dq_reset q = map_option (\<lambda>q1. q1\<lparr>bq_queue := []\<rparr>) (dq_cancelAllDelayed q)"

text \<open>
  \<open>serialize\<close> iterates the inherited \<open>_queue\<close> and stores the events' data; the remaining delay goes to
  a local value that is dropped. \<open>_callbackData[event.uuid]\<close> inserts an entry for an unknown uuid,
  whose timer pointer is not initialised (the argument \<open>junk\<close>).
\<close>

definition dq_touch :: "nat \<Rightarrow> Event \<Rightarrow> DelayedQueue \<Rightarrow> DelayedQueue" where
  "dq_touch junk e q = (if map_of (dq_callbackData q) (uuid e) = None
     then q\<lparr>dq_callbackData := put_key (uuid e) \<lparr>cd_userData = Event_new [], cd_eventUUID = [], cd_event = junk,
         cd_added = 0, cd_due = 0\<rparr> (dq_callbackData q)\<rparr>
     else q)"

fun dq_entries :: "int \<Rightarrow> Event list \<Rightarrow> data \<Rightarrow> data" where
  "dq_entries index [] d = d"
| "dq_entries index (e # es) d =
     dq_entries (index + 1) es
       (put ''BasicDelayedEventQueue'' (put_item index (edata e) (data_at d ''BasicDelayedEventQueue'')) d)"

definition dq_serialize :: "nat \<Rightarrow> DelayedQueue \<Rightarrow> data \<times> DelayedQueue" where
  "dq_serialize junk q =
    (let q1 = (if dq_isStarted q then q\<lparr>dq_isStarted := False\<rparr> else q);
         q2 = q1\<lparr>dq_thread := False\<rparr>;
         q3 = fold (dq_touch junk) (bq_queue q2) q2
     in (dq_entries 0 (bq_queue q2) Data_empty, dq_start q3))"

text \<open>
  \<open>deserialize\<close>; \<open>clock\<close> gives the timer handle and the time for each entry, and a missing key of the
  constant subscript throws, which ends the loop with \<open>None\<close>.
\<close>

fun dq_restore :: "string \<Rightarrow> (int \<Rightarrow> nat \<times> nat) \<Rightarrow> (int \<times> data) list \<Rightarrow> DelayedQueue \<Rightarrow> DelayedQueue option" where
  "dq_restore uid clock [] q = Some q"
| "dq_restore uid clock ((i, d) # r) q =
     (let e = fromData uid (data_at d ''event'') in
      Option.bind (dq_enqueueDelayed (fst (clock i)) (snd (clock i)) e
          (strTo_nat (atom (data_at d ''delay'')) 0) (uuid e) q)
        (dq_restore uid clock r))"

definition dq_deserialize ::
  "string \<Rightarrow> (int \<Rightarrow> nat \<times> nat) \<Rightarrow> data \<Rightarrow> DelayedQueue \<Rightarrow> DelayedQueue option" where
  "dq_deserialize uid clock d q =
    (if hasKey d ''BasicDelayedEventQueue''
     then dq_restore uid clock (array_of (data_at d ''BasicDelayedEventQueue'')) q else Some q)"

declare dq_cancelAllDelayed.simps [simp del]

subsection \<open>Timers are used while they are allocated\<close>

text \<open>The timer of every entry is allocated and no two entries share one.\<close>

definition dq_inv :: "DelayedQueue \<Rightarrow> bool" where
  "dq_inv q \<longleftrightarrow> distinct (map fst (dq_callbackData q)) \<and>
     distinct (map (cd_event \<circ> snd) (dq_callbackData q)) \<and>
     (\<forall>(u, cd) \<in> set (dq_callbackData q). cd_event cd \<in> set (dq_live q) \<and> cd_eventUUID cd = u)"

lemma alist_erase_absent: "u \<notin> fst ` set m \<Longrightarrow> alist_erase u m = m"
  by (auto simp: alist_erase_def intro: filter_True)

lemma distinct_handles:
  assumes "distinct (map (cd_event \<circ> snd) m)" and "(u, cd) \<in> set m" and "(v, cd') \<in> set m" and "u \<noteq> v"
  shows "cd_event cd \<noteq> cd_event cd'"
  using assms by (induction m) (auto simp: rev_image_eqI)

lemma erase_inv:
  assumes "dq_inv q" and "map_of (dq_callbackData q) u = Some cd"
  shows "dq_inv (dq_erase u (q\<lparr>dq_live := removeAll (cd_event cd) (dq_live q)\<rparr>))"
proof -
  let ?m = "dq_callbackData q"
  have mem: "(u, cd) \<in> set ?m" using assms(2) by (rule map_of_SomeD)
  have "cd_event cd' \<noteq> cd_event cd" if "(v, cd') \<in> set (alist_erase u ?m)" for v cd'
    using that distinct_handles [OF _ mem, of v cd'] assms(1) by (auto simp: dq_inv_def alist_erase_def)
  then show ?thesis
    using assms(1) distinct_alist_erase [of ?m u]
    by (fastforce simp: dq_inv_def dq_erase_def alist_erase_def distinct_map_filter)
qed

lemma cancelDelayed_ok:
  assumes "dq_inv q"
  shows "\<exists>q'. dq_cancelDelayed u q = Some q' \<and> dq_inv q' \<and>
    map_of (dq_callbackData q') = (map_of (dq_callbackData q))(u := None) \<and> set (dq_live q') \<subseteq> set (dq_live q)"
proof (cases "map_of (dq_callbackData q) u")
  case None
  then have "map_of (dq_callbackData q) = (map_of (dq_callbackData q))(u := None)" by auto
  then show ?thesis using None assms by (simp add: dq_cancelDelayed_def)
next
  case (Some cd)
  then have "cd_event cd \<in> set (dq_live q)" using assms by (auto simp: dq_inv_def dest: map_of_SomeD)
  then show ?thesis
    using Some erase_inv [OF assms Some]
    by (auto simp: dq_cancelDelayed_def event_del_def event_free_def dq_erase_def)
qed

lemma put_key_handles:
  "u \<notin> fst ` set m \<Longrightarrow> set (put_key u v m) = insert (u, v) (set m)"
  "u \<notin> fst ` set m \<Longrightarrow> cd_event v \<notin> (cd_event \<circ> snd) ` set m \<Longrightarrow> distinct (map (cd_event \<circ> snd) m) \<Longrightarrow>
   distinct (map (cd_event \<circ> snd) (put_key u v m))"
proof -
  show s: "set (put_key u v m) = insert (u, v) (set m)" if "u \<notin> fst ` set m" for m
    using that by (induction m) (auto split: if_splits)
  show "distinct (map (cd_event \<circ> snd) (put_key u v m))"
    if "u \<notin> fst ` set m" "cd_event v \<notin> (cd_event \<circ> snd) ` set m" "distinct (map (cd_event \<circ> snd) m)"
    using that
  proof (induction m)
    case (Cons e m)
    have "set (put_key u v m) = insert (u, v) (set m)" using Cons.prems by (intro s) simp
    then show ?case using Cons by (cases e) auto
  qed simp
qed

lemma enqueueDelayed_ok:
  assumes inv: "dq_inv q" and fresh: "h \<notin> set (dq_live q)"
  shows "\<exists>q'. dq_enqueueDelayed h now e d u q = Some q' \<and> dq_inv q' \<and>
    map_option cd_userData (map_of (dq_callbackData q') u) = Some e \<and>
    (\<forall>v. v \<noteq> u \<longrightarrow> map_of (dq_callbackData q') v = map_of (dq_callbackData q) v)"
proof -
  obtain q1 where q1: "(if map_of (dq_callbackData q) u \<noteq> None then dq_cancelDelayed u q else Some q) = Some q1"
    and inv1: "dq_inv q1" and m1: "map_of (dq_callbackData q1) = (map_of (dq_callbackData q))(u := None)"
    and l1: "set (dq_live q1) \<subseteq> set (dq_live q)"
  proof (cases "map_of (dq_callbackData q) u")
    case None
    then have "map_of (dq_callbackData q) = (map_of (dq_callbackData q))(u := None)" by auto
    then show thesis using None inv that by simp
  next
    case (Some cd)
    then show thesis using cancelDelayed_ok [OF inv, of u] that by auto
  qed
  have "map_of (dq_callbackData q1) u = None" using m1 by simp
  then have u: "u \<notin> fst ` set (dq_callbackData q1)" by (simp add: map_of_eq_None_iff)
  have h: "h \<notin> (cd_event \<circ> snd) ` set (dq_callbackData q1)"
    using inv1 fresh l1 by (auto simp: dq_inv_def)
  let ?cd = "\<lparr>cd_userData = e, cd_eventUUID = u, cd_event = h, cd_added = now, cd_due = now + d\<rparr>"
  have "dq_inv (q1\<lparr>dq_callbackData := put_key u ?cd (dq_callbackData q1), dq_live := h # dq_live q1\<rparr>)"
    using inv1 u h put_key_handles [OF u, of ?cd] distinct_alist_put [of "dq_callbackData q1" u str_less ?cd]
    by (auto simp: dq_inv_def)
  then show ?thesis using q1 m1 by (auto simp: dq_enqueueDelayed_def)
qed

lemma timer_ok:
  assumes "dq_inv q"
  shows "\<exists>r q'. timer_begin u q = Some (r, q') \<and> dq_inv (timer_end u q') \<and>
    map_of (dq_callbackData (timer_end u q')) = (map_of (dq_callbackData q))(u := None) \<and>
    r = map_option cd_userData (map_of (dq_callbackData q) u)"
proof (cases "map_of (dq_callbackData q) u")
  case None
  then have "dq_erase u q = q" by (simp add: dq_erase_def alist_erase_absent map_of_eq_None_iff)
  moreover have "map_of (dq_callbackData q) = (map_of (dq_callbackData q))(u := None)" using None by auto
  ultimately show ?thesis using None assms by (simp add: timer_begin_def timer_end_def)
next
  case (Some cd)
  then have "cd_event cd \<in> set (dq_live q)" using assms by (auto simp: dq_inv_def dest: map_of_SomeD)
  then show ?thesis
    using Some erase_inv [OF assms Some]
    by (auto simp: timer_begin_def timer_end_def event_free_def dq_erase_def)
qed

lemma cancelAll_ok: "dq_inv q \<Longrightarrow> \<exists>q'. dq_cancelAllDelayed q = Some q' \<and> dq_callbackData q' = [] \<and> dq_inv q'"
proof (induction q rule: dq_cancelAllDelayed.induct)
  case (1 q)
  show ?case
  proof (cases "dq_callbackData q")
    case Nil
    then show ?thesis using "1.prems" by (simp add: dq_cancelAllDelayed.simps [of q])
  next
    case (Cons a m)
    obtain u cd where a: "a = (u, cd)" by (cases a)
    have some: "map_of (dq_callbackData q) u = Some cd" using Cons a by simp
    have live: "cd_event cd \<in> set (dq_live q)" using "1.prems" Cons a by (auto simp: dq_inv_def)
    let ?q2 = "q\<lparr>dq_live := removeAll (cd_event cd) (dq_live q)\<rparr>"
    have "dq_inv (dq_erase u ?q2)" using erase_inv [OF "1.prems" some] .
    moreover have "dq_cancelAllDelayed q = dq_cancelAllDelayed (dq_erase u ?q2)"
      using Cons a live by (simp add: dq_cancelAllDelayed.simps [of q] event_del_def event_free_def)
    ultimately show ?thesis
      using "1.IH" [OF Cons, of u cd q ?q2] a live by (simp add: event_del_def event_free_def)
  qed
qed

subsection \<open>Histories of the delayed queue\<close>

text \<open>The queue as the constructor leaves it, and the states that calls reach when no call overlaps a running
  timer callback.\<close>

definition dq_create :: DelayedQueue where
  "dq_create = \<lparr>bq_queue = [], dq_callbackData = [], dq_live = [], dq_isStarted = True, dq_thread = True\<rparr>"

inductive dq_reach :: "DelayedQueue \<Rightarrow> bool" where
  created: "dq_reach dq_create"
| enqueued: "dq_reach q \<Longrightarrow> h \<notin> set (dq_live q) \<Longrightarrow> dq_enqueueDelayed h now e d u q = Some q' \<Longrightarrow> dq_reach q'"
| cancelled: "dq_reach q \<Longrightarrow> dq_cancelDelayed u q = Some q' \<Longrightarrow> dq_reach q'"
| fired: "dq_reach q \<Longrightarrow> timer_begin u q = Some (r, q') \<Longrightarrow> dq_reach (timer_end u q')"
| all_cancelled: "dq_reach q \<Longrightarrow> dq_cancelAllDelayed q = Some q' \<Longrightarrow> dq_reach q'"

lemma dq_reach_inv: "dq_reach q \<Longrightarrow> dq_inv q"
proof (induction rule: dq_reach.induct)
  case created
  show ?case by (simp add: dq_create_def dq_inv_def)
next
  case (enqueued q h now e d u q')
  then show ?case using enqueueDelayed_ok [of q h now e d u] by auto
next
  case (cancelled q u q')
  then show ?case using cancelDelayed_ok [of q u] by auto
next
  case (fired q u r q')
  then show ?case using timer_ok [of q u] by auto
next
  case (all_cancelled q q')
  then show ?case using cancelAll_ok [of q] by auto
qed

lemma bq_entries_array:
  "\<forall>j \<in> fst ` set (array_of (data_at d ''BasicEventQueue'')). j < i \<Longrightarrow>
   map snd (array_of (data_at (bq_entries i es d) ''BasicEventQueue'')) =
     map snd (array_of (data_at d ''BasicEventQueue'')) @ map edata es \<and>
   hasKey (bq_entries i es d) ''BasicEventQueue'' = (es \<noteq> [] \<or> hasKey d ''BasicEventQueue'')"
proof (induction i es d rule: bq_entries.induct)
  case (2 i e es d)
  have a: "array_of (put_item i (edata e) (data_at d ''BasicEventQueue'')) =
      array_of (data_at d ''BasicEventQueue'') @ [(i, edata e)]"
    using put_index_append [OF "2.prems"] by simp
  then have "\<forall>j \<in> fst ` set (array_of (put_item i (edata e) (data_at d ''BasicEventQueue''))). j < i + 1"
    using "2.prems" by auto
  then show ?case using "2.IH" a by simp
qed simp

subsection \<open>Properties\<close>

text \<open>
  C11. The queue is first in, first out under every sequence of \<open>enqueue\<close> and \<open>dequeue(0)\<close> calls: the
  delivered events followed by the events still queued are the events queued at the start followed
  by the events enqueued, so nothing is lost, duplicated or reordered.
\<close>

theorem queue_fifo:
  assumes "\<forall>e \<in> set (bq_queue q) \<union> set (bq.inputs ops). event_valid e"
  shows "fst (bq.run ops q) @ bq_queue (snd (bq.run ops q)) = bq_queue q @ bq.inputs ops"
  using assms by (rule bq.fifo)

theorem queue_fifo_witness:
  "let ops = [Enq (Event_named ''a'' INTERNAL), Enq (Event_named ''b'' INTERNAL), Deq]
   in fst (bq.run ops bq_create) @ bq_queue (snd (bq.run ops bq_create)) = bq_queue bq_create @ bq.inputs ops"
  unfolding Let_def by (rule queue_fifo) (simp add: bq_create_def Event_named_def event_valid_def)

text \<open>
  Restoring a saved queue restores neither the events nor their names: every event comes back
  as what \<open>Event::fromData\<close> reads from the event's own data, so its name is the \<open>name\<close> entry of that
  data, if there is one.
\<close>

theorem queue_serialize_names:
  "bq_queue (bq_deserialize uid (bq_serialize q) bq_create) = map (\<lambda>e. fromData uid (edata e)) (bq_queue q) \<and>
   map ename (bq_queue (bq_deserialize uid (bq_serialize q) bq_create)) =
     map (\<lambda>e. if hasKey (edata e) ''name'' then atom (data_at (edata e) ''name'') else []) (bq_queue q)"
proof -
  have "map snd (array_of (data_at (bq_serialize q) ''BasicEventQueue'')) = map edata (bq_queue q)"
    and "hasKey (bq_serialize q) ''BasicEventQueue'' = (bq_queue q \<noteq> [])"
    using bq_entries_array [of Data_empty 0 "bq_queue q"] by (simp_all add: bq_serialize_def)
  moreover have "map (\<lambda>x. fromData uid (snd x)) xs = map (fromData uid) (map snd xs)" for xs :: "(int \<times> data) list"
    by simp
  ultimately have "bq_queue (bq_deserialize uid (bq_serialize q) bq_create) =
      map (\<lambda>e. fromData uid (edata e)) (bq_queue q)"
    by (simp add: bq_deserialize_def bq_create_def del: map_map) simp
  then show ?thesis by (simp add: fromData_def key_atom_def)
qed

text \<open>
  C12. As long as no call overlaps a running timer callback, the delayed queue never touches a freed
  timer, whatever events are enqueued, cancelled and fired; and an event that was cancelled is not
  delivered by its timer any more.
\<close>

theorem delayed_queue_safe:
  assumes "dq_reach q"
  shows "(\<forall>h now e d u. h \<notin> set (dq_live q) \<longrightarrow> dq_enqueueDelayed h now e d u q \<noteq> None) \<and>
    dq_cancelAllDelayed q \<noteq> None \<and> timer_begin u q \<noteq> None \<and>
    (\<exists>q'. dq_cancelDelayed u q = Some q' \<and> timer_begin u q' = Some (None, q') \<and>
      (\<forall>v. v \<noteq> u \<longrightarrow> map_of (dq_callbackData q') v = map_of (dq_callbackData q) v))"
proof -
  have inv: "dq_inv q" by (rule dq_reach_inv [OF assms])
  obtain q' where "dq_cancelDelayed u q = Some q'"
    and "map_of (dq_callbackData q') = (map_of (dq_callbackData q))(u := None)"
    using cancelDelayed_ok [OF inv] by blast
  moreover from this have "timer_begin u q' = Some (None, q')" by (simp add: timer_begin_def)
  moreover have "\<forall>h now e d u. h \<notin> set (dq_live q) \<longrightarrow> dq_enqueueDelayed h now e d u q \<noteq> None"
  proof (intro allI impI)
    fix h now e d u
    assume "h \<notin> set (dq_live q)"
    from enqueueDelayed_ok [OF inv this] show "dq_enqueueDelayed h now e d u q \<noteq> None"
      by (metis option.distinct(1))
  qed
  moreover have "dq_cancelAllDelayed q \<noteq> None" using cancelAll_ok [OF inv] by auto
  moreover have "timer_begin u q \<noteq> None" using timer_ok [OF inv, of u] by auto
  ultimately show ?thesis by (metis fun_upd_other)
qed

definition one_timer :: DelayedQueue where
  "one_timer = the (dq_enqueueDelayed 1 0 (Event_named ''tick'' EXTERNAL) 500 ''u1'' dq_create)"

lemma one_timer_reach: "dq_reach one_timer"
  by (rule dq_reach.enqueued [OF dq_reach.created, of 1 0 "Event_named ''tick'' EXTERNAL" 500 "''u1''"])
     (simp_all add: dq_create_def one_timer_def dq_enqueueDelayed_def)

theorem delayed_queue_safe_witness: "timer_begin ''u1'' one_timer \<noteq> None"
  using delayed_queue_safe [OF one_timer_reach, of "''u1''"] by blast

text \<open>
  A cancellation that another thread makes while the timer callback delivers the event finds the
  entry still in the table and touches the timer that the callback has already freed.
\<close>

theorem cancel_during_callback_uses_freed_timer:
  assumes "dq_reach q" and "timer_begin u q = Some (Some e, q1)"
  shows "dq_cancelDelayed u q1 = None"
  using assms(2)
  by (auto simp: timer_begin_def dq_cancelDelayed_def event_free_def event_del_def split: option.splits if_splits)

theorem cancel_during_callback_uses_freed_timer_witness:
  "dq_cancelDelayed ''u1'' (one_timer\<lparr>dq_live := []\<rparr>) = None"
proof (rule cancel_during_callback_uses_freed_timer [OF one_timer_reach])
  show "timer_begin ''u1'' one_timer = Some (Some (Event_named ''tick'' EXTERNAL), one_timer\<lparr>dq_live := []\<rparr>)"
    by (simp add: one_timer_def dq_create_def dq_enqueueDelayed_def timer_begin_def event_free_def)
qed

lemma timer_queue:
  "event_free h q = Some q' \<Longrightarrow> bq_queue q' = bq_queue q" "event_del h q = Some q' \<Longrightarrow> bq_queue q' = bq_queue q"
  "bq_queue (dq_erase u q) = bq_queue q"
  by (auto simp: event_free_def event_del_def dq_erase_def split: if_splits)

lemma cancelDelayed_queue: "dq_cancelDelayed u q = Some q' \<Longrightarrow> bq_queue q' = bq_queue q"
  by (auto simp: dq_cancelDelayed_def bind_eq_Some_conv timer_queue split: option.splits)

lemma enqueueDelayed_queue: "dq_enqueueDelayed h now e d u q = Some q' \<Longrightarrow> bq_queue q' = bq_queue q"
  by (auto simp: dq_enqueueDelayed_def cancelDelayed_queue split: if_splits)

lemma cancelAll_queue: "dq_cancelAllDelayed q = Some q' \<Longrightarrow> bq_queue q' = bq_queue q"
proof (induction q rule: dq_cancelAllDelayed.induct)
  case (1 q)
  show ?case
  proof (cases "dq_callbackData q")
    case Nil
    then show ?thesis using "1.prems" by (simp add: dq_cancelAllDelayed.simps [of q])
  next
    case (Cons a m)
    obtain u cd where a: "a = (u, cd)" by (cases a)
    obtain q1 q2 where q: "event_del (cd_event cd) q = Some q1" "event_free (cd_event cd) q1 = Some q2"
      "dq_cancelAllDelayed (dq_erase u q2) = Some q'"
      using "1.prems" Cons a by (auto simp: dq_cancelAllDelayed.simps [of q] bind_eq_Some_conv)
    from "1.IH" [OF Cons a [symmetric] q] timer_queue q(1,2) show ?thesis by simp
  qed
qed

lemma dq_reach_queue: "dq_reach q \<Longrightarrow> bq_queue q = []"
proof (induction rule: dq_reach.induct)
  case (fired q u r q')
  then show ?case by (auto simp: timer_begin_def timer_end_def timer_queue split: option.splits)
qed (simp_all add: dq_create_def cancelDelayed_queue enqueueDelayed_queue cancelAll_queue)

text \<open>
  Saving a delayed queue keeps none of the pending timers: events enqueued with a delay are not in
  the list that \<open>serialize\<close> writes.
\<close>

theorem delayed_events_not_saved:
  assumes "dq_reach q"
  shows "fst (dq_serialize junk q) = Data_empty"
  using dq_reach_queue [OF assms] by (simp add: dq_serialize_def Let_def)

theorem delayed_events_not_saved_witness: "fst (dq_serialize 0 one_timer) = Data_empty"
  by (rule delayed_events_not_saved [OF one_timer_reach])

end
