(* ===== verification/Base64.thy ===== *)
theory Base64
  imports Prelude
begin

text \<open>
  The Base64 codec of \<open>src/src/uscxml/util/Base64.c\<close> (libb64) and its wrappers in
  \<open>Base64.hpp\<close>. A C \<open>char\<close> is an 8-bit word; the masks and shifts work on its low 8 bits, so the
  sign of \<open>char\<close> plays no role there. Both directions are resumable state machines: the encoder
  state is the step and the bits carried over, the decoder state the step and the byte under
  construction. The lemmas show that decoding inverts encoding for every byte string, line breaks
  and padding included, and that the encoder stays within the buffer the wrapper allocates.
\<close>

unbundle bit_operations_syntax

type_synonym byte = "8 word"

subsection \<open>Code values\<close>

definition encoding :: "byte list" where
  "encoding = map (\<lambda>c. of_nat (of_char c))
     ''ABCDEFGHIJKLMNOPQRSTUVWXYZabcdefghijklmnopqrstuvwxyz0123456789+/''"

definition base64_encode_value :: "byte \<Rightarrow> byte" where
  "base64_encode_value value_in = (if 63 < sint value_in then 61 else encoding ! unat value_in)"

definition decoding :: "int list" where
  "decoding = [62,-1,-1,-1,63,52,53,54,55,56,57,58,59,60,61,-1,-1,-1,-2,-1,-1,-1,
     0,1,2,3,4,5,6,7,8,9,10,11,12,13,14,15,16,17,18,19,20,21,22,23,24,25,-1,-1,-1,-1,-1,-1,
     26,27,28,29,30,31,32,33,34,35,36,37,38,39,40,41,42,43,44,45,46,47,48,49,50,51]"

text \<open>
  The bound check is \<open>value_in > decoding_size\<close>, so the index 80 passes and reads one element past
  the table: that read is \<open>None\<close>.
\<close>

definition base64_decode_value :: "byte \<Rightarrow> int option" where
  "base64_decode_value value_in =
    (let v = sint (value_in - 43) in
     if v < 0 \<or> v > int (length decoding) then Some (-1)
     else if nat v < length decoding then Some (decoding ! nat v) else None)"

subsection \<open>Encoder\<close>

datatype encodestep = step_A | step_B | step_C

record encodestate =
  enc_step :: encodestep
  enc_result :: byte
  enc_stepcount :: nat

definition base64_init_encodestate :: encodestate where
  "base64_init_encodestate = \<lparr>enc_step = step_A, enc_result = 0, enc_stepcount = 0\<rparr>"

definition CHARS_PER_LINE :: nat where "CHARS_PER_LINE = 72"

fun base64_encode_block :: "byte list \<Rightarrow> encodestate \<Rightarrow> byte list \<times> encodestate" where
  "base64_encode_block [] st = ([], st)"
| "base64_encode_block (fragment # plain) st =
    (case enc_step st of
       step_A \<Rightarrow>
         (let (out, st') = base64_encode_block plain
                (st\<lparr>enc_step := step_B, enc_result := push_bit 4 (fragment AND 0x03)\<rparr>)
          in (base64_encode_value (drop_bit 2 (fragment AND 0xFC)) # out, st'))
     | step_B \<Rightarrow>
         (let (out, st') = base64_encode_block plain
                (st\<lparr>enc_step := step_C, enc_result := push_bit 2 (fragment AND 0x0F)\<rparr>)
          in (base64_encode_value (enc_result st OR drop_bit 4 (fragment AND 0xF0)) # out, st'))
     | step_C \<Rightarrow>
         (let newline = (Suc (enc_stepcount st) = CHARS_PER_LINE div 4);
              (out, st') = base64_encode_block plain
                (st\<lparr>enc_step := step_A, enc_result := fragment AND 0x3F,
                    enc_stepcount := (if newline then 0 else Suc (enc_stepcount st))\<rparr>)
          in (base64_encode_value (enc_result st OR drop_bit 6 (fragment AND 0xC0)) #
              base64_encode_value (fragment AND 0x3F) #
              (if newline then [10] else []) @ out, st')))"

definition base64_encode_blockend :: "encodestate \<Rightarrow> byte list" where
  "base64_encode_blockend st =
    (case enc_step st of
       step_B \<Rightarrow> [base64_encode_value (enc_result st), 61, 61, 10]
     | step_C \<Rightarrow> [base64_encode_value (enc_result st), 61, 10]
     | step_A \<Rightarrow> [10])"

definition base64Encode :: "byte list \<Rightarrow> bool \<Rightarrow> byte list" where
  "base64Encode data withBlockEnd =
    (let (out, st) = base64_encode_block data base64_init_encodestate
     in if withBlockEnd then butlast (out @ base64_encode_blockend st) else out)"

subsection \<open>Decoder\<close>

datatype decodestep = step_a | step_b | step_c | step_d

text \<open>
  \<open>dec_plainchar\<close> is the byte at the output pointer. After \<open>step_d\<close> the pointer moves to a byte
  that is not written before the next \<open>step_a\<close> assigns it; its value is immaterial and is 0 here.
\<close>

record decodestate =
  dec_step :: decodestep
  dec_plainchar :: byte

definition base64_init_decodestate :: decodestate where
  "base64_init_decodestate = \<lparr>dec_step = step_a, dec_plainchar = 0\<rparr>"

fun base64_decode_block :: "byte list \<Rightarrow> decodestate \<Rightarrow> (byte list \<times> decodestate) option" where
  "base64_decode_block [] st = Some ([], st)"
| "base64_decode_block (codechar # code) st =
    (case base64_decode_value codechar of
       None \<Rightarrow> None
     | Some value \<Rightarrow>
         if value < 0 then base64_decode_block code st
         else
           (let fragment = word_of_int value :: byte; plainchar = dec_plainchar st in
            case dec_step st of
              step_a \<Rightarrow> base64_decode_block code
                \<lparr>dec_step = step_b, dec_plainchar = push_bit 2 (fragment AND 0x3F)\<rparr>
            | step_b \<Rightarrow> map_option (\<lambda>(out, st'). ((plainchar OR drop_bit 4 (fragment AND 0x30)) # out, st'))
                (base64_decode_block code
                  \<lparr>dec_step = step_c, dec_plainchar = push_bit 4 (fragment AND 0x0F)\<rparr>)
            | step_c \<Rightarrow> map_option (\<lambda>(out, st'). ((plainchar OR drop_bit 2 (fragment AND 0x3C)) # out, st'))
                (base64_decode_block code
                  \<lparr>dec_step = step_d, dec_plainchar = push_bit 6 (fragment AND 0x03)\<rparr>)
            | step_d \<Rightarrow> map_option (\<lambda>(out, st'). ((plainchar OR (fragment AND 0x3F)) # out, st'))
                (base64_decode_block code \<lparr>dec_step = step_a, dec_plainchar = 0\<rparr>)))"

definition base64Decode :: "byte list \<Rightarrow> byte list option" where
  "base64Decode data = map_option fst (base64_decode_block data base64_init_decodestate)"

subsection \<open>Decoding inverts encoding\<close>


lemma encoding_eq: "encoding = [65,66,67,68,69,70,71,72,73,74,75,76,77,78,79,80,81,82,83,84,85,86,87,88,89,90,
  97,98,99,100,101,102,103,104,105,106,107,108,109,110,111,112,113,114,115,116,117,118,119,120,121,122,
  48,49,50,51,52,53,54,55,56,57,43,47]"
  by (simp add: encoding_def)

lemma upt64: "[0..<64] = [0,1,2,3,4,5,6,7,8,9,10,11,12,13,14,15,16,17,18,19,20,21,22,23,24,25,26,27,28,29,30,31,32,33,34,35,36,37,38,39,40,41,42,43,44,45,46,47,48,49,50,51,52,53,54,55,56,57,58,59,60,61,62,63]"
  by (simp add: upt_rec)

lemma decode_encode_all:
  "list_all (\<lambda>n. base64_decode_value (base64_encode_value (of_nat n)) = Some (int n)) [0..<64]"
  unfolding upt64 by (simp add: base64_encode_value_def base64_decode_value_def encoding_eq decoding_def)



lemma decode_encode_value:
  assumes "v AND 0x3F = v"
  shows "base64_decode_value (base64_encode_value v) = Some (uint v)"
proof -
  have "v \<le> 0x3F" using assms by (metis word_and_le1)
  then have "unat v < 64" by (simp add: word_le_nat_alt)
  then have "unat v \<in> set [0..<64]" by simp
  with decode_encode_all
  have "base64_decode_value (base64_encode_value (of_nat (unat v))) = Some (int (unat v))"
    unfolding list_all_iff by blast
  then show ?thesis by simp
qed

lemma byte_eqI: "(\<And>n. n \<in> {0,1,2,3,4,5,6,7} \<Longrightarrow> bit a n = bit b n) \<Longrightarrow> a = (b :: byte)"
  by (rule bit_word_eqI) (auto simp: less_Suc_eq numeral_eq_Suc)


text \<open>
  The sextets the encoder emits for a byte \<open>c\<close> followed by \<open>d\<close>, the bits it carries over, and how
  the decoder reassembles the bytes from them.
\<close>

definition sext_A :: "byte \<Rightarrow> byte" where "sext_A c = drop_bit 2 (c AND 0xFC)"
definition carry_B :: "byte \<Rightarrow> byte" where "carry_B c = push_bit 4 (c AND 0x03)"
definition sext_B :: "byte \<Rightarrow> byte \<Rightarrow> byte" where "sext_B r d = r OR drop_bit 4 (d AND 0xF0)"
definition carry_C :: "byte \<Rightarrow> byte" where "carry_C c = push_bit 2 (c AND 0x0F)"
definition sext_C :: "byte \<Rightarrow> byte \<Rightarrow> byte" where "sext_C r d = r OR drop_bit 6 (d AND 0xC0)"
definition sext_D :: "byte \<Rightarrow> byte" where "sext_D c = c AND 0x3F"

definition is_sextet :: "byte \<Rightarrow> bool" where "is_sextet v \<longleftrightarrow> v AND 0x3F = v"

lemmas sext_defs = sext_A_def carry_B_def sext_B_def carry_C_def sext_C_def sext_D_def is_sextet_def
lemmas bit_nums = numeral_2_eq_2 numeral_3_eq_3

lemma sextets:
  "is_sextet (sext_A c)" "is_sextet (sext_B (carry_B c) d)" "is_sextet (sext_C (carry_C c) d)"
  "is_sextet (sext_D c)" "is_sextet (carry_B c)" "is_sextet (carry_C c)"
  unfolding sext_defs by (rule byte_eqI, auto simp: bit_simps)+

lemma reassemble:
  "(c AND 0xFC) OR drop_bit 4 (sext_B (carry_B c) d AND 0x30) = c"
  "push_bit 4 (sext_B (carry_B c) d AND 0x0F) = d AND 0xF0"
  "(c AND 0xF0) OR drop_bit 2 (sext_C (carry_C c) d AND 0x3C) = c"
  "push_bit 6 (sext_C (carry_C c) d AND 0x03) = d AND 0xC0"
  "(c AND 0xC0) OR (sext_D c AND 0x3F) = c"
  "(c AND 0xFC) OR drop_bit 4 (carry_B c AND 0x30) = c"
  "(c AND 0xF0) OR drop_bit 2 (carry_C c AND 0x3C) = c"
  unfolding sext_defs by (rule byte_eqI, auto simp: bit_simps)+

lemma reassemble_A: "push_bit 2 (sext_A c AND 0x3F) = c AND 0xFC"
  unfolding sext_defs by (rule byte_eqI) (auto simp: bit_simps, simp_all add: bit_nums)

lemma decode_skip: "base64_decode_value 10 = Some (-1)" "base64_decode_value 61 = Some (-2)"
  by (simp_all add: base64_decode_value_def decoding_def)

text \<open>One byte through the encoder, one code character through the decoder.\<close>

lemma encode_block_Cons:
  "base64_encode_block (c # bs) \<lparr>enc_step = step_A, enc_result = r, enc_stepcount = k\<rparr> =
     apfst (\<lambda>out. base64_encode_value (sext_A c) # out)
       (base64_encode_block bs \<lparr>enc_step = step_B, enc_result = carry_B c, enc_stepcount = k\<rparr>)"
  "base64_encode_block (c # bs) \<lparr>enc_step = step_B, enc_result = r, enc_stepcount = k\<rparr> =
     apfst (\<lambda>out. base64_encode_value (sext_B r c) # out)
       (base64_encode_block bs \<lparr>enc_step = step_C, enc_result = carry_C c, enc_stepcount = k\<rparr>)"
  "base64_encode_block (c # bs) \<lparr>enc_step = step_C, enc_result = r, enc_stepcount = k\<rparr> =
     (let nl = (Suc k = CHARS_PER_LINE div 4) in
      apfst (\<lambda>out. base64_encode_value (sext_C r c) # base64_encode_value (sext_D c) #
            (if nl then [10] else []) @ out)
       (base64_encode_block bs \<lparr>enc_step = step_A, enc_result = sext_D c,
          enc_stepcount = if nl then 0 else Suc k\<rparr>))"
  by (simp_all add: sext_defs Let_def apfst_def map_prod_def split: prod.split)

lemma decode_block_sextet:
  assumes "is_sextet v"
  shows "base64_decode_block (base64_encode_value v # code) \<lparr>dec_step = s, dec_plainchar = p\<rparr> =
    (case s of
       step_a \<Rightarrow> base64_decode_block code \<lparr>dec_step = step_b, dec_plainchar = push_bit 2 (v AND 0x3F)\<rparr>
     | step_b \<Rightarrow> map_option (\<lambda>(out, st'). ((p OR drop_bit 4 (v AND 0x30)) # out, st'))
         (base64_decode_block code \<lparr>dec_step = step_c, dec_plainchar = push_bit 4 (v AND 0x0F)\<rparr>)
     | step_c \<Rightarrow> map_option (\<lambda>(out, st'). ((p OR drop_bit 2 (v AND 0x3C)) # out, st'))
         (base64_decode_block code \<lparr>dec_step = step_d, dec_plainchar = push_bit 6 (v AND 0x03)\<rparr>)
     | step_d \<Rightarrow> map_option (\<lambda>(out, st'). ((p OR (v AND 0x3F)) # out, st'))
         (base64_decode_block code \<lparr>dec_step = step_a, dec_plainchar = 0\<rparr>))"
  using decode_encode_value [of v] assms
  by (simp add: is_sextet_def Let_def split: decodestep.split)

abbreviation decoded :: "byte list \<Rightarrow> decodestep \<Rightarrow> byte \<Rightarrow> byte list option" where
  "decoded code s p \<equiv> map_option fst (base64_decode_block code \<lparr>dec_step = s, dec_plainchar = p\<rparr>)"

lemma map_option_fst_Cons:
  "map_option fst (map_option (\<lambda>(out, st'). (b # out, st')) r) = map_option ((#) b) (map_option fst r)"
  by (cases r) auto

lemma decoded_sextet:
  assumes "is_sextet v"
  shows "decoded (base64_encode_value v # code) step_a p = decoded code step_b (push_bit 2 (v AND 0x3F))"
    and "decoded (base64_encode_value v # code) step_b p =
           map_option ((#) (p OR drop_bit 4 (v AND 0x30))) (decoded code step_c (push_bit 4 (v AND 0x0F)))"
    and "decoded (base64_encode_value v # code) step_c p =
           map_option ((#) (p OR drop_bit 2 (v AND 0x3C))) (decoded code step_d (push_bit 6 (v AND 0x03)))"
    and "decoded (base64_encode_value v # code) step_d p =
           map_option ((#) (p OR (v AND 0x3F))) (decoded code step_a 0)"
  unfolding decode_block_sextet [OF assms] decodestep.case map_option_fst_Cons by (rule refl)+

lemma decoded_skip:
  "decoded (10 # code) s p = decoded code s p" "decoded (61 # code) s p = decoded code s p"
  "decoded [] s p = Some []"
  by (simp_all add: decode_skip)

definition finish :: "byte list \<times> encodestate \<Rightarrow> byte list" where
  "finish r = fst r @ butlast (base64_encode_blockend (snd r))"

lemma finish_Cons:
  "finish (apfst (\<lambda>out. x # out) r) = x # finish r"
  "finish (apfst (\<lambda>out. x # y # out) r) = x # y # finish r"
  "finish (apfst (\<lambda>out. x # y # z # out) r) = x # y # z # finish r"
  by (simp_all add: finish_def)

lemma decode_encode_steps:
  "decoded (finish (base64_encode_block bs \<lparr>enc_step = step_A, enc_result = r, enc_stepcount = k\<rparr>))
     step_a p = Some bs"
  "decoded (finish (base64_encode_block bs \<lparr>enc_step = step_B, enc_result = carry_B c, enc_stepcount = k\<rparr>))
     step_b (c AND 0xFC) = Some (c # bs)"
  "decoded (finish (base64_encode_block bs \<lparr>enc_step = step_C, enc_result = carry_C c, enc_stepcount = k\<rparr>))
     step_c (c AND 0xF0) = Some (c # bs)"
proof (induction bs arbitrary: c r k p)
  case Nil
  { case 1 show ?case by (simp add: finish_def base64_encode_blockend_def) }
  { case 2 show ?case unfolding finish_def base64_encode_block.simps base64_encode_blockend_def
      by (simp only: fst_conv snd_conv encodestate.simps encodestep.case butlast.simps append_Nil if_True simp_thms if_False list.distinct
          decoded_sextet sextets reassemble reassemble_A decoded_skip option.map) }
  { case 3 show ?case unfolding finish_def base64_encode_block.simps base64_encode_blockend_def
      by (simp only: fst_conv snd_conv encodestate.simps encodestep.case butlast.simps append_Nil if_True simp_thms if_False list.distinct
          decoded_sextet sextets reassemble reassemble_A decoded_skip option.map) }
next
  case (Cons b bs)
  { case 1 show ?case
      by (simp only: encode_block_Cons finish_Cons decoded_sextet sextets reassemble reassemble_A Cons.IH) }
  { case 2 show ?case
      by (simp only: encode_block_Cons finish_Cons decoded_sextet sextets reassemble reassemble_A Cons.IH option.map) }
  { case 3 show ?case
      by (cases "Suc k = CHARS_PER_LINE div 4")
        (simp_all only: encode_block_Cons finish_Cons decoded_sextet sextets reassemble Let_def
          if_True if_False simp_thms append_Nil append_Cons decoded_skip Cons.IH option.map) }
qed

lemma base64Encode_finish:
  "base64Encode bs True = finish (base64_encode_block bs base64_init_encodestate)"
  by (simp add: base64Encode_def finish_def base64_encode_blockend_def butlast_append
      split: prod.split encodestep.split)

text \<open>Every byte string survives encoding and decoding, line breaks and padding included.\<close>

lemma base64_roundtrip: "base64Decode (base64Encode bs True) = Some bs"
  unfolding base64Decode_def base64Encode_finish base64_init_encodestate_def base64_init_decodestate_def
  by (rule decode_encode_steps(1))

subsection \<open>Buffer bounds\<close>

text \<open>
  The amortised length of the output: 72 code characters and a line break for 54 bytes. What the
  encoder owes in each step is \<open>slack\<close>.
\<close>

fun slack :: "encodestep \<Rightarrow> nat" where
  "slack step_A = 0" | "slack step_B = 19" | "slack step_C = 38"

lemma encode_block_length:
  "k < 18 \<Longrightarrow>
     54 * length (fst (base64_encode_block bs \<lparr>enc_step = s, enc_result = r, enc_stepcount = k\<rparr>))
     \<le> 73 * length bs + 3 * k + slack s"
proof (induction bs arbitrary: s r k)
  case (Cons b bs)
  show ?case
  proof (cases s)
    case step_A
    with Cons.IH [OF Cons.prems, of step_B "carry_B b"] show ?thesis
      by (simp only: encode_block_Cons) simp
  next
    case step_B
    with Cons.IH [OF Cons.prems, of step_C "carry_C b"] show ?thesis
      by (simp only: encode_block_Cons) simp
  next
    case step_C
    show ?thesis
    proof (cases "Suc k = 18")
      case True
      then show ?thesis
        using step_C Cons.IH [of 0 step_A "sext_D b"]
        by (simp only: encode_block_Cons) (simp add: CHARS_PER_LINE_def)
    next
      case False
      then show ?thesis
        using step_C Cons.prems Cons.IH [of "Suc k" step_A "sext_D b"]
        by (simp only: encode_block_Cons) (simp add: CHARS_PER_LINE_def)
    qed
  qed
qed simp

lemma blockend_length: "length (base64_encode_blockend st) \<le> 4"
  by (simp add: base64_encode_blockend_def split: encodestep.split)

subsection \<open>Properties\<close>

text \<open>C10. Every byte string survives encoding and decoding, line breaks and padding included.\<close>

theorem base64_codec_roundtrip: "base64Decode (base64Encode bs True) = Some bs"
  by (rule base64_roundtrip)

text \<open>
  The encoder never writes past the \<open>len * 1.4 + 814\<close> bytes that \<open>base64Encode\<close> allocates, the
  line break that is dropped afterwards included.
\<close>

theorem base64_encode_fits:
  "5 * length (fst (base64_encode_block bs base64_init_encodestate) @
      base64_encode_blockend (snd (base64_encode_block bs base64_init_encodestate)))
    \<le> 7 * length bs + 5 * 814"
  using encode_block_length [of 0 bs step_A 0]
    blockend_length [of "snd (base64_encode_block bs base64_init_encodestate)"]
  by (simp add: base64_init_encodestate_def)

end
