(* ===== verification/Bitset.thy ===== *)
theory Bitset
  imports Base64
begin

text \<open>
  \<open>boost::dynamic_bitset\<close> as the micro stepper uses it (the macros at the top of
  \<open>src/src/uscxml/interpreter/FastMicroStep.cpp\<close>): a bitset of a fixed size is a list of booleans.
  Reading or writing past the end and combining bitsets of different sizes is an assertion failure
  of the library; the operations here keep the size of their first operand and read \<open>False\<close> past
  the end. \<open>bset\<close> reads a bitset as the set of its indices, and \<open>bset_simps\<close> rewrites every
  operation to the operation on sets. A loop over \<open>find_first\<close> and \<open>find_next\<close> is \<open>bits_loop\<close>; it
  visits the indices that are set at the time the loop reaches them.
\<close>

type_synonym bitset = "bool list"

subsection \<open>Operations\<close>

definition bits_none :: "nat \<Rightarrow> bitset" where
  "bits_none n = replicate n False"

definition BIT_HAS :: "nat \<Rightarrow> bitset \<Rightarrow> bool" where
  "BIT_HAS i b = (i < length b \<and> b ! i)"

definition BIT_SET_AT :: "nat \<Rightarrow> bitset \<Rightarrow> bitset" where
  "BIT_SET_AT i b = b[i := True]"

definition BIT_CLEAR :: "nat \<Rightarrow> bitset \<Rightarrow> bitset" where
  "BIT_CLEAR i b = b[i := False]"

definition BIT_ANY_SET :: "bitset \<Rightarrow> bool" where
  "BIT_ANY_SET b = list_ex (\<lambda>x. x) b"

definition BIT_HAS_AND :: "bitset \<Rightarrow> bitset \<Rightarrow> bool" where
  "BIT_HAS_AND a b = list_ex (\<lambda>i. a ! i \<and> BIT_HAS i b) [0..<length a]"

definition bits_op :: "(bool \<Rightarrow> bool \<Rightarrow> bool) \<Rightarrow> bitset \<Rightarrow> bitset \<Rightarrow> bitset" where
  "bits_op f a b = map (\<lambda>i. f (a ! i) (BIT_HAS i b)) [0..<length a]"

definition bits_or :: "bitset \<Rightarrow> bitset \<Rightarrow> bitset" where "bits_or = bits_op (\<lambda>x y. x \<or> y)"
definition bits_and :: "bitset \<Rightarrow> bitset \<Rightarrow> bitset" where "bits_and = bits_op (\<lambda>x y. x \<and> y)"
definition bits_diff :: "bitset \<Rightarrow> bitset \<Rightarrow> bitset" where "bits_diff = bits_op (\<lambda>x y. x \<and> \<not> y)"
definition bits_xor :: "bitset \<Rightarrow> bitset \<Rightarrow> bitset" where "bits_xor = bits_op (\<lambda>x y. x \<noteq> y)"

definition bits_count :: "bitset \<Rightarrow> nat" where
  "bits_count b = length (filter (\<lambda>x. x) b)"

definition find_next_from :: "nat \<Rightarrow> bitset \<Rightarrow> nat \<Rightarrow> nat option" where
  "find_next_from n b i = List.find (\<lambda>j. BIT_HAS j b) [i..<n]"

definition find_first :: "nat \<Rightarrow> bitset \<Rightarrow> nat option" where
  "find_first n b = find_next_from n b 0"

definition find_next :: "nat \<Rightarrow> bitset \<Rightarrow> nat \<Rightarrow> nat option" where
  "find_next n b i = find_next_from n b (Suc i)"

text \<open>\<open>while (i != npos) { body; i = b.find_next(i); }\<close> over a bitset of size \<open>n\<close> that the body may change.\<close>

lemma find_next_bounds: "find_next n b i = Some j \<Longrightarrow> i < j \<and> j < n"
  by (auto simp: find_next_def find_next_from_def find_Some_iff simp del: upt_Suc)

function bits_loop :: "nat \<Rightarrow> ('s \<Rightarrow> bitset) \<Rightarrow> (nat \<Rightarrow> 's \<Rightarrow> 's) \<Rightarrow> nat option \<Rightarrow> 's \<Rightarrow> 's" where
  "bits_loop n get body None s = s"
| "bits_loop n get body (Some i) s =
     (let s' = body i s in bits_loop n get body (find_next n (get s') i) s')"
  by pat_completeness auto
termination
proof (relation "measure (\<lambda>(n, get, body, i, s). case i of None \<Rightarrow> 0 | Some j \<Rightarrow> Suc (n - j))", goal_cases)
  case (2 n get body i s s')
  then show ?case
    using find_next_bounds [of n "get s'" i] by (cases "find_next n (get s') i") (fastforce simp: Let_def)+
qed simp

definition while_bits :: "nat \<Rightarrow> ('s \<Rightarrow> bitset) \<Rightarrow> (nat \<Rightarrow> 's \<Rightarrow> 's) \<Rightarrow> 's \<Rightarrow> 's" where
  "while_bits n get body s = bits_loop n get body (find_first n (get s)) s"

subsection \<open>Bitsets as sets of indices\<close>

definition bset :: "bitset \<Rightarrow> nat set" where
  "bset b = {i. BIT_HAS i b}"

lemma BIT_HAS_bset: "BIT_HAS i b \<longleftrightarrow> i \<in> bset b"
  by (simp add: bset_def)

lemma bset_bound: "i \<in> bset b \<Longrightarrow> i < length b"
  by (simp add: bset_def BIT_HAS_def)

lemma finite_bset [simp]: "finite (bset b)"
  by (rule finite_subset [of _ "{..<length b}"]) (auto dest: bset_bound)

lemma length_bits_op [simp]: "length (bits_op f a b) = length a"
  by (simp add: bits_op_def)

lemma length_bits [simp]: "length (bits_or a b) = length a" "length (bits_and a b) = length a"
    "length (bits_diff a b) = length a" "length (bits_xor a b) = length a"
    "length (BIT_SET_AT i b) = length b" "length (BIT_CLEAR i b) = length b" "length (bits_none n) = n"
  by (simp_all add: bits_or_def bits_and_def bits_diff_def bits_xor_def BIT_SET_AT_def BIT_CLEAR_def
      bits_none_def)

lemma BIT_HAS_op: "BIT_HAS i (bits_op f a b) \<longleftrightarrow> i < length a \<and> f (BIT_HAS i a) (BIT_HAS i b)"
  by (auto simp: BIT_HAS_def bits_op_def)

lemma bset_op: "bset (bits_op f a b) = {i. i < length a \<and> f (i \<in> bset a) (i \<in> bset b)}"
  by (simp add: bset_def BIT_HAS_op)

lemma bset_ops [bset_simps]:
  "bset (bits_or a b) = bset a \<union> (bset b \<inter> {..<length a})"
  "bset (bits_and a b) = bset a \<inter> bset b"
  "bset (bits_diff a b) = bset a - bset b"
  by (auto simp: bits_or_def bits_and_def bits_diff_def bset_op dest: bset_bound)

lemma bset_update [bset_simps]:
  "bset (bits_none n) = {}"
  "bset (BIT_SET_AT i b) = (if i < length b then insert i (bset b) else bset b)"
  "bset (BIT_CLEAR i b) = bset b - {i}"
  by (auto simp: bset_def bits_none_def BIT_HAS_def BIT_SET_AT_def BIT_CLEAR_def nth_list_update
      split: if_splits)
     (metis nth_list_update_neq nth_list_update_eq)

lemma BIT_ANY_SET_bset [bset_simps]: "BIT_ANY_SET b \<longleftrightarrow> bset b \<noteq> {}"
  by (simp add: bset_def BIT_ANY_SET_def BIT_HAS_def list_ex_length)

lemma BIT_HAS_AND_bset [bset_simps]: "BIT_HAS_AND a b \<longleftrightarrow> bset a \<inter> bset b \<noteq> {}"
  by (auto simp: bset_def BIT_HAS_AND_def BIT_HAS_def list_ex_iff)

lemma bset_xor: "length a = length b \<Longrightarrow> bset (bits_xor a b) = (bset a - bset b) \<union> (bset b - bset a)"
  by (auto simp: bits_xor_def bset_op dest: bset_bound)

lemma bset_inject: "length a = length b \<Longrightarrow> bset a = bset b \<Longrightarrow> a = b"
  by (rule nth_equalityI) (auto simp: bset_def BIT_HAS_def set_eq_iff)

lemma bset_filter: "set (filter (\<lambda>i. BIT_HAS i b) [0..<length b]) = bset b"
  by (auto simp: BIT_HAS_bset dest: bset_bound)

lemma bits_count_card: "bits_count b = card (bset b)"
proof -
  have "bset b = {i. i < length b \<and> b ! i}" by (simp add: bset_def BIT_HAS_def)
  then show ?thesis by (simp add: bits_count_def length_filter_conv_card)
qed

subsection \<open>Scanning loops\<close>

text \<open>One pass over the indices in ascending order that looks at the current bitset at each index.\<close>

definition visit :: "('s \<Rightarrow> bitset) \<Rightarrow> (nat \<Rightarrow> 's \<Rightarrow> 's) \<Rightarrow> nat \<Rightarrow> 's \<Rightarrow> 's" where
  "visit get body i s = (if BIT_HAS i (get s) then body i s else s)"

lemma find_next_from_Suc:
  "i < n \<Longrightarrow> find_next_from n b i = (if BIT_HAS i b then Some i else find_next_from n b (Suc i))"
  by (simp add: find_next_from_def upt_conv_Cons)

lemma bits_loop_visit:
  "bits_loop n get body (find_next_from n (get s) i) s = fold (visit get body) [i..<n] s"
proof (induction "n - i" arbitrary: i s)
  case 0
  then show ?case by (simp add: find_next_from_def)
next
  case (Suc k)
  then have i: "i < n" by simp
  have IH: "bits_loop n get body (find_next_from n (get s') (Suc i)) s' = fold (visit get body) [Suc i..<n] s'" for s'
    using Suc(2) by (intro Suc(1)) simp
  show ?case
    using i IH by (simp add: find_next_from_Suc upt_conv_Cons visit_def find_next_def Let_def)
qed

lemma while_bits_fold: "while_bits n get body s = fold (visit get body) [0..<n] s"
  by (simp add: while_bits_def find_first_def bits_loop_visit)

lemma while_bits_frame:
  assumes "\<And>i s. get (body i s) = get s"
  shows "while_bits n get body s = fold body (filter (\<lambda>i. BIT_HAS i (get s)) [0..<n]) s"
proof -
  have "fold (visit get body) xs s = fold body (filter (\<lambda>i. BIT_HAS i (get s)) xs) s" for xs s
    by (induction xs arbitrary: s) (simp_all add: visit_def assms)
  then show ?thesis by (simp add: while_bits_fold)
qed

lemma fold_invariant:
  "P s \<Longrightarrow> (\<And>x s. x \<in> set xs \<Longrightarrow> P s \<Longrightarrow> P (f x s)) \<Longrightarrow> P (fold f xs s)"
  by (induction xs arbitrary: s) auto

lemma while_bits_invariant:
  assumes "P s" and "\<And>i s. i < n \<Longrightarrow> P s \<Longrightarrow> BIT_HAS i (get s) \<Longrightarrow> P (body i s)"
  shows "P (while_bits n get body s)"
  unfolding while_bits_fold
  by (rule fold_invariant) (use assms in \<open>auto simp: visit_def\<close>)

end
