(* ===== verification/MicroStep.thy ===== *)
theory MicroStep
  imports Bitset Events
begin

text \<open>
  The micro stepper of \<open>src/src/uscxml/interpreter/FastMicroStep.cpp\<close>: its tables (\<open>State\<close>,
  \<open>Transition\<close>), its mutable state (\<open>ms\<close>), the calls it makes into the interpreter
  (\<open>callbacks\<close>, over an environment \<open>'e\<close>) and \<open>step\<close> with its sections, one definition per labelled
  section of the function. A callback that the code calls inside a \<open>try\<close> with \<open>catch (...)\<close> returns
  the thrown event or \<open>None\<close>, which the code drops; \<open>dequeueExternal\<close> is called without a \<open>try\<close>, and
  what it throws leaves \<open>step\<close>. The other callbacks are taken to return. Callbacks that evaluate
  expressions or executable content receive the \<open>In()\<close> predicate of the current configuration.
\<close>

subsection \<open>Constants\<close>

definition CTX_PRISTINE :: byte where "CTX_PRISTINE = 0x00"
definition CTX_SPONTANEOUS :: byte where "CTX_SPONTANEOUS = 0x01"
definition CTX_INITIALIZED :: byte where "CTX_INITIALIZED = 0x02"
definition CTX_TOP_LEVEL_FINAL :: byte where "CTX_TOP_LEVEL_FINAL = 0x04"
definition CTX_TRANSITION_FOUND :: byte where "CTX_TRANSITION_FOUND = 0x08"
definition CTX_FINISHED :: byte where "CTX_FINISHED = 0x10"
definition CTX_STABLE :: byte where "CTX_STABLE = 0x20"

definition TRANS_SPONTANEOUS :: byte where "TRANS_SPONTANEOUS = 0x01"
definition TRANS_TARGETLESS :: byte where "TRANS_TARGETLESS = 0x02"
definition TRANS_INTERNAL :: byte where "TRANS_INTERNAL = 0x04"
definition TRANS_HISTORY :: byte where "TRANS_HISTORY = 0x08"
definition TRANS_INITIAL :: byte where "TRANS_INITIAL = 0x10"

definition STATE_ATOMIC :: byte where "STATE_ATOMIC = 0x01"
definition STATE_PARALLEL :: byte where "STATE_PARALLEL = 0x02"
definition STATE_COMPOUND :: byte where "STATE_COMPOUND = 0x03"
definition STATE_FINAL :: byte where "STATE_FINAL = 0x04"
definition STATE_HISTORY_DEEP :: byte where "STATE_HISTORY_DEEP = 0x05"
definition STATE_HISTORY_SHALLOW :: byte where "STATE_HISTORY_SHALLOW = 0x06"
definition STATE_INITIAL :: byte where "STATE_INITIAL = 0x07"
definition STATE_HAS_HISTORY :: byte where "STATE_HAS_HISTORY = 0x80"

definition STATE_MASK :: "byte \<Rightarrow> byte" where "STATE_MASK t = t AND 0x7F"

lemmas ctx_defs = CTX_PRISTINE_def CTX_SPONTANEOUS_def CTX_INITIALIZED_def CTX_TOP_LEVEL_FINAL_def
  CTX_TRANSITION_FOUND_def CTX_FINISHED_def CTX_STABLE_def
lemmas trans_type_defs = TRANS_SPONTANEOUS_def TRANS_TARGETLESS_def TRANS_INTERNAL_def TRANS_HISTORY_def
  TRANS_INITIAL_def
lemmas state_type_defs = STATE_ATOMIC_def STATE_PARALLEL_def STATE_COMPOUND_def STATE_FINAL_def
  STATE_HISTORY_DEEP_def STATE_HISTORY_SHALLOW_def STATE_INITIAL_def STATE_HAS_HISTORY_def

definition has_flag :: "byte \<Rightarrow> byte \<Rightarrow> bool" where "has_flag f m = (f AND m \<noteq> 0)"
definition set_flag :: "byte \<Rightarrow> byte \<Rightarrow> byte" where "set_flag m f = f OR m"
definition clear_flag :: "byte \<Rightarrow> byte \<Rightarrow> byte" where "clear_flag m f = f AND NOT m"

subsection \<open>Tables and state\<close>

record Transition =
  t_element :: node
  t_conflicts :: bitset
  t_exitSet :: bitset
  t_source :: nat
  t_target :: bitset
  t_onTrans :: "node option"
  t_event :: string
  t_cond :: string
  t_type :: byte

record State =
  s_element :: node
  s_completion :: bitset
  s_children :: bitset
  s_ancestors :: bitset
  s_parent :: nat
  s_documentOrder :: nat
  s_data :: "node list"
  s_invoke :: "node list"
  s_onEntry :: "node list"
  s_onExit :: "node list"
  s_doneData :: "node option"
  s_type :: byte

record tables =
  t_states :: "State list"
  t_transitions :: "Transition list"
  t_stateIds :: "(string \<times> nat) list"

record ms =
  m_flags :: byte
  m_configuration :: bitset
  m_invocations :: bitset
  m_history :: bitset
  m_initializedData :: bitset
  m_microstepConfigurations :: "bitset list"
  m_isInitialized :: bool
  m_isCancelled :: bool
  m_event :: Event

datatype InterpreterState = USCXML_FINISHED | USCXML_UNDEF | USCXML_IDLE | USCXML_INITIALIZED
  | USCXML_INSTANTIATED | USCXML_MICROSTEPPED | USCXML_MACROSTEPPED | USCXML_CANCELLED

text \<open>The notifications of the monitor macros.\<close>

datatype notification =
    beforeCompletion | afterCompletion | beforeMicroStep | afterMicroStep | onStableConfiguration
  | beforeProcessingEvent Event
  | beforeExitingState node | afterExitingState node
  | beforeEnteringState node | afterEnteringState node
  | beforeTakingTransition node | afterTakingTransition node
  | reportIssue string

record 'e callbacks =
  cb_dequeueInternal :: "'e \<Rightarrow> Event \<times> 'e"
  cb_dequeueExternal :: "nat \<Rightarrow> (string \<Rightarrow> bool) \<Rightarrow> 'e \<Rightarrow> (Event + Event) \<times> 'e"
  cb_isMatched :: "Event \<Rightarrow> string \<Rightarrow> bool"
  cb_isTrue :: "(string \<Rightarrow> bool) \<Rightarrow> string \<Rightarrow> 'e \<Rightarrow> bool \<times> 'e"
  cb_raiseDoneEvent :: "(string \<Rightarrow> bool) \<Rightarrow> node \<Rightarrow> node option \<Rightarrow> 'e \<Rightarrow> 'e"
  cb_initData :: "(string \<Rightarrow> bool) \<Rightarrow> node \<Rightarrow> 'e \<Rightarrow> 'e"
  cb_process :: "(string \<Rightarrow> bool) \<Rightarrow> node \<Rightarrow> 'e \<Rightarrow> Event option \<times> 'e"
  cb_invoke :: "(string \<Rightarrow> bool) \<Rightarrow> node \<Rightarrow> 'e \<Rightarrow> Event option \<times> 'e"
  cb_uninvoke :: "node \<Rightarrow> 'e \<Rightarrow> 'e"
  cb_monitor :: "notification \<Rightarrow> 'e \<Rightarrow> 'e"

abbreviation NUMBER_STATES :: "tables \<Rightarrow> nat" where "NUMBER_STATES t \<equiv> length (t_states t)"
abbreviation NUMBER_TRANS :: "tables \<Rightarrow> nat" where "NUMBER_TRANS t \<equiv> length (t_transitions t)"
abbreviation GET_STATE :: "tables \<Rightarrow> nat \<Rightarrow> State" where "GET_STATE t i \<equiv> t_states t ! i"
abbreviation GET_TRANS :: "tables \<Rightarrow> nat \<Rightarrow> Transition" where "GET_TRANS t i \<equiv> t_transitions t ! i"

definition kind :: "tables \<Rightarrow> nat \<Rightarrow> byte" where
  "kind t i = STATE_MASK (s_type (GET_STATE t i))"

definition isHistoryKind :: "byte \<Rightarrow> bool" where
  "isHistoryKind k = (k = STATE_HISTORY_SHALLOW \<or> k = STATE_HISTORY_DEEP)"

text \<open>\<open>isInState\<close>, \<open>getConfiguration\<close>, \<open>reset\<close> and \<open>markAsCancelled\<close>.\<close>

definition isInState :: "tables \<Rightarrow> bitset \<Rightarrow> string \<Rightarrow> bool" where
  "isInState t conf stateId =
    (case map_of (t_stateIds t) stateId of None \<Rightarrow> False | Some i \<Rightarrow> BIT_HAS i conf)"

definition getConfiguration :: "tables \<Rightarrow> ms \<Rightarrow> node list" where
  "getConfiguration t m = while_bits (length (m_configuration m)) (\<lambda>_. m_configuration m)
     (\<lambda>i config. config @ [s_element (GET_STATE t i)]) []"

definition ms_reset :: "ms \<Rightarrow> ms" where
  "ms_reset m = m\<lparr>m_isCancelled := False, m_flags := CTX_PRISTINE,
     m_configuration := bits_none (length (m_configuration m)),
     m_history := bits_none (length (m_history m)),
     m_initializedData := bits_none (length (m_initializedData m)),
     m_invocations := bits_none (length (m_invocations m))\<rparr>"

definition markAsCancelled :: "ms \<Rightarrow> ms" where
  "markAsCancelled m = m\<lparr>m_isCancelled := True\<rparr>"

subsection \<open>Executable content in a try block\<close>

definition try_process :: "'e callbacks \<Rightarrow> (string \<Rightarrow> bool) \<Rightarrow> node \<Rightarrow> 'e \<Rightarrow> 'e" where
  "try_process cb inState b e = snd (cb_process cb inState b e)"

definition process_all :: "'e callbacks \<Rightarrow> (string \<Rightarrow> bool) \<Rightarrow> node list \<Rightarrow> 'e \<Rightarrow> 'e" where
  "process_all cb inState bs e = fold (try_process cb inState) bs e"

subsection \<open>Completion at a top-level final state\<close>

fun complete_loop :: "tables \<Rightarrow> 'e callbacks \<Rightarrow> bitset \<Rightarrow> nat \<Rightarrow> bitset \<times> 'e \<Rightarrow> bitset \<times> 'e" where
  "complete_loop t cb conf 0 s = s"
| "complete_loop t cb conf (Suc i) (invs, e) =
     (let e1 = (if BIT_HAS i conf
                then process_all cb (isInState t conf) (s_onExit (GET_STATE t i)) e else e);
          e2 = (if BIT_HAS i invs then fold (cb_uninvoke cb) (s_invoke (GET_STATE t i)) e1 else e1);
          invs2 = (if BIT_HAS i invs then BIT_CLEAR i invs else invs)
      in complete_loop t cb conf i (invs2, e2))"

definition complete :: "tables \<Rightarrow> 'e callbacks \<Rightarrow> ms \<times> 'e \<Rightarrow> ms \<times> 'e" where
  "complete t cb = (\<lambda>(m, e).
    (let e1 = cb_monitor cb beforeCompletion e;
         (invs, e2) = complete_loop t cb (m_configuration m) (NUMBER_STATES t) (m_invocations m, e1);
         m' = m\<lparr>m_invocations := invs, m_flags := set_flag CTX_FINISHED (m_flags m)\<rparr>
     in (m', cb_monitor cb afterCompletion e2)))"

subsection \<open>Invocations\<close>

definition invocation_at :: "tables \<Rightarrow> 'e callbacks \<Rightarrow> bitset \<Rightarrow> nat \<Rightarrow> bitset \<times> 'e \<Rightarrow> bitset \<times> 'e" where
  "invocation_at t cb conf i = (\<lambda>(invs, e).
    (let off = (\<not> BIT_HAS i conf \<and> BIT_HAS i invs);
         e1 = (if off then fold (cb_uninvoke cb) (s_invoke (GET_STATE t i)) e else e);
         invs1 = (if off then BIT_CLEAR i invs else invs);
         on = (BIT_HAS i conf \<and> \<not> BIT_HAS i invs1);
         e2 = (if on then fold (\<lambda>x e. snd (cb_invoke cb (isInState t conf) x e)) (s_invoke (GET_STATE t i)) e1
               else e1);
         invs2 = (if on then BIT_SET_AT i invs1 else invs1)
     in (invs2, e2)))"

definition manage_invocations :: "tables \<Rightarrow> 'e callbacks \<Rightarrow> bitset \<Rightarrow> bitset \<times> 'e \<Rightarrow> bitset \<times> 'e" where
  "manage_invocations t cb conf s = fold (invocation_at t cb conf) [0..<NUMBER_STATES t] s"

subsection \<open>SELECT_TRANSITIONS\<close>

record 'e selection =
  sel_conflicts :: bitset
  sel_target :: bitset
  sel_exit :: bitset
  sel_trans :: bitset
  sel_found :: bool
  sel_env :: 'e

definition select_at ::
  "tables \<Rightarrow> 'e callbacks \<Rightarrow> bitset \<Rightarrow> Event \<Rightarrow> nat \<Rightarrow> 'e selection \<Rightarrow> 'e selection" where
  "select_at t cb conf ev i s =
    (let tr = GET_TRANS t i in
     if has_flag (t_type tr) (TRANS_HISTORY OR TRANS_INITIAL) then s
     else if BIT_HAS (t_source tr) conf \<and> \<not> BIT_HAS i (sel_conflicts s) \<and>
        (t_event tr = [] \<and> \<not> event_valid ev \<or> t_event tr \<noteq> [] \<and> event_valid ev) \<and>
        (\<not> event_valid ev \<or> cb_isMatched cb ev (t_event tr))
     then
       (let (enabled, e) = (if t_cond tr = [] then (True, sel_env s)
                            else cb_isTrue cb (isInState t conf) (t_cond tr) (sel_env s))
        in if enabled then s\<lparr>sel_found := True,
               sel_conflicts := bits_or (sel_conflicts s) (t_conflicts tr),
               sel_target := bits_or (sel_target s) (t_target tr),
               sel_exit := bits_or (sel_exit s) (t_exitSet tr),
               sel_trans := BIT_SET_AT i (sel_trans s), sel_env := e\<rparr>
           else s\<lparr>sel_env := e\<rparr>)
     else s)"

definition select_init :: "tables \<Rightarrow> 'e \<Rightarrow> 'e selection" where
  "select_init t e = \<lparr>sel_conflicts = bits_none (NUMBER_TRANS t), sel_target = bits_none (NUMBER_STATES t),
     sel_exit = bits_none (NUMBER_STATES t), sel_trans = bits_none (NUMBER_TRANS t), sel_found = False,
     sel_env = e\<rparr>"

definition select_transitions ::
  "tables \<Rightarrow> 'e callbacks \<Rightarrow> bitset \<Rightarrow> Event \<Rightarrow> 'e \<Rightarrow> 'e selection" where
  "select_transitions t cb conf ev e =
     fold (select_at t cb conf ev) [0..<NUMBER_TRANS t] (select_init t e)"

subsection \<open>REMEMBER_HISTORY\<close>

definition remember_at :: "tables \<Rightarrow> bitset \<Rightarrow> bitset \<Rightarrow> nat \<Rightarrow> bitset \<Rightarrow> bitset" where
  "remember_at t conf exitSet i history =
    (let s = GET_STATE t i in
     if isHistoryKind (kind t i) \<and> BIT_HAS (s_parent s) exitSet
     then bits_or (bits_diff history (s_completion s)) (bits_and (s_completion s) conf)
     else history)"

definition remember_history :: "tables \<Rightarrow> bitset \<Rightarrow> bitset \<Rightarrow> bitset \<Rightarrow> bitset" where
  "remember_history t conf exitSet history =
     fold (remember_at t conf exitSet) [0..<NUMBER_STATES t] history"

subsection \<open>ESTABLISH_ENTRYSET\<close>

definition add_ancestors :: "tables \<Rightarrow> bitset \<Rightarrow> bitset" where
  "add_ancestors t targetSet = while_bits (NUMBER_STATES t) (\<lambda>entrySet. entrySet)
     (\<lambda>i entrySet. bits_or entrySet (s_ancestors (GET_STATE t i))) targetSet"

text \<open>The ancestors of the first state after \<open>i\<close> that the given set has, and of every such state.\<close>

definition or_first_ancestors :: "tables \<Rightarrow> nat \<Rightarrow> bitset \<Rightarrow> bitset \<Rightarrow> bitset" where
  "or_first_ancestors t i targets entrySet =
    (case List.find (\<lambda>k. BIT_HAS k targets) [Suc i..<NUMBER_STATES t] of
       None \<Rightarrow> entrySet | Some k \<Rightarrow> bits_or entrySet (s_ancestors (GET_STATE t k)))"

definition or_all_ancestors :: "tables \<Rightarrow> nat \<Rightarrow> bitset \<Rightarrow> bitset \<Rightarrow> bitset" where
  "or_all_ancestors t i targets entrySet =
     fold (\<lambda>k es. if BIT_HAS k targets then bits_or es (s_ancestors (GET_STATE t k)) else es)
       [Suc i..<NUMBER_STATES t] entrySet"

definition history_default :: "tables \<Rightarrow> nat \<Rightarrow> bitset \<times> bitset \<Rightarrow> bitset \<times> bitset" where
  "history_default t i = (\<lambda>(entrySet, transSet).
    (case List.find (\<lambda>j. t_source (GET_TRANS t j) = i) [0..<NUMBER_TRANS t] of
       None \<Rightarrow> (entrySet, transSet)
     | Some j \<Rightarrow>
        (let target = t_target (GET_TRANS t j);
             es1 = bits_or entrySet target;
             es2 = (if kind t i = STATE_HISTORY_DEEP \<and>
                       \<not> BIT_HAS_AND target (s_children (GET_STATE t i))
                    then or_first_ancestors t i target es1 else es1)
         in (es2, BIT_SET_AT j transSet))))"

definition nested_histories :: "tables \<Rightarrow> nat \<Rightarrow> bitset \<Rightarrow> bitset" where
  "nested_histories t i entrySet =
     fold (\<lambda>j es.
        if BIT_HAS j (s_completion (GET_STATE t i)) \<and> BIT_HAS j es \<and>
           has_flag (s_type (GET_STATE t j)) STATE_HAS_HISTORY
        then fold (\<lambda>k es. if isHistoryKind (kind t k) \<and> BIT_HAS k (s_children (GET_STATE t j))
                          then BIT_SET_AT k es else es) [Suc j..<NUMBER_STATES t] es
        else es) [Suc i..<NUMBER_STATES t] entrySet"

definition enter_history ::
  "tables \<Rightarrow> bitset \<Rightarrow> bitset \<Rightarrow> nat \<Rightarrow> bitset \<times> bitset \<Rightarrow> bitset \<times> bitset" where
  "enter_history t conf history i = (\<lambda>(entrySet, transSet).
    (let s = GET_STATE t i in
     if \<not> BIT_HAS_AND (s_completion s) history \<and> \<not> BIT_HAS (s_parent s) conf
     then history_default t i (entrySet, transSet)
     else
       (let es1 = bits_or entrySet (bits_and (s_completion s) history)
        in (if s_type s = STATE_HAS_HISTORY OR STATE_HISTORY_DEEP then nested_histories t i es1 else es1,
            transSet))))"

definition enter_initial :: "tables \<Rightarrow> nat \<Rightarrow> bitset \<times> bitset \<Rightarrow> bitset \<times> bitset" where
  "enter_initial t i s =
     fold (\<lambda>j (entrySet, transSet).
        if t_source (GET_TRANS t j) = i then
          (let target = t_target (GET_TRANS t j)
           in (or_all_ancestors t i target (bits_or (BIT_CLEAR i entrySet) target), BIT_SET_AT j transSet))
        else (entrySet, transSet)) [0..<NUMBER_TRANS t] s"

definition enter_compound :: "tables \<Rightarrow> bitset \<Rightarrow> bitset \<Rightarrow> nat \<Rightarrow> bitset \<Rightarrow> bitset" where
  "enter_compound t conf exitSet i entrySet =
    (let s = GET_STATE t i in
     if \<not> BIT_HAS_AND entrySet (s_children s) \<and>
        (\<not> BIT_HAS_AND conf (s_children s) \<or> BIT_HAS_AND exitSet (s_children s))
     then
       (let es1 = bits_or entrySet (s_completion s)
        in if \<not> BIT_HAS_AND (s_completion s) (s_children s)
           then or_first_ancestors t i (s_completion s) es1 else es1)
     else entrySet)"

definition add_descendants_at ::
  "tables \<Rightarrow> bitset \<Rightarrow> bitset \<Rightarrow> bitset \<Rightarrow> nat \<Rightarrow> bitset \<times> bitset \<Rightarrow> bitset \<times> bitset" where
  "add_descendants_at t conf history exitSet i = (\<lambda>(entrySet, transSet).
    (let k = kind t i in
     if k = STATE_PARALLEL then (bits_or entrySet (s_completion (GET_STATE t i)), transSet)
     else if isHistoryKind k then enter_history t conf history i (entrySet, transSet)
     else if k = STATE_INITIAL then enter_initial t i (entrySet, transSet)
     else if k = STATE_COMPOUND then (enter_compound t conf exitSet i entrySet, transSet)
     else (entrySet, transSet)))"

definition establish_entryset ::
  "tables \<Rightarrow> bitset \<Rightarrow> bitset \<Rightarrow> bitset \<Rightarrow> bitset \<Rightarrow> bitset \<Rightarrow> bitset \<times> bitset" where
  "establish_entryset t conf history exitSet targetSet transSet =
     while_bits (NUMBER_STATES t) fst (add_descendants_at t conf history exitSet)
       (add_ancestors t targetSet, transSet)"

subsection \<open>EXIT_STATES\<close>

definition exit_at :: "tables \<Rightarrow> 'e callbacks \<Rightarrow> nat \<Rightarrow> bitset \<times> 'e \<Rightarrow> bitset \<times> 'e" where
  "exit_at t cb i = (\<lambda>(conf, e).
    (let s = GET_STATE t i;
         e1 = cb_monitor cb (beforeExitingState (s_element s)) e;
         e2 = process_all cb (isInState t conf) (s_onExit s) e1
     in (BIT_CLEAR i conf, cb_monitor cb (afterExitingState (s_element s)) e2)))"

fun exit_states :: "tables \<Rightarrow> 'e callbacks \<Rightarrow> bitset \<Rightarrow> nat \<Rightarrow> bitset \<times> 'e \<Rightarrow> bitset \<times> 'e" where
  "exit_states t cb exitSet 0 s = s"
| "exit_states t cb exitSet (Suc i) s =
     exit_states t cb exitSet i
       (if BIT_HAS i exitSet \<and> BIT_HAS i (fst s) then exit_at t cb i s else s)"

subsection \<open>TAKE_TRANSITIONS\<close>

definition run_transition :: "tables \<Rightarrow> 'e callbacks \<Rightarrow> bitset \<Rightarrow> nat \<Rightarrow> 'e \<Rightarrow> 'e" where
  "run_transition t cb conf j e =
    (let tr = GET_TRANS t j;
         e1 = cb_monitor cb (beforeTakingTransition (t_element tr)) e;
         e2 = (case t_onTrans tr of None \<Rightarrow> e1 | Some b \<Rightarrow> try_process cb (isInState t conf) b e1)
     in cb_monitor cb (afterTakingTransition (t_element tr)) e2)"

definition isPseudoTrans :: "tables \<Rightarrow> nat \<Rightarrow> bool" where
  "isPseudoTrans t j = has_flag (t_type (GET_TRANS t j)) (TRANS_HISTORY OR TRANS_INITIAL)"

definition take_transitions :: "tables \<Rightarrow> 'e callbacks \<Rightarrow> bitset \<Rightarrow> bitset \<Rightarrow> 'e \<Rightarrow> 'e" where
  "take_transitions t cb conf transSet e =
     while_bits (NUMBER_TRANS t) (\<lambda>_. transSet)
       (\<lambda>j e. if \<not> isPseudoTrans t j then run_transition t cb conf j e else e) e"

subsection \<open>ENTER_STATES\<close>

text \<open>
  The inner loops that look for a parallel ancestor whose regions are all final. \<open>clear_parallels\<close>
  climbs from a state and clears parallel states without remaining descendants; both climbing
  loops go to the parent while the state has ancestors, so the number of states bounds them.
\<close>

fun clear_parallels :: "nat \<Rightarrow> tables \<Rightarrow> nat \<Rightarrow> nat \<Rightarrow> bitset \<Rightarrow> bitset" where
  "clear_parallels 0 t nFinalParent p tmpStates = tmpStates"
| "clear_parallels (Suc fuel) t nFinalParent p tmpStates =
     (if bits_count (s_ancestors (GET_STATE t p)) > 0 then
        (let nParent = s_parent (GET_STATE t p) in
         if kind t nParent = STATE_PARALLEL then
           (if \<not> BIT_HAS_AND tmpStates (s_children (GET_STATE t nParent)) then
              (let tmp1 = BIT_CLEAR nParent tmpStates in
               if \<not> BIT_ANY_SET tmp1 then tmp1
               else if nParent = nFinalParent then tmp1
               else clear_parallels fuel t nFinalParent nParent tmp1)
            else tmpStates)
         else tmpStates)
      else tmpStates)"

definition strip_final :: "tables \<Rightarrow> nat \<Rightarrow> nat \<Rightarrow> bitset \<Rightarrow> bitset" where
  "strip_final t nFinalParent k tmpStates =
    (if BIT_HAS nFinalParent (s_ancestors (GET_STATE t k)) \<and> kind t k = STATE_FINAL then
       (let stateParent = s_parent (GET_STATE t k);
            tmp1 = BIT_CLEAR stateParent (bits_xor tmpStates (s_children (GET_STATE t stateParent)))
        in clear_parallels (NUMBER_STATES t) t nFinalParent stateParent tmp1)
     else tmpStates)"

definition remaining_regions :: "tables \<Rightarrow> bitset \<Rightarrow> nat \<Rightarrow> bitset" where
  "remaining_regions t conf nFinalParent =
     while_bits (length conf) (\<lambda>_. conf) (strip_final t nFinalParent)
       (bits_or (bits_none (NUMBER_STATES t)) (s_children (GET_STATE t nFinalParent)))"

fun done_parallels :: "nat \<Rightarrow> tables \<Rightarrow> 'e callbacks \<Rightarrow> bitset \<Rightarrow> nat \<Rightarrow> 'e \<Rightarrow> 'e" where
  "done_parallels 0 t cb conf p e = e"
| "done_parallels (Suc fuel) t cb conf p e =
     (if bits_count (s_ancestors (GET_STATE t p)) > 0 then
        (let nFinalParent = s_parent (GET_STATE t p) in
         if kind t nFinalParent = STATE_PARALLEL then
           (let e1 = (if \<not> BIT_ANY_SET (remaining_regions t conf nFinalParent)
                      then cb_raiseDoneEvent cb (isInState t conf) (s_element (GET_STATE t nFinalParent))
                             (s_doneData (GET_STATE t nFinalParent)) e
                      else e)
            in done_parallels fuel t cb conf nFinalParent e1)
         else e)
      else e)"

definition handle_final :: "tables \<Rightarrow> 'e callbacks \<Rightarrow> nat \<Rightarrow> ms \<times> 'e \<Rightarrow> ms \<times> 'e" where
  "handle_final t cb i = (\<lambda>(m, e).
    (let s = GET_STATE t i in
     if bits_count (s_ancestors s) = 1 \<and> BIT_HAS 0 (s_ancestors s)
     then (m\<lparr>m_flags := set_flag CTX_TOP_LEVEL_FINAL (m_flags m)\<rparr>, e)
     else
       (let conf = m_configuration m;
            e1 = cb_raiseDoneEvent cb (isInState t conf) (s_element (GET_STATE t (s_parent s))) (s_doneData s) e
        in (m, done_parallels (NUMBER_STATES t) t cb conf (s_parent s) e1))))"

definition enter_data :: "tables \<Rightarrow> 'e callbacks \<Rightarrow> nat \<Rightarrow> ms \<times> 'e \<Rightarrow> ms \<times> 'e" where
  "enter_data t cb i = (\<lambda>(m, e).
     if \<not> BIT_HAS i (m_initializedData m)
     then (m\<lparr>m_initializedData := BIT_SET_AT i (m_initializedData m)\<rparr>,
           fold (cb_initData cb (isInState t (m_configuration m))) (s_data (GET_STATE t i)) e)
     else (m, e))"

definition pseudo_transitions :: "tables \<Rightarrow> 'e callbacks \<Rightarrow> bitset \<Rightarrow> bitset \<Rightarrow> nat \<Rightarrow> 'e \<Rightarrow> 'e" where
  "pseudo_transitions t cb conf transSet i e =
     fold (\<lambda>j e. if BIT_HAS j transSet \<and> isPseudoTrans t j \<and>
                    s_parent (GET_STATE t (t_source (GET_TRANS t j))) = i
                 then run_transition t cb conf j e else e) [0..<NUMBER_TRANS t] e"

definition enter_at :: "tables \<Rightarrow> 'e callbacks \<Rightarrow> bitset \<Rightarrow> nat \<Rightarrow> ms \<times> 'e \<Rightarrow> ms \<times> 'e" where
  "enter_at t cb transSet i = (\<lambda>(m, e).
     if BIT_HAS i (m_configuration m) then (m, e)
     else if isHistoryKind (kind t i) \<or> kind t i = STATE_INITIAL then (m, e)
     else
       (let s = GET_STATE t i;
            e1 = cb_monitor cb (beforeEnteringState (s_element s)) e;
            m1 = m\<lparr>m_configuration := BIT_SET_AT i (m_configuration m)\<rparr>;
            conf = m_configuration m1;
            (m2, e2) = enter_data t cb i (m1, e1);
            e3 = process_all cb (isInState t conf) (s_onEntry s) e2;
            e4 = cb_monitor cb (afterEnteringState (s_element s)) e3;
            e5 = pseudo_transitions t cb conf transSet i e4
        in if kind t i = STATE_FINAL then handle_final t cb i (m2, e5) else (m2, e5)))"

definition enter_states :: "tables \<Rightarrow> 'e callbacks \<Rightarrow> bitset \<Rightarrow> bitset \<Rightarrow> ms \<times> 'e \<Rightarrow> ms \<times> 'e" where
  "enter_states t cb entrySet transSet s =
     while_bits (NUMBER_STATES t) (\<lambda>_. entrySet) (enter_at t cb transSet) s"

subsection \<open>step\<close>

definition loop_issue :: string where
  "loop_issue = ''Reentering same configuration during microstep  - possible endless loop''"

definition note_configuration :: "'e callbacks \<Rightarrow> ms \<times> 'e \<Rightarrow> ms \<times> 'e" where
  "note_configuration cb = (\<lambda>(m, e).
    (let seen = (m_configuration m \<in> set (m_microstepConfigurations m));
         e1 = (if seen then cb_monitor cb (reportIssue loop_issue) e else e)
     in (m\<lparr>m_microstepConfigurations := List.insert (m_configuration m) (m_microstepConfigurations m)\<rparr>, e1)))"

text \<open>From the label \<open>ESTABLISH_ENTRYSET\<close> to the end of the function.\<close>

definition microstep ::
  "tables \<Rightarrow> 'e callbacks \<Rightarrow> bitset \<Rightarrow> bitset \<Rightarrow> bitset \<Rightarrow> ms \<times> 'e \<Rightarrow> ms \<times> 'e" where
  "microstep t cb targetSet exitSet transSet = (\<lambda>(m, e).
    (let (entrySet, transSet') =
           establish_entryset t (m_configuration m) (m_history m) exitSet targetSet transSet;
         (conf, e1) = exit_states t cb exitSet (NUMBER_STATES t) (m_configuration m, e);
         m1 = m\<lparr>m_configuration := conf\<rparr>;
         e2 = take_transitions t cb conf transSet' e1;
         (m2, e3) = enter_states t cb entrySet transSet' (m1, e2)
     in note_configuration cb (m2, cb_monitor cb afterMicroStep e3)))"

text \<open>From the label \<open>SELECT_TRANSITIONS\<close>; \<open>m_event\<close> is the event being processed.\<close>

definition select_and_step ::
  "tables \<Rightarrow> 'e callbacks \<Rightarrow> ms \<times> 'e \<Rightarrow> InterpreterState \<times> ms \<times> 'e" where
  "select_and_step t cb = (\<lambda>(m, e).
    (let m1 = m\<lparr>m_flags := clear_flag CTX_STABLE (m_flags m)\<rparr>;
         conf = m_configuration m1;
         sel = select_transitions t cb conf (m_event m1) e;
         exitSet = bits_and (sel_exit sel) conf;
         flags1 = (if sel_found sel then set_flag CTX_TRANSITION_FOUND (m_flags m1) else m_flags m1)
     in if has_flag flags1 CTX_TRANSITION_FOUND then
          (let m2 = m1\<lparr>m_flags := clear_flag CTX_TRANSITION_FOUND (set_flag CTX_SPONTANEOUS flags1),
                       m_history := remember_history t conf exitSet (m_history m1)\<rparr>;
               e1 = cb_monitor cb beforeMicroStep (sel_env sel)
           in (USCXML_MICROSTEPPED, microstep t cb (sel_target sel) exitSet (sel_trans sel) (m2, e1)))
        else (USCXML_MICROSTEPPED,
              m1\<lparr>m_flags := clear_flag CTX_SPONTANEOUS flags1\<rparr>, sel_env sel)))"

text \<open>What follows the internal queue: invocations, the stable configuration, the external queue.\<close>

definition step_external ::
  "tables \<Rightarrow> 'e callbacks \<Rightarrow> nat \<Rightarrow> ms \<times> 'e \<Rightarrow> (Event + InterpreterState) \<times> ms \<times> 'e" where
  "step_external t cb blockMs = (\<lambda>(m, e).
    (let (invs, e1) = manage_invocations t cb (m_configuration m) (m_invocations m, e);
         m1 = m\<lparr>m_invocations := invs\<rparr>
     in if \<not> has_flag (m_flags m1) CTX_STABLE then
          (Inr USCXML_MACROSTEPPED,
           m1\<lparr>m_microstepConfigurations := [], m_flags := set_flag CTX_STABLE (m_flags m1)\<rparr>,
           cb_monitor cb onStableConfiguration e1)
        else
          (case cb_dequeueExternal cb blockMs (isInState t (m_configuration m1)) e1 of
             (Inl exc, e2) \<Rightarrow> (Inl exc, m1, e2)
           | (Inr ev, e2) \<Rightarrow>
               (let m2 = m1\<lparr>m_event := ev\<rparr> in
                if event_valid ev then
                  (let (st, m3, e3) = select_and_step t cb (m2, cb_monitor cb (beforeProcessingEvent ev) e2)
                   in (Inr st, m3, e3))
                else if m_isCancelled m2 then
                  (Inr USCXML_CANCELLED,
                   m2\<lparr>m_flags := set_flag CTX_TOP_LEVEL_FINAL (m_flags m2)\<rparr>, e2)
                else (Inr USCXML_IDLE, m2, e2)))))"

definition ms_step ::
  "tables \<Rightarrow> 'e callbacks \<Rightarrow> nat \<Rightarrow> ms \<times> 'e \<Rightarrow> (Event + InterpreterState) \<times> ms \<times> 'e" where
  "ms_step t cb blockMs = (\<lambda>(m, e).
     if has_flag (m_flags m) CTX_FINISHED then (Inr USCXML_FINISHED, m, e)
     else if has_flag (m_flags m) CTX_TOP_LEVEL_FINAL then
       (let (m', e') = complete t cb (m, e) in (Inr USCXML_FINISHED, m', e'))
     else if m_flags m = CTX_PRISTINE then
       (let m1 = m\<lparr>m_flags := set_flag (CTX_SPONTANEOUS OR CTX_INITIALIZED) (m_flags m)\<rparr>;
            targetSet = bits_or (bits_none (NUMBER_STATES t)) (s_completion (GET_STATE t 0))
        in (Inr USCXML_MICROSTEPPED, microstep t cb targetSet (bits_none (NUMBER_STATES t))
              (bits_none (NUMBER_TRANS t)) (m1, cb_monitor cb beforeMicroStep e)))
     else if has_flag (m_flags m) CTX_SPONTANEOUS then
       (let (st, m', e') = select_and_step t cb (m\<lparr>m_event := Event_new []\<rparr>, e) in (Inr st, m', e'))
     else
       (let (ev, e1) = cb_dequeueInternal cb e; m1 = m\<lparr>m_event := ev\<rparr>
        in if event_valid ev then
             (let (st, m', e') = select_and_step t cb (m1, cb_monitor cb (beforeProcessingEvent ev) e1)
              in (Inr st, m', e'))
           else step_external t cb blockMs (m1, e1)))"

end
