(* ===== verification/MicroStep_Sections.thy ===== *)
theory MicroStep_Sections
  imports MicroStep
begin

text \<open>
  What each section of \<open>FastMicroStep::step\<close> computes: the transitions that are selected, the
  history that is remembered, the states that are exited and entered and in which order, the
  invocations that are running. Bitsets are read as sets of indices (\<open>bset\<close>).
\<close>

subsection \<open>Sizes\<close>

text \<open>Every bitset of the tables has one bit per state or per transition, and the indices are in range.\<close>

definition wf_state :: "tables \<Rightarrow> State \<Rightarrow> bool" where
  "wf_state t s \<longleftrightarrow> length (s_completion s) = NUMBER_STATES t \<and> length (s_children s) = NUMBER_STATES t \<and>
     length (s_ancestors s) = NUMBER_STATES t \<and> s_parent s < NUMBER_STATES t"

definition wf_transition :: "tables \<Rightarrow> Transition \<Rightarrow> bool" where
  "wf_transition t r \<longleftrightarrow> length (t_conflicts r) = NUMBER_TRANS t \<and> length (t_exitSet r) = NUMBER_STATES t \<and>
     length (t_target r) = NUMBER_STATES t \<and> t_source r < NUMBER_STATES t"

definition wf_sizes :: "tables \<Rightarrow> bool" where
  "wf_sizes t \<longleftrightarrow> t_states t \<noteq> [] \<and> list_all (wf_state t) (t_states t) \<and>
     list_all (wf_transition t) (t_transitions t)"

definition ms_sized :: "tables \<Rightarrow> ms \<Rightarrow> bool" where
  "ms_sized t m \<longleftrightarrow> length (m_configuration m) = NUMBER_STATES t \<and>
     length (m_invocations m) = NUMBER_STATES t \<and> length (m_history m) = NUMBER_STATES t \<and>
     length (m_initializedData m) = NUMBER_STATES t"

lemma wf_stateD: "wf_sizes t \<Longrightarrow> i < NUMBER_STATES t \<Longrightarrow> wf_state t (GET_STATE t i)"
  by (simp add: wf_sizes_def list_all_length)

lemma wf_transitionD: "wf_sizes t \<Longrightarrow> j < NUMBER_TRANS t \<Longrightarrow> wf_transition t (GET_TRANS t j)"
  by (simp add: wf_sizes_def list_all_length)

lemma bset_le: "length b = n \<Longrightarrow> bset b \<inter> {..<n} = bset b"
  by (auto dest: bset_bound)

subsection \<open>Flags\<close>

lemma flag_bits:
  "has_flag f CTX_SPONTANEOUS \<longleftrightarrow> bit f 0" "has_flag f CTX_INITIALIZED \<longleftrightarrow> bit f 1"
  "has_flag f CTX_TOP_LEVEL_FINAL \<longleftrightarrow> bit f 2" "has_flag f CTX_TRANSITION_FOUND \<longleftrightarrow> bit f 3"
  "has_flag f CTX_FINISHED \<longleftrightarrow> bit f 4" "has_flag f CTX_STABLE \<longleftrightarrow> bit f 5"
proof -
  have k: "f AND push_bit k 1 \<noteq> 0 \<longleftrightarrow> bit f k" for k and f :: byte
    by (simp add: bit_iff_and_push_bit_not_eq_0)
  show "has_flag f CTX_SPONTANEOUS \<longleftrightarrow> bit f 0" using k [of f 0] by (simp add: has_flag_def ctx_defs)
  show "has_flag f CTX_INITIALIZED \<longleftrightarrow> bit f 1" using k [of f 1] by (simp add: has_flag_def ctx_defs)
  show "has_flag f CTX_TOP_LEVEL_FINAL \<longleftrightarrow> bit f 2" using k [of f 2] by (simp add: has_flag_def ctx_defs)
  show "has_flag f CTX_TRANSITION_FOUND \<longleftrightarrow> bit f 3" using k [of f 3] by (simp add: has_flag_def ctx_defs)
  show "has_flag f CTX_FINISHED \<longleftrightarrow> bit f 4" using k [of f 4] by (simp add: has_flag_def ctx_defs)
  show "has_flag f CTX_STABLE \<longleftrightarrow> bit f 5" using k [of f 5] by (simp add: has_flag_def ctx_defs)
qed

lemma flag_update_bits:
  "bit (set_flag m f) k \<longleftrightarrow> bit f k \<or> bit m k" "bit (clear_flag m f) k \<longleftrightarrow> bit f k \<and> \<not> bit m k \<and> k < 8"
  by (auto simp: set_flag_def clear_flag_def bit_simps dest: bit_imp_le_length)

lemma ctx_bits:
  "bit CTX_SPONTANEOUS k \<longleftrightarrow> k = 0" "bit CTX_INITIALIZED k \<longleftrightarrow> k = 1" "bit CTX_TOP_LEVEL_FINAL k \<longleftrightarrow> k = 2"
  "bit CTX_TRANSITION_FOUND k \<longleftrightarrow> k = 3" "bit CTX_FINISHED k \<longleftrightarrow> k = 4" "bit CTX_STABLE k \<longleftrightarrow> k = 5"
proof -
  have p: "bit (push_bit j 1 :: byte) k \<longleftrightarrow> k = j" if "j < 8" for j
    using that by (auto simp: bit_simps simp del: push_bit_of_1)
  show "bit CTX_SPONTANEOUS k \<longleftrightarrow> k = 0" using p [of 0] by (simp add: ctx_defs)
  show "bit CTX_INITIALIZED k \<longleftrightarrow> k = 1" using p [of 1] by (simp add: ctx_defs)
  show "bit CTX_TOP_LEVEL_FINAL k \<longleftrightarrow> k = 2" using p [of 2] by (simp add: ctx_defs)
  show "bit CTX_TRANSITION_FOUND k \<longleftrightarrow> k = 3" using p [of 3] by (simp add: ctx_defs)
  show "bit CTX_FINISHED k \<longleftrightarrow> k = 4" using p [of 4] by (simp add: ctx_defs)
  show "bit CTX_STABLE k \<longleftrightarrow> k = 5" using p [of 5] by (simp add: ctx_defs)
qed

lemmas flag_simps = flag_bits flag_update_bits ctx_bits

subsection \<open>Exiting states\<close>

lemma exit_at_conf [simp]: "fst (exit_at t cb i s) = BIT_CLEAR i (fst s)"
  by (simp add: exit_at_def Let_def split: prod.split)

lemma exit_fold_conf:
  "bset (fst (fold (exit_at t cb) xs s)) = bset (fst s) - set xs \<and>
   length (fst (fold (exit_at t cb) xs s)) = length (fst s)"
  by (induction xs arbitrary: s) (auto simp: bset_simps)

lemma exit_states_fold:
  "exit_states t cb exitSet n s =
     fold (exit_at t cb) (rev (filter (\<lambda>i. BIT_HAS i exitSet \<and> BIT_HAS i (fst s)) [0..<n])) s"
proof (induction n arbitrary: s)
  case (Suc n)
  have "filter (\<lambda>i. BIT_HAS i exitSet \<and> BIT_HAS i (BIT_CLEAR n (fst s))) [0..<n] =
      filter (\<lambda>i. BIT_HAS i exitSet \<and> BIT_HAS i (fst s)) [0..<n]"
    by (rule filter_cong) (auto simp: BIT_HAS_bset bset_simps)
  then show ?case using Suc by simp
qed simp

lemma exit_states_conf:
  "bset (fst (exit_states t cb exitSet n s)) = bset (fst s) - (bset exitSet \<inter> {..<n})"
  "length (fst (exit_states t cb exitSet n s)) = length (fst s)"
  by (auto simp: exit_states_fold exit_fold_conf BIT_HAS_bset)

subsection \<open>Entering states\<close>

definition proper :: "tables \<Rightarrow> nat \<Rightarrow> bool" where
  "proper t i \<longleftrightarrow> \<not> isHistoryKind (kind t i) \<and> kind t i \<noteq> STATE_INITIAL"

lemma handle_final_frame [simp]:
  "m_configuration (fst (handle_final t cb i s)) = m_configuration (fst s)"
  "m_invocations (fst (handle_final t cb i s)) = m_invocations (fst s)"
  "m_history (fst (handle_final t cb i s)) = m_history (fst s)"
  "m_initializedData (fst (handle_final t cb i s)) = m_initializedData (fst s)"
  "m_isCancelled (fst (handle_final t cb i s)) = m_isCancelled (fst s)"
  by (simp_all add: handle_final_def Let_def split: prod.split)

lemma enter_data_frame [simp]:
  "m_configuration (fst (enter_data t cb i s)) = m_configuration (fst s)"
  "m_invocations (fst (enter_data t cb i s)) = m_invocations (fst s)"
  "m_history (fst (enter_data t cb i s)) = m_history (fst s)"
  "m_flags (fst (enter_data t cb i s)) = m_flags (fst s)"
  "m_isCancelled (fst (enter_data t cb i s)) = m_isCancelled (fst s)"
  "length (m_initializedData (fst (enter_data t cb i s))) = length (m_initializedData (fst s))"
  by (simp_all add: enter_data_def split: prod.split)

lemma enter_at_cases:
  "enter_at t cb transSet i (m, e) =
    (if BIT_HAS i (m_configuration m) \<or> \<not> proper t i then (m, e)
     else (let m1 = m\<lparr>m_configuration := BIT_SET_AT i (m_configuration m)\<rparr>;
               conf = m_configuration m1;
               s2 = enter_data t cb i (m1, cb_monitor cb (beforeEnteringState (s_element (GET_STATE t i))) e);
               e5 = pseudo_transitions t cb conf transSet i
                      (cb_monitor cb (afterEnteringState (s_element (GET_STATE t i)))
                        (process_all cb (isInState t conf) (s_onEntry (GET_STATE t i)) (snd s2)))
           in if kind t i = STATE_FINAL then handle_final t cb i (fst s2, e5) else (fst s2, e5)))"
  by (auto simp: enter_at_def proper_def Let_def split: prod.split)

lemma enter_at_conf:
  "m_configuration (fst (enter_at t cb transSet i s)) =
     (if proper t i then BIT_SET_AT i (m_configuration (fst s)) else m_configuration (fst s))"
proof -
  obtain m e where s: "s = (m, e)" by (cases s)
  have "BIT_SET_AT i c = c" if "BIT_HAS i c" for c
    using that by (simp add: BIT_HAS_def BIT_SET_AT_def list_update_same_conv)
  then show ?thesis by (simp add: s enter_at_cases Let_def)
qed

lemma enter_at_frame [simp]:
  "m_invocations (fst (enter_at t cb transSet i s)) = m_invocations (fst s)"
  "m_history (fst (enter_at t cb transSet i s)) = m_history (fst s)"
  "m_isCancelled (fst (enter_at t cb transSet i s)) = m_isCancelled (fst s)"
  "length (m_initializedData (fst (enter_at t cb transSet i s))) = length (m_initializedData (fst s))"
  by (cases s, simp add: enter_at_cases Let_def)+

lemma enter_states_fold:
  "enter_states t cb entrySet transSet s =
     fold (enter_at t cb transSet) (filter (\<lambda>i. BIT_HAS i entrySet) [0..<NUMBER_STATES t]) s"
  by (simp add: enter_states_def while_bits_frame)

lemma enter_fold_conf:
  "\<forall>i \<in> set xs. i < length (m_configuration (fst s)) \<Longrightarrow>
   bset (m_configuration (fst (fold (enter_at t cb transSet) xs s))) =
     bset (m_configuration (fst s)) \<union> {i \<in> set xs. proper t i} \<and>
   length (m_configuration (fst (fold (enter_at t cb transSet) xs s))) = length (m_configuration (fst s))"
proof (induction xs arbitrary: s)
  case (Cons i xs)
  then have i: "i < length (m_configuration (fst s))" by simp
  have "length (m_configuration (fst (enter_at t cb transSet i s))) = length (m_configuration (fst s))"
    by (simp add: enter_at_conf)
  with Cons have "bset (m_configuration (fst (fold (enter_at t cb transSet) (i # xs) s))) =
      bset (m_configuration (fst (enter_at t cb transSet i s))) \<union> {i \<in> set xs. proper t i} \<and>
      length (m_configuration (fst (fold (enter_at t cb transSet) (i # xs) s))) =
      length (m_configuration (fst s))"
    by simp
  then show ?case using i by (auto simp: enter_at_conf bset_simps)
qed simp

lemma enter_states_conf:
  assumes "length (m_configuration (fst s)) = NUMBER_STATES t"
  shows "bset (m_configuration (fst (enter_states t cb entrySet transSet s))) =
      bset (m_configuration (fst s)) \<union> {i \<in> bset entrySet. i < NUMBER_STATES t \<and> proper t i}"
    and "length (m_configuration (fst (enter_states t cb entrySet transSet s))) = NUMBER_STATES t"
proof -
  let ?xs = "filter (\<lambda>i. BIT_HAS i entrySet) [0..<NUMBER_STATES t]"
  have "\<forall>i \<in> set ?xs. i < length (m_configuration (fst s))" using assms by simp
  note f = enter_fold_conf [OF this, of t cb transSet]
  show "bset (m_configuration (fst (enter_states t cb entrySet transSet s))) =
      bset (m_configuration (fst s)) \<union> {i \<in> bset entrySet. i < NUMBER_STATES t \<and> proper t i}"
    using f by (auto simp: enter_states_fold BIT_HAS_bset)
  show "length (m_configuration (fst (enter_states t cb entrySet transSet s))) = NUMBER_STATES t"
    using f assms by (simp add: enter_states_fold)
qed

lemma enter_states_frame:
  "m_invocations (fst (enter_states t cb entrySet transSet s)) = m_invocations (fst s) \<and>
   m_history (fst (enter_states t cb entrySet transSet s)) = m_history (fst s) \<and>
   m_isCancelled (fst (enter_states t cb entrySet transSet s)) = m_isCancelled (fst s) \<and>
   length (m_initializedData (fst (enter_states t cb entrySet transSet s))) =
     length (m_initializedData (fst s))"
  unfolding enter_states_fold
  by (rule fold_invariant [where P = "\<lambda>s'. m_invocations (fst s') = m_invocations (fst s) \<and>
        m_history (fst s') = m_history (fst s) \<and> m_isCancelled (fst s') = m_isCancelled (fst s) \<and>
        length (m_initializedData (fst s')) = length (m_initializedData (fst s))"]) simp_all

subsection \<open>Selecting transitions\<close>

text \<open>
  When the value of a condition does not depend on what the evaluation of an earlier condition left
  behind, being enabled is a property of the transition: \<open>val\<close> gives the value of each condition.
\<close>

definition cond_oblivious :: "tables \<Rightarrow> 'e callbacks \<Rightarrow> bitset \<Rightarrow> (string \<Rightarrow> bool) \<Rightarrow> bool" where
  "cond_oblivious t cb conf val \<longleftrightarrow> (\<forall>c e. fst (cb_isTrue cb (isInState t conf) c e) = val c)"

definition enabled :: "tables \<Rightarrow> 'e callbacks \<Rightarrow> bitset \<Rightarrow> Event \<Rightarrow> (string \<Rightarrow> bool) \<Rightarrow> nat \<Rightarrow> bool" where
  "enabled t cb conf ev val i \<longleftrightarrow>
     (let tr = GET_TRANS t i in
      \<not> isPseudoTrans t i \<and> BIT_HAS (t_source tr) conf \<and>
      (t_event tr = [] \<and> \<not> event_valid ev \<or> t_event tr \<noteq> [] \<and> event_valid ev \<and> cb_isMatched cb ev (t_event tr)) \<and>
      (t_cond tr = [] \<or> val (t_cond tr)))"

definition conflicting :: "tables \<Rightarrow> nat \<Rightarrow> nat \<Rightarrow> bool" where
  "conflicting t i j \<longleftrightarrow> BIT_HAS j (t_conflicts (GET_TRANS t i))"

text \<open>
  The greedy choice among the indices below \<open>k\<close>: an index is chosen when it is enabled and no
  smaller chosen index excludes it.
\<close>

definition greedy_upto :: "(nat \<Rightarrow> bool) \<Rightarrow> (nat \<Rightarrow> nat \<Rightarrow> bool) \<Rightarrow> nat \<Rightarrow> nat set \<Rightarrow> bool" where
  "greedy_upto en con k S \<longleftrightarrow>
     (\<forall>i. i \<in> S \<longleftrightarrow> i < k \<and> en i \<and> (\<forall>j \<in> S. j < i \<longrightarrow> \<not> con j i))"

lemma greedy_iff: "greedy_upto en con k S \<Longrightarrow>
    i \<in> S \<longleftrightarrow> i < k \<and> en i \<and> (\<forall>j \<in> S. j < i \<longrightarrow> \<not> con j i)"
  unfolding greedy_upto_def by (rule spec)

lemma greedy_below: "greedy_upto en con k S \<Longrightarrow> i \<in> S \<Longrightarrow> i < k"
  using greedy_iff by blast

lemma greedy_earlier: "greedy_upto en con k S \<Longrightarrow> i \<in> S \<Longrightarrow> j \<in> S \<Longrightarrow> j < i \<Longrightarrow> \<not> con j i"
  using greedy_iff by blast

lemma greedy_take:
  assumes g: "greedy_upto en con k S" and "en k" and "\<forall>j \<in> S. \<not> con j k"
  shows "greedy_upto en con (Suc k) (insert k S)"
  unfolding greedy_upto_def
proof
  fix i
  show "i \<in> insert k S \<longleftrightarrow> i < Suc k \<and> en i \<and> (\<forall>j \<in> insert k S. j < i \<longrightarrow> \<not> con j i)"
  proof (cases "i = k")
    case True
    then show ?thesis using assms(2,3) by simp
  next
    case False
    then have "i \<in> insert k S \<longleftrightarrow> i < k \<and> en i \<and> (\<forall>j \<in> S. j < i \<longrightarrow> \<not> con j i)"
      using greedy_iff [OF g, of i] by simp
    then show ?thesis using False by (simp add: less_Suc_eq) auto
  qed
qed

lemma greedy_skip:
  assumes g: "greedy_upto en con k S" and "\<not> en k \<or> (\<exists>j \<in> S. con j k)"
  shows "greedy_upto en con (Suc k) S"
  unfolding greedy_upto_def
proof
  fix i
  show "i \<in> S \<longleftrightarrow> i < Suc k \<and> en i \<and> (\<forall>j \<in> S. j < i \<longrightarrow> \<not> con j i)"
  proof (cases "i = k")
    case True
    then have "i \<notin> S" using greedy_below [OF g, of k] by blast
    moreover have "\<not> en k \<or> (\<exists>j \<in> S. j < k \<and> con j k)" using assms(2) greedy_below [OF g] by blast
    ultimately show ?thesis using True by blast
  next
    case False
    then show ?thesis using greedy_iff [OF g, of i] by (simp add: less_Suc_eq)
  qed
qed

lemma greedy_noconflict:
  assumes g: "greedy_upto en con k S" and sym: "\<And>i j. i \<in> S \<Longrightarrow> j \<in> S \<Longrightarrow> con i j = con j i"
    and ij: "i \<in> S" "j \<in> S" "i \<noteq> j"
  shows "\<not> con i j"
  using greedy_earlier [OF g ij(2,1)] greedy_earlier [OF g ij(1,2)] sym [OF ij(1,2)] ij(3)
  by (cases "i < j") auto

definition sel_inv ::
  "tables \<Rightarrow> 'e callbacks \<Rightarrow> bitset \<Rightarrow> Event \<Rightarrow> (string \<Rightarrow> bool) \<Rightarrow> nat \<Rightarrow> 'e selection \<Rightarrow> bool" where
  "sel_inv t cb conf ev val k s \<longleftrightarrow> (let S = bset (sel_trans s) in
     length (sel_trans s) = NUMBER_TRANS t \<and> length (sel_conflicts s) = NUMBER_TRANS t \<and>
     length (sel_target s) = NUMBER_STATES t \<and> length (sel_exit s) = NUMBER_STATES t \<and>
     greedy_upto (enabled t cb conf ev val) (conflicting t) k S \<and>
     bset (sel_conflicts s) = (\<Union>j \<in> S. bset (t_conflicts (GET_TRANS t j))) \<and>
     bset (sel_target s) = (\<Union>j \<in> S. bset (t_target (GET_TRANS t j))) \<and>
     bset (sel_exit s) = (\<Union>j \<in> S. bset (t_exitSet (GET_TRANS t j))) \<and>
     sel_found s = (S \<noteq> {}))"

lemma select_at_cases:
  assumes "cond_oblivious t cb conf val"
  obtains (take) e where "enabled t cb conf ev val i" and "i \<notin> bset (sel_conflicts s)"
      and "select_at t cb conf ev i s = s\<lparr>sel_found := True,
         sel_conflicts := bits_or (sel_conflicts s) (t_conflicts (GET_TRANS t i)),
         sel_target := bits_or (sel_target s) (t_target (GET_TRANS t i)),
         sel_exit := bits_or (sel_exit s) (t_exitSet (GET_TRANS t i)),
         sel_trans := BIT_SET_AT i (sel_trans s), sel_env := e\<rparr>"
    | (skip) e where "\<not> enabled t cb conf ev val i \<or> i \<in> bset (sel_conflicts s)"
      and "select_at t cb conf ev i s = s\<lparr>sel_env := e\<rparr>"
proof -
  let ?tr = "GET_TRANS t i"
  let ?pre = "\<not> isPseudoTrans t i \<and> BIT_HAS (t_source ?tr) conf \<and> i \<notin> bset (sel_conflicts s) \<and>
    (t_event ?tr = [] \<and> \<not> event_valid ev \<or> t_event ?tr \<noteq> [] \<and> event_valid ev) \<and>
    (\<not> event_valid ev \<or> cb_isMatched cb ev (t_event ?tr))"
  obtain b e where be: "(if t_cond ?tr = [] then (True, sel_env s)
      else cb_isTrue cb (isInState t conf) (t_cond ?tr) (sel_env s)) = (b, e)" by fastforce
  then have b: "b \<longleftrightarrow> t_cond ?tr = [] \<or> val (t_cond ?tr)"
    using assms by (auto simp: cond_oblivious_def split: if_splits dest: arg_cong [where f = fst])
  show thesis
  proof (cases "?pre \<and> b")
    case True
    then have "enabled t cb conf ev val i" using b by (auto simp: enabled_def Let_def)
    moreover have "i \<notin> bset (sel_conflicts s)" using True by blast
    ultimately show thesis
      using True be by (intro take [of e]) (auto simp: select_at_def isPseudoTrans_def Let_def BIT_HAS_bset)
  next
    case False
    then have "\<not> enabled t cb conf ev val i \<or> i \<in> bset (sel_conflicts s)"
      using b by (auto simp: enabled_def Let_def)
    moreover have "select_at t cb conf ev i s = s\<lparr>sel_env := if ?pre then e else sel_env s\<rparr>"
      using False be by (auto simp: select_at_def isPseudoTrans_def Let_def BIT_HAS_bset)
    ultimately show thesis by (rule skip)
  qed
qed

lemma select_at_inv:
  assumes wf: "wf_sizes t" and ob: "cond_oblivious t cb conf val" and k: "k < NUMBER_TRANS t"
    and inv: "sel_inv t cb conf ev val k s"
  shows "sel_inv t cb conf ev val (Suc k) (select_at t cb conf ev k s)"
proof -
  let ?S = "bset (sel_trans s)"
  have len: "length (sel_trans s) = NUMBER_TRANS t" "length (sel_conflicts s) = NUMBER_TRANS t"
      "length (sel_target s) = NUMBER_STATES t" "length (sel_exit s) = NUMBER_STATES t"
    and S: "greedy_upto (enabled t cb conf ev val) (conflicting t) k ?S"
    and C: "bset (sel_conflicts s) = (\<Union>j \<in> ?S. bset (t_conflicts (GET_TRANS t j)))"
    and T: "bset (sel_target s) = (\<Union>j \<in> ?S. bset (t_target (GET_TRANS t j)))"
    and X: "bset (sel_exit s) = (\<Union>j \<in> ?S. bset (t_exitSet (GET_TRANS t j)))"
    and F: "sel_found s = (?S \<noteq> {})"
    using inv by (simp_all add: sel_inv_def Let_def)
  have noconf: "k \<notin> bset (sel_conflicts s) \<longleftrightarrow> (\<forall>j \<in> ?S. \<not> conflicting t j k)"
    by (auto simp: C conflicting_def BIT_HAS_bset)
  have w: "wf_transition t (GET_TRANS t k)" using wf_transitionD [OF wf k] .
  consider (take) e where "enabled t cb conf ev val k" "k \<notin> bset (sel_conflicts s)"
      "select_at t cb conf ev k s = s\<lparr>sel_found := True,
         sel_conflicts := bits_or (sel_conflicts s) (t_conflicts (GET_TRANS t k)),
         sel_target := bits_or (sel_target s) (t_target (GET_TRANS t k)),
         sel_exit := bits_or (sel_exit s) (t_exitSet (GET_TRANS t k)),
         sel_trans := BIT_SET_AT k (sel_trans s), sel_env := e\<rparr>"
    | (skip) e where "\<not> enabled t cb conf ev val k \<or> k \<in> bset (sel_conflicts s)"
      "select_at t cb conf ev k s = s\<lparr>sel_env := e\<rparr>"
    by (rule select_at_cases [OF ob, of ev k s])
  then show ?thesis
  proof cases
    case take
    then have "greedy_upto (enabled t cb conf ev val) (conflicting t) (Suc k) (insert k ?S)"
      using greedy_take [OF S] noconf by simp
    then show ?thesis
      using take(3) len k w C T X
      by (simp add: sel_inv_def Let_def bset_simps wf_transition_def bset_le Un_commute)
  next
    case skip
    then have "greedy_upto (enabled t cb conf ev val) (conflicting t) (Suc k) ?S"
      using greedy_skip [OF S] noconf by auto
    then show ?thesis using skip(2) len C T X F by (simp add: sel_inv_def Let_def)
  qed
qed

lemma select_transitions_inv:
  assumes "wf_sizes t" and "cond_oblivious t cb conf val"
  shows "sel_inv t cb conf ev val (NUMBER_TRANS t) (select_transitions t cb conf ev e)"
proof -
  have "sel_inv t cb conf ev val k (fold (select_at t cb conf ev) [0..<k] (select_init t e))"
    if "k \<le> NUMBER_TRANS t" for k
    using that
  proof (induction k)
    case 0
    show ?case by (simp add: sel_inv_def select_init_def bset_simps greedy_upto_def)
  next
    case (Suc k)
    then show ?case using select_at_inv [OF assms, of k] by simp
  qed
  then show ?thesis by (simp add: select_transitions_def)
qed

text \<open>The sizes are kept whatever the conditions do.\<close>

lemma select_sizes:
  "length (sel_target (select_transitions t cb conf ev e)) = NUMBER_STATES t \<and>
   length (sel_exit (select_transitions t cb conf ev e)) = NUMBER_STATES t \<and>
   length (sel_trans (select_transitions t cb conf ev e)) = NUMBER_TRANS t"
  unfolding select_transitions_def
  by (rule fold_invariant [where P = "\<lambda>s. length (sel_target s) = NUMBER_STATES t \<and>
        length (sel_exit s) = NUMBER_STATES t \<and> length (sel_trans s) = NUMBER_TRANS t"])
     (simp_all add: select_init_def select_at_def Let_def split: prod.split)

subsection \<open>Remembering history\<close>

text \<open>The states some history pseudo-state records when \<open>exitSet\<close> is left.\<close>

definition recorded :: "tables \<Rightarrow> bitset \<Rightarrow> nat \<Rightarrow> nat set" where
  "recorded t exitSet k = (\<Union>i \<in> {i. i < k \<and> isHistoryKind (kind t i) \<and> s_parent (GET_STATE t i) \<in> bset exitSet}.
     bset (s_completion (GET_STATE t i)))"

lemma recorded_Suc:
  "recorded t exitSet (Suc k) = recorded t exitSet k \<union>
     (if isHistoryKind (kind t k) \<and> s_parent (GET_STATE t k) \<in> bset exitSet
      then bset (s_completion (GET_STATE t k)) else {})"
  unfolding recorded_def less_Suc_eq by (cases "isHistoryKind (kind t k)") auto

lemma remember_at_bset:
  assumes "wf_sizes t" and "length h = NUMBER_STATES t" and "k < NUMBER_STATES t"
  shows "bset (remember_at t conf exitSet k h) =
     (if isHistoryKind (kind t k) \<and> s_parent (GET_STATE t k) \<in> bset exitSet
      then (bset h - bset (s_completion (GET_STATE t k))) \<union> (bset (s_completion (GET_STATE t k)) \<inter> bset conf)
      else bset h)"
  using wf_stateD [OF assms(1,3)] assms(2)
  by (auto simp: remember_at_def Let_def bset_simps BIT_HAS_bset wf_state_def dest: bset_bound)

lemma length_remember_at [simp]: "length (remember_at t conf exitSet k h) = length h"
  by (simp add: remember_at_def Let_def)

lemma length_remember_history [simp]: "length (remember_history t conf exitSet h) = length h"
  unfolding remember_history_def
  by (rule fold_invariant [where P = "\<lambda>h'. length h' = length h"]) simp_all

lemma remember_history_bset:
  assumes "wf_sizes t" and "length h = NUMBER_STATES t"
  shows "bset (remember_history t conf exitSet h) =
     (bset h - recorded t exitSet (NUMBER_STATES t)) \<union> (recorded t exitSet (NUMBER_STATES t) \<inter> bset conf)"
proof -
  have "bset (fold (remember_at t conf exitSet) [0..<k] h) =
      (bset h - recorded t exitSet k) \<union> (recorded t exitSet k \<inter> bset conf) \<and>
      length (fold (remember_at t conf exitSet) [0..<k] h) = length h" if "k \<le> NUMBER_STATES t" for k
    using that
  proof (induction k)
    case 0
    show ?case by (simp add: recorded_def)
  next
    case (Suc k)
    then show ?case
      using assms by (auto simp: remember_at_bset recorded_Suc split: if_splits)
  qed
  then show ?thesis by (simp add: remember_history_def)
qed

subsection \<open>Invocations\<close>

lemma length_invocation_at [simp]: "length (fst (invocation_at t cb conf i s)) = length (fst s)"
  by (simp add: invocation_at_def Let_def split: prod.split)

lemma invocation_at_bset:
  "i < length (fst s) \<Longrightarrow> bset (fst (invocation_at t cb conf i s)) =
     (if i \<in> bset conf then insert i (bset (fst s)) else bset (fst s) - {i})"
  by (auto simp: invocation_at_def Let_def bset_simps BIT_HAS_bset split: prod.split)

lemma manage_invocations_bset:
  assumes "length (fst s) = NUMBER_STATES t" and "length conf = NUMBER_STATES t"
  shows "bset (fst (manage_invocations t cb conf s)) = bset conf"
    and "length (fst (manage_invocations t cb conf s)) = NUMBER_STATES t"
proof -
  have "bset (fst (fold (invocation_at t cb conf) [0..<k] s)) =
      (bset (fst s) - {..<k}) \<union> (bset conf \<inter> {..<k}) \<and>
      length (fst (fold (invocation_at t cb conf) [0..<k] s)) = NUMBER_STATES t"
    if "k \<le> NUMBER_STATES t" for k
    using that
  proof (induction k)
    case (Suc k)
    let ?s = "fold (invocation_at t cb conf) [0..<k] s"
    have "bset (fst (invocation_at t cb conf k ?s)) =
        (if k \<in> bset conf then insert k (bset (fst ?s)) else bset (fst ?s) - {k})"
      using Suc by (intro invocation_at_bset) simp
    moreover have "bset (fst ?s) = (bset (fst s) - {..<k}) \<union> (bset conf \<inter> {..<k})"
      and "length (fst ?s) = NUMBER_STATES t" using Suc by simp_all
    ultimately show ?case by (simp add: lessThan_Suc) blast
  qed (use assms in simp)
  note f = this [of "NUMBER_STATES t"]
  show "bset (fst (manage_invocations t cb conf s)) = bset conf"
  proof -
    have "bset (fst s) \<subseteq> {..<NUMBER_STATES t}" and "bset conf \<subseteq> {..<NUMBER_STATES t}"
      using bset_bound assms by fastforce+
    then have "bset (fst s) - {..<NUMBER_STATES t} = {}" and "bset conf \<inter> {..<NUMBER_STATES t} = bset conf"
      by blast+
    then show ?thesis using f unfolding manage_invocations_def by blast
  qed
  show "length (fst (manage_invocations t cb conf s)) = NUMBER_STATES t"
    using f by (simp add: manage_invocations_def)
qed

lemma complete_loop_bset:
  "bset (fst (complete_loop t cb conf n s)) = bset (fst s) - {..<n} \<and>
   length (fst (complete_loop t cb conf n s)) = length (fst s)"
proof (induction n arbitrary: s)
  case (Suc n)
  obtain v e where s: "s = (v, e)" by (cases s)
  have n: "BIT_HAS n v \<or> bset v - {n} = bset v" by (auto simp: BIT_HAS_bset)
  show ?case using Suc n by (auto simp: s Let_def bset_simps BIT_HAS_bset less_Suc_eq)
qed simp

subsection \<open>The entry set\<close>

lemma length_or_first [simp]: "length (or_first_ancestors t i g es) = length es"
  by (simp add: or_first_ancestors_def split: option.split)

lemma length_or_all [simp]: "length (or_all_ancestors t i g es) = length es"
  unfolding or_all_ancestors_def
  by (rule fold_invariant [where P = "\<lambda>x. length x = length es"]) simp_all

lemma length_nested [simp]: "length (nested_histories t i es) = length es"
proof -
  have inner: "length (fold (\<lambda>k es. if isHistoryKind (kind t k) \<and> BIT_HAS k (s_children (GET_STATE t j))
      then BIT_SET_AT k es else es) xs es') = length es'" for j xs es'
    by (rule fold_invariant [where P = "\<lambda>x. length x = length es'"]) simp_all
  show ?thesis
    unfolding nested_histories_def
    by (rule fold_invariant [where P = "\<lambda>x. length x = length es"]) (simp_all add: inner)
qed

lemma length_add_descendants:
  "length (fst (add_descendants_at t conf history exitSet i s)) = length (fst s) \<and>
   length (snd (add_descendants_at t conf history exitSet i s)) = length (snd s)"
proof -
  obtain es ts where s: "s = (es, ts)" by (cases s)
  have init: "length (fst (enter_initial t i (es, ts))) = length es \<and> length (snd (enter_initial t i (es, ts))) = length ts"
    unfolding enter_initial_def
    by (rule fold_invariant [where P = "\<lambda>x. length (fst x) = length es \<and> length (snd x) = length ts"])
      (auto simp: Let_def split: if_splits prod.splits)
  have "length (fst (enter_history t conf history i (es, ts))) = length es \<and>
      length (snd (enter_history t conf history i (es, ts))) = length ts"
    by (simp add: enter_history_def history_default_def Let_def split: option.split)
  then show ?thesis
    using init by (simp add: s add_descendants_at_def enter_compound_def Let_def)
qed

lemma length_add_ancestors [simp]: "length (add_ancestors t g) = length g"
  unfolding add_ancestors_def
  by (rule while_bits_invariant [where P = "\<lambda>x. length x = length g"]) simp_all

lemma length_establish:
  "length (fst (establish_entryset t conf history exitSet targetSet transSet)) = length targetSet \<and>
   length (snd (establish_entryset t conf history exitSet targetSet transSet)) = length transSet"
  unfolding establish_entryset_def
  by (rule while_bits_invariant [where P = "\<lambda>x. length (fst x) = length targetSet \<and> length (snd x) = length transSet"])
     (simp_all add: length_add_descendants)

end
