(* ===== verification/MicroStep_Runs.thy ===== *)
theory MicroStep_Runs
  imports MicroStep_Sections
begin

text \<open>
  Whole calls of \<open>FastMicroStep::step\<close> and sequences of them. \<open>reach\<close> is the step relation of the
  micro stepper together with the calls the interpreter makes between steps (cancelling, resetting)
  and with arbitrary changes of the environment (events that arrive). The invariant \<open>ms_inv\<close> holds in
  every reachable state, for every table whose bitsets have the right sizes and for every
  implementation of the callbacks.
\<close>

subsection \<open>The effect of a micro step\<close>

lemma note_configuration_frame [simp]:
  "m_configuration (fst (note_configuration cb s)) = m_configuration (fst s)"
  "m_invocations (fst (note_configuration cb s)) = m_invocations (fst s)"
  "m_history (fst (note_configuration cb s)) = m_history (fst s)"
  "m_initializedData (fst (note_configuration cb s)) = m_initializedData (fst s)"
  "m_flags (fst (note_configuration cb s)) = m_flags (fst s)"
  "m_isCancelled (fst (note_configuration cb s)) = m_isCancelled (fst s)"
  by (simp_all add: note_configuration_def Let_def split: prod.split)

definition entry_of :: "tables \<Rightarrow> bitset \<Rightarrow> bitset \<Rightarrow> bitset \<Rightarrow> ms \<Rightarrow> nat set" where
  "entry_of t targetSet exitSet transSet m =
     bset (fst (establish_entryset t (m_configuration m) (m_history m) exitSet targetSet transSet))"

lemma microstep_unfold:
  "microstep t cb targetSet exitSet transSet (m, e) =
    (let ES = establish_entryset t (m_configuration m) (m_history m) exitSet targetSet transSet;
         X = exit_states t cb exitSet (NUMBER_STATES t) (m_configuration m, e);
         N = enter_states t cb (fst ES) (snd ES) (m\<lparr>m_configuration := fst X\<rparr>,
               take_transitions t cb (fst X) (snd ES) (snd X))
     in note_configuration cb (fst N, cb_monitor cb afterMicroStep (snd N)))"
  by (simp add: microstep_def Let_def split: prod.split)

lemma microstep_conf:
  assumes "length (m_configuration m) = NUMBER_STATES t" and "length targetSet = NUMBER_STATES t"
  shows "bset (m_configuration (fst (microstep t cb targetSet exitSet transSet (m, e)))) =
      (bset (m_configuration m) - bset exitSet) \<union>
      {i \<in> entry_of t targetSet exitSet transSet m. proper t i}"
    and "length (m_configuration (fst (microstep t cb targetSet exitSet transSet (m, e)))) = NUMBER_STATES t"
proof -
  let ?ES = "establish_entryset t (m_configuration m) (m_history m) exitSet targetSet transSet"
  let ?X = "exit_states t cb exitSet (NUMBER_STATES t) (m_configuration m, e)"
  let ?s = "(m\<lparr>m_configuration := fst ?X\<rparr>, take_transitions t cb (fst ?X) (snd ?ES) (snd ?X))"
  have len: "length (m_configuration (fst ?s)) = NUMBER_STATES t"
    using exit_states_conf(2) [of t cb exitSet "NUMBER_STATES t" "(m_configuration m, e)"] assms(1) by simp
  have es: "bset (fst ?ES) \<subseteq> {..<NUMBER_STATES t}"
    using length_establish [of t "m_configuration m" "m_history m" exitSet targetSet transSet] assms(2)
      bset_bound by fastforce
  have x: "bset (fst ?X) = bset (m_configuration m) - bset exitSet"
    using exit_states_conf(1) [of t cb exitSet "NUMBER_STATES t" "(m_configuration m, e)"] assms(1) bset_bound
    by fastforce
  show "bset (m_configuration (fst (microstep t cb targetSet exitSet transSet (m, e)))) =
      (bset (m_configuration m) - bset exitSet) \<union>
      {i \<in> entry_of t targetSet exitSet transSet m. proper t i}"
    using enter_states_conf(1) [OF len, of cb "fst ?ES" "snd ?ES"] x es
    by (auto simp: microstep_unfold Let_def entry_of_def)
  show "length (m_configuration (fst (microstep t cb targetSet exitSet transSet (m, e)))) = NUMBER_STATES t"
    using enter_states_conf(2) [OF len, of cb "fst ?ES" "snd ?ES"] by (simp add: microstep_unfold Let_def)
qed

lemma microstep_frame:
  "m_invocations (fst (microstep t cb targetSet exitSet transSet (m, e))) = m_invocations m"
  "m_history (fst (microstep t cb targetSet exitSet transSet (m, e))) = m_history m"
  "m_isCancelled (fst (microstep t cb targetSet exitSet transSet (m, e))) = m_isCancelled m"
  "length (m_initializedData (fst (microstep t cb targetSet exitSet transSet (m, e)))) =
     length (m_initializedData m)"
  by (simp_all add: microstep_unfold Let_def enter_states_frame)

subsection \<open>Data is initialised before a state is active\<close>

definition data_inv :: "ms \<Rightarrow> bool" where
  "data_inv m \<longleftrightarrow> bset (m_configuration m) \<subseteq> bset (m_initializedData m) \<and>
     length (m_initializedData m) = length (m_configuration m)"

lemma enter_at_data_inv: "data_inv (fst s) \<Longrightarrow> data_inv (fst (enter_at t cb transSet i s))"
  by (cases s) (auto simp: enter_at_cases data_inv_def Let_def enter_data_def bset_simps BIT_HAS_bset)

lemma microstep_data_inv:
  assumes "data_inv m"
  shows "data_inv (fst (microstep t cb targetSet exitSet transSet (m, e)))"
proof -
  have "data_inv (m\<lparr>m_configuration := fst (exit_states t cb exitSet n (m_configuration m, e))\<rparr>)" for n
    using assms exit_states_conf [of t cb exitSet n "(m_configuration m, e)"] by (auto simp: data_inv_def)
  then have "data_inv (fst (enter_states t cb es ts
      (m\<lparr>m_configuration := fst (exit_states t cb exitSet n (m_configuration m, e))\<rparr>, e')))" for es ts n e'
    unfolding enter_states_fold
    by (rule_tac fold_invariant [where P = "\<lambda>s. data_inv (fst s)"]) (simp_all add: enter_at_data_inv)
  then show ?thesis by (simp add: microstep_unfold Let_def data_inv_def)
qed

subsection \<open>The invariant\<close>

definition ms_inv :: "tables \<Rightarrow> ms \<Rightarrow> bool" where
  "ms_inv t m \<longleftrightarrow> ms_sized t m \<and> data_inv m \<and>
     (\<forall>i \<in> bset (m_configuration m) \<union> bset (m_history m). proper t i)"

lemma microstep_inv:
  assumes "ms_inv t m" and "length targetSet = NUMBER_STATES t"
  shows "ms_inv t (fst (microstep t cb targetSet exitSet transSet (m, e)))"
  using assms microstep_conf [of m t targetSet cb exitSet transSet e] microstep_data_inv [of m t cb]
  by (auto simp: ms_inv_def ms_sized_def microstep_frame)

lemma ms_inv_update [simp]:
  "ms_inv t (m\<lparr>m_flags := f\<rparr>) = ms_inv t m" "ms_inv t (m\<lparr>m_event := ev\<rparr>) = ms_inv t m"
  "ms_inv t (m\<lparr>m_isCancelled := b\<rparr>) = ms_inv t m"
  "ms_inv t (m\<lparr>m_microstepConfigurations := cs\<rparr>) = ms_inv t m"
  by (simp_all add: ms_inv_def ms_sized_def data_inv_def)

lemma ms_inv_invocations:
  "ms_inv t m \<Longrightarrow> length v = NUMBER_STATES t \<Longrightarrow> ms_inv t (m\<lparr>m_invocations := v\<rparr>)"
  by (simp add: ms_inv_def ms_sized_def data_inv_def)

lemma ms_inv_history:
  assumes "wf_sizes t" and "ms_inv t m"
  shows "ms_inv t (m\<lparr>m_history := remember_history t (m_configuration m) exitSet (m_history m)\<rparr>)"
  using assms remember_history_bset [OF assms(1), of "m_history m" "m_configuration m" exitSet]
  by (auto simp: ms_inv_def ms_sized_def data_inv_def)

text \<open>\<open>select_and_step\<close> with its local variables substituted.\<close>

lemma select_and_step_cases:
  obtains (none) "\<not> sel_found (select_transitions t cb (m_configuration m) (m_event m) e)"
      "\<not> has_flag (m_flags m) CTX_TRANSITION_FOUND"
      "select_and_step t cb (m, e) = (USCXML_MICROSTEPPED,
         m\<lparr>m_flags := clear_flag CTX_SPONTANEOUS (clear_flag CTX_STABLE (m_flags m))\<rparr>,
         sel_env (select_transitions t cb (m_configuration m) (m_event m) e))"
  | (some) f where "sel_found (select_transitions t cb (m_configuration m) (m_event m) e) \<or>
        has_flag (m_flags m) CTX_TRANSITION_FOUND"
      "\<And>k. bit f k \<longleftrightarrow> k = 0 \<or> (bit (m_flags m) k \<and> k \<noteq> 3 \<and> k \<noteq> 5)"
      "select_and_step t cb (m, e) = (USCXML_MICROSTEPPED,
         (let sel = select_transitions t cb (m_configuration m) (m_event m) e;
              exitSet = bits_and (sel_exit sel) (m_configuration m)
          in microstep t cb (sel_target sel) exitSet (sel_trans sel)
              (m\<lparr>m_flags := f, m_history := remember_history t (m_configuration m) exitSet (m_history m)\<rparr>,
               cb_monitor cb beforeMicroStep (sel_env sel))))"
proof -
  let ?sel = "select_transitions t cb (m_configuration m) (m_event m) e"
  let ?f0 = "clear_flag CTX_STABLE (m_flags m)"
  let ?f1 = "if sel_found ?sel then set_flag CTX_TRANSITION_FOUND ?f0 else ?f0"
  let ?f = "clear_flag CTX_TRANSITION_FOUND (set_flag CTX_SPONTANEOUS ?f1)"
  have found: "has_flag ?f1 CTX_TRANSITION_FOUND \<longleftrightarrow> sel_found ?sel \<or> has_flag (m_flags m) CTX_TRANSITION_FOUND"
    by (auto simp: flag_simps)
  show thesis
  proof (cases "has_flag ?f1 CTX_TRANSITION_FOUND")
    case True
    have "bit ?f k \<longleftrightarrow> k = 0 \<or> (bit (m_flags m) k \<and> k \<noteq> 3 \<and> k \<noteq> 5)" for k
      by (auto simp: flag_simps dest: bit_imp_le_length)
    then show thesis
      using True found
      by (intro some [of ?f]) (auto simp: select_and_step_def Let_def split: if_splits)
  next
    case False
    then have n: "\<not> sel_found ?sel" "\<not> has_flag (m_flags m) CTX_TRANSITION_FOUND" using found by auto
    then show thesis using False by (intro none) (simp_all add: select_and_step_def Let_def)
  qed
qed

lemma select_and_step_inv:
  assumes wf: "wf_sizes t" and inv: "ms_inv t m"
  shows "ms_inv t (fst (snd (select_and_step t cb (m, e))))"
proof (cases rule: select_and_step_cases [of t cb m e])
  case none
  then show ?thesis using inv by simp
next
  case (some f)
  have "ms_inv t (m\<lparr>m_flags := f, m_history := remember_history t (m_configuration m) X (m_history m)\<rparr>)" for X
    using ms_inv_history [OF wf, of "m\<lparr>m_flags := f\<rparr>" X] inv by simp
  then show ?thesis using some(3) select_sizes [of t cb "m_configuration m" "m_event m" e]
    by (simp add: Let_def microstep_inv)
qed

text \<open>The three ways through \<open>step_external\<close> after the invocations are managed.\<close>

lemma step_external_cases:
  obtains (stable) v e1 where "manage_invocations t cb (m_configuration m) (m_invocations m, e) = (v, e1)"
      "\<not> has_flag (m_flags m) CTX_STABLE"
      "step_external t cb b (m, e) = (Inr USCXML_MACROSTEPPED,
         m\<lparr>m_invocations := v, m_microstepConfigurations := [], m_flags := set_flag CTX_STABLE (m_flags m)\<rparr>,
         cb_monitor cb onStableConfiguration e1)"
  | (throw) v e1 exc e2 where "manage_invocations t cb (m_configuration m) (m_invocations m, e) = (v, e1)"
      "has_flag (m_flags m) CTX_STABLE"
      "cb_dequeueExternal cb b (isInState t (m_configuration m)) e1 = (Inl exc, e2)"
      "step_external t cb b (m, e) = (Inl exc, m\<lparr>m_invocations := v\<rparr>, e2)"
  | (event) v e1 ev e2 where "manage_invocations t cb (m_configuration m) (m_invocations m, e) = (v, e1)"
      "has_flag (m_flags m) CTX_STABLE"
      "cb_dequeueExternal cb b (isInState t (m_configuration m)) e1 = (Inr ev, e2)" "event_valid ev"
      "step_external t cb b (m, e) = (case select_and_step t cb
         (m\<lparr>m_invocations := v, m_event := ev\<rparr>, cb_monitor cb (beforeProcessingEvent ev) e2) of
         (st, m3, e3) \<Rightarrow> (Inr st, m3, e3))"
  | (idle) v e1 ev e2 where "manage_invocations t cb (m_configuration m) (m_invocations m, e) = (v, e1)"
      "has_flag (m_flags m) CTX_STABLE"
      "cb_dequeueExternal cb b (isInState t (m_configuration m)) e1 = (Inr ev, e2)" "\<not> event_valid ev"
      "step_external t cb b (m, e) =
         (if m_isCancelled m then (Inr USCXML_CANCELLED, m\<lparr>m_invocations := v, m_event := ev,
            m_flags := set_flag CTX_TOP_LEVEL_FINAL (m_flags m)\<rparr>, e2)
          else (Inr USCXML_IDLE, m\<lparr>m_invocations := v, m_event := ev\<rparr>, e2))"
proof -
  obtain v e1 where v: "manage_invocations t cb (m_configuration m) (m_invocations m, e) = (v, e1)" by fastforce
  obtain r e2 where r: "cb_dequeueExternal cb b (isInState t (m_configuration m)) e1 = (r, e2)" by fastforce
  show thesis
  proof (cases "has_flag (m_flags m) CTX_STABLE")
    case False
    then show thesis using v by (intro stable [of v e1]) (simp_all add: step_external_def)
  next
    case st: True
    show thesis
    proof (cases r)
      case (Inl exc)
      then show thesis using v r st by (intro throw [of v e1 exc e2]) (simp_all add: step_external_def)
    next
      case (Inr ev)
      then show thesis
        using v r st event [of v e1 ev e2] idle [of v e1 ev e2]
        by (cases "event_valid ev") (simp_all add: step_external_def Let_def)
    qed
  qed
qed

lemma invocations_length:
  "manage_invocations t cb (m_configuration m) (m_invocations m, e) = (v, e1) \<Longrightarrow> ms_inv t m \<Longrightarrow>
   length v = NUMBER_STATES t \<and> bset v = bset (m_configuration m)"
  using manage_invocations_bset [of "(m_invocations m, e)" t "m_configuration m" cb]
  by (simp add: ms_inv_def ms_sized_def)

lemma step_external_inv:
  assumes wf: "wf_sizes t" and inv: "ms_inv t m"
  shows "ms_inv t (fst (snd (step_external t cb b (m, e))))"
proof -
  have v: "ms_inv t (m\<lparr>m_invocations := v\<rparr>)"
    if "manage_invocations t cb (m_configuration m) (m_invocations m, e) = (v, e1)" for v e1
    using invocations_length [OF that inv] by (intro ms_inv_invocations [OF inv]) simp
  show ?thesis
  proof (cases rule: step_external_cases [of t cb m e b])
    case (event v e1 ev e2)
    then have "ms_inv t (m\<lparr>m_invocations := v, m_event := ev\<rparr>)" using v by simp
    from select_and_step_inv [OF wf this, of cb "cb_monitor cb (beforeProcessingEvent ev) e2"]
    show ?thesis using event(5) by (simp add: case_prod_beta)
  qed (use v in simp_all)
qed

lemma complete_inv:
  assumes "ms_inv t m"
  shows "ms_inv t (fst (complete t cb (m, e)))"
  using assms complete_loop_bset [of t cb "m_configuration m" "NUMBER_STATES t" "(m_invocations m, cb_monitor cb beforeCompletion e)"]
  by (auto simp: complete_def ms_inv_def ms_sized_def data_inv_def split: prod.split)

text \<open>The ways through \<open>step\<close>.\<close>

lemma ms_step_cases:
  obtains (finished) "has_flag (m_flags m) CTX_FINISHED"
      "ms_step t cb b (m, e) = (Inr USCXML_FINISHED, m, e)"
  | (complete) "\<not> has_flag (m_flags m) CTX_FINISHED" "has_flag (m_flags m) CTX_TOP_LEVEL_FINAL"
      "ms_step t cb b (m, e) = (Inr USCXML_FINISHED, complete t cb (m, e))"
  | (pristine) "m_flags m = CTX_PRISTINE"
      "ms_step t cb b (m, e) = (Inr USCXML_MICROSTEPPED,
         microstep t cb (bits_or (bits_none (NUMBER_STATES t)) (s_completion (GET_STATE t 0)))
           (bits_none (NUMBER_STATES t)) (bits_none (NUMBER_TRANS t))
           (m\<lparr>m_flags := set_flag (CTX_SPONTANEOUS OR CTX_INITIALIZED) (m_flags m)\<rparr>,
            cb_monitor cb beforeMicroStep e))"
  | (select) ev e1 where "\<not> has_flag (m_flags m) CTX_FINISHED" "\<not> has_flag (m_flags m) CTX_TOP_LEVEL_FINAL"
      "m_flags m \<noteq> CTX_PRISTINE" "has_flag (m_flags m) CTX_SPONTANEOUS \<or> event_valid ev"
      "ms_step t cb b (m, e) = (case select_and_step t cb (m\<lparr>m_event := ev\<rparr>, e1) of
         (st, m', e') \<Rightarrow> (Inr st, m', e'))"
  | (external) ev e1 where "\<not> has_flag (m_flags m) CTX_FINISHED" "\<not> has_flag (m_flags m) CTX_TOP_LEVEL_FINAL"
      "m_flags m \<noteq> CTX_PRISTINE" "\<not> has_flag (m_flags m) CTX_SPONTANEOUS"
      "cb_dequeueInternal cb e = (ev, e1)" "\<not> event_valid ev"
      "ms_step t cb b (m, e) = step_external t cb b (m\<lparr>m_event := ev\<rparr>, e1)"
proof -
  consider "has_flag (m_flags m) CTX_FINISHED"
    | "\<not> has_flag (m_flags m) CTX_FINISHED" "has_flag (m_flags m) CTX_TOP_LEVEL_FINAL"
    | "\<not> has_flag (m_flags m) CTX_FINISHED" "\<not> has_flag (m_flags m) CTX_TOP_LEVEL_FINAL"
      "m_flags m = CTX_PRISTINE"
    | "\<not> has_flag (m_flags m) CTX_FINISHED" "\<not> has_flag (m_flags m) CTX_TOP_LEVEL_FINAL"
      "m_flags m \<noteq> CTX_PRISTINE" "has_flag (m_flags m) CTX_SPONTANEOUS"
    | "\<not> has_flag (m_flags m) CTX_FINISHED" "\<not> has_flag (m_flags m) CTX_TOP_LEVEL_FINAL"
      "m_flags m \<noteq> CTX_PRISTINE" "\<not> has_flag (m_flags m) CTX_SPONTANEOUS" by blast
  then show thesis
  proof cases
    case 1
    then show thesis by (intro finished) (simp_all add: ms_step_def)
  next
    case 2
    then show thesis by (intro complete) (simp_all add: ms_step_def split: prod.split)
  next
    case 3
    then show thesis by (intro pristine) (simp_all add: ms_step_def)
  next
    case 4
    then show thesis by (intro select [of "Event_new []" e]) (simp_all add: ms_step_def)
  next
    case 5
    obtain ev e1 where d: "cb_dequeueInternal cb e = (ev, e1)" by fastforce
    show thesis
      using 5 d select [of ev "cb_monitor cb (beforeProcessingEvent ev) e1"] external [of ev e1]
      by (cases "event_valid ev") (simp_all add: ms_step_def)
  qed
qed

lemma ms_step_inv:
  assumes wf: "wf_sizes t" and inv: "ms_inv t m"
  shows "ms_inv t (fst (snd (ms_step t cb b (m, e))))"
proof (cases rule: ms_step_cases [of m t cb b e])
  case pristine
  then show ?thesis using inv by (simp add: microstep_inv)
next
  case (select ev e1)
  have "ms_inv t (m\<lparr>m_event := ev\<rparr>)" using inv by simp
  from select_and_step_inv [OF wf this, of cb e1] show ?thesis
    using select(5) by (simp add: case_prod_beta)
next
  case (external ev e1)
  then show ?thesis using step_external_inv [OF wf, of "m\<lparr>m_event := ev\<rparr>"] inv by simp
qed (use inv complete_inv in simp_all)

lemma ms_reset_inv: "ms_inv t m \<Longrightarrow> ms_inv t (ms_reset m)"
  by (simp add: ms_inv_def ms_sized_def data_inv_def ms_reset_def bset_simps)

subsection \<open>Reachable states\<close>

text \<open>The micro stepper after \<open>init\<close>: all bitsets empty, no flag set.\<close>

definition ms_initial :: "tables \<Rightarrow> ms" where
  "ms_initial t = \<lparr>m_flags = CTX_PRISTINE, m_configuration = bits_none (NUMBER_STATES t),
     m_invocations = bits_none (NUMBER_STATES t), m_history = bits_none (NUMBER_STATES t),
     m_initializedData = bits_none (NUMBER_STATES t), m_microstepConfigurations = [],
     m_isInitialized = True, m_isCancelled = False, m_event = Event_new []\<rparr>"

inductive reach :: "tables \<Rightarrow> 'e callbacks \<Rightarrow> ms \<Rightarrow> 'e \<Rightarrow> bool" for t cb where
  initial: "reach t cb (ms_initial t) e"
| stepped: "reach t cb m e \<Longrightarrow> ms_step t cb b (m, e) = (r, m', e') \<Longrightarrow> reach t cb m' e'"
| environment: "reach t cb m e \<Longrightarrow> reach t cb m e'"
| cancelled: "reach t cb m e \<Longrightarrow> reach t cb (markAsCancelled m) e"
| reset: "reach t cb m e \<Longrightarrow> reach t cb (ms_reset m) e"

lemma reach_inv:
  assumes "reach t cb m e" and wf: "wf_sizes t"
  shows "ms_inv t m"
  using assms(1)
proof induction
  case (initial e)
  show ?case by (simp add: ms_initial_def ms_inv_def ms_sized_def data_inv_def bset_simps)
next
  case (stepped m e b r m' e')
  then show ?case using ms_step_inv [OF wf, of m cb b e] by simp
qed (simp_all add: markAsCancelled_def ms_reset_inv)

subsection \<open>Flags along a run\<close>

lemma handle_final_flags:
  "bit (m_flags (fst (handle_final t cb i s))) k \<longleftrightarrow> bit (m_flags (fst s)) k \<or>
     (k = 2 \<and> bits_count (s_ancestors (GET_STATE t i)) = 1 \<and> BIT_HAS 0 (s_ancestors (GET_STATE t i)))"
  by (auto simp: handle_final_def Let_def flag_simps split: prod.split)

lemma enter_at_flags:
  "k \<noteq> 2 \<Longrightarrow> bit (m_flags (fst (enter_at t cb transSet i s))) k \<longleftrightarrow> bit (m_flags (fst s)) k"
  by (cases s) (simp add: enter_at_cases Let_def handle_final_flags)

lemma enter_states_flags:
  "k \<noteq> 2 \<Longrightarrow> bit (m_flags (fst (enter_states t cb es ts s))) k \<longleftrightarrow> bit (m_flags (fst s)) k"
  unfolding enter_states_fold
  by (rule fold_invariant [where P = "\<lambda>s'. bit (m_flags (fst s')) k = bit (m_flags (fst s)) k"])
     (simp_all add: enter_at_flags)

lemma microstep_flags:
  "k \<noteq> 2 \<Longrightarrow> bit (m_flags (fst (microstep t cb targetSet exitSet transSet (m, e)))) k \<longleftrightarrow> bit (m_flags m) k"
  by (simp add: microstep_unfold Let_def enter_states_flags)

lemma select_and_step_finished:
  "bit (m_flags (fst (snd (select_and_step t cb (m, e))))) 4 \<longleftrightarrow> bit (m_flags m) 4"
  by (cases rule: select_and_step_cases [of t cb m e])
     (auto simp: flag_simps microstep_flags Let_def dest: bit_imp_le_length)

lemma step_external_finished:
  "bit (m_flags (fst (snd (step_external t cb b (m, e))))) 4 \<longleftrightarrow> bit (m_flags m) 4"
  by (cases rule: step_external_cases [of t cb m e b])
     (auto simp: flag_simps select_and_step_finished case_prod_beta)

text \<open>Once the machine has finished nothing is invoked any more.\<close>

lemma complete_invocations:
  assumes "ms_inv t m"
  shows "bset (m_invocations (fst (complete t cb (m, e)))) = {}"
proof -
  let ?r = "complete_loop t cb (m_configuration m) (NUMBER_STATES t) (m_invocations m, cb_monitor cb beforeCompletion e)"
  have "m_invocations (fst (complete t cb (m, e))) = fst ?r"
    by (simp add: complete_def Let_def split: prod.split)
  moreover have "bset (m_invocations m) \<subseteq> {..<NUMBER_STATES t}"
    using assms bset_bound by (fastforce simp: ms_inv_def ms_sized_def)
  ultimately show ?thesis
    using complete_loop_bset [of t cb "m_configuration m" "NUMBER_STATES t"
        "(m_invocations m, cb_monitor cb beforeCompletion e)"] by auto
qed

lemma complete_flags: "bit (m_flags (fst (complete t cb (m, e)))) k \<longleftrightarrow> bit (m_flags m) k \<or> k = 4"
  by (simp add: complete_def Let_def flag_simps split: prod.split)

lemma ms_step_finished:
  assumes inv: "ms_inv t m" and fin: "bit (m_flags m) 4 \<longrightarrow> bset (m_invocations m) = {}"
    and f: "bit (m_flags (fst (snd (ms_step t cb b (m, e))))) 4"
  shows "bset (m_invocations (fst (snd (ms_step t cb b (m, e))))) = {}"
proof (cases rule: ms_step_cases [of m t cb b e])
  case finished
  then show ?thesis using fin by (simp add: flag_simps)
next
  case complete
  then show ?thesis using complete_invocations [OF inv] by simp
next
  case pristine
  then show ?thesis using f by (simp add: microstep_flags flag_simps CTX_PRISTINE_def set_flag_def bit_simps)
next
  case (select ev e1)
  then show ?thesis using f select_and_step_finished [of t cb "m\<lparr>m_event := ev\<rparr>" e1]
    by (simp add: flag_simps case_prod_beta)
next
  case (external ev e1)
  then show ?thesis using f by (simp add: flag_simps step_external_finished)
qed

lemma reach_finished:
  assumes "reach t cb m e" and wf: "wf_sizes t" and "has_flag (m_flags m) CTX_FINISHED"
  shows "bset (m_invocations m) = {}"
proof -
  have "bit (m_flags m) 4 \<longrightarrow> bset (m_invocations m) = {}"
    using assms(1)
  proof induction
    case (stepped m e b r m' e')
    then show ?case
      using ms_step_finished [of t m cb b e] reach_inv [OF stepped(1) wf] by simp
  qed (simp_all add: ms_initial_def ms_reset_def markAsCancelled_def CTX_PRISTINE_def bset_simps)
  then show ?thesis using assms(3) by (simp add: flag_simps)
qed

lemma select_and_step_result: "fst (select_and_step t cb s) = USCXML_MICROSTEPPED"
  by (cases s; cases rule: select_and_step_cases [of t cb "fst s" "snd s"]) auto

lemma FINISHED_cases:
  assumes "ms_step t cb b (m, e) = (Inr USCXML_FINISHED, m', e')"
  shows "has_flag (m_flags m') CTX_FINISHED"
proof (cases rule: ms_step_cases [of m t cb b e])
  case complete
  then have "m' = fst (complete t cb (m, e))" using assms by (metis fst_conv prod.inject)
  then show ?thesis using complete_flags [of t cb m e 4] by (simp add: flag_simps)
next
  case (select ev e1)
  then show ?thesis
    using assms by (cases rule: select_and_step_cases [of t cb "m\<lparr>m_event := ev\<rparr>" e1]) (auto simp: case_prod_beta)
next
  case (external ev e1)
  then show ?thesis
    using assms
    by (cases rule: step_external_cases [of t cb "m\<lparr>m_event := ev\<rparr>" e1 b])
      (auto simp: case_prod_beta select_and_step_result split: if_splits)
qed (use assms in auto)

end
