(* ===== verification/MicroStep_Init.thy ===== *)
theory MicroStep_Init
  imports MicroStep_Runs Predicates "HOL-Library.Multiset"
begin

text \<open>
  \<open>FastMicroStep::init\<close>: from the document to the tables of the micro stepper. The machine's root
  element is the document \<open>doc\<close>. The user data that the code attaches to elements is recomputed: the
  \<open>uscxmlState\<close> of an element is its index in the list of states (\<open>index_of\<close>), \<open>hasHistoryChild\<close> is
  \<open>hasHistoryChild\<close>. A failed assertion is \<open>None\<close>. The cache files are an optimisation that stores the
  same bitsets and are not modelled.
\<close>

subsection \<open>resortStates\<close>

text \<open>A pass moves each matching child, in order, before the first child; so the last one ends up first.\<close>

definition move_front :: "(node \<Rightarrow> bool) \<Rightarrow> node list \<Rightarrow> node list" where
  "move_front p cs = rev (filter p cs) @ filter (\<lambda>c. \<not> p c) cs"

fun resortStates :: "string \<Rightarrow> node \<Rightarrow> node" where
  "resortStates xmlPrefix (Element i p l ns as cs) =
    (let element = Element i p l ns as cs;
         cs0 = map (\<lambda>c. if isElement c then resortStates xmlPrefix c else c) cs;
         history = (\<lambda>c. isElement c \<and> TAGNAME c = xmlPrefix @ ''history'');
         cs1 = move_front (\<lambda>c. history c \<and>
                 (\<not> HAS_ATTR element ''type'' \<or> iequals (ATTR element ''type'') ''shallow'')) cs0;
         cs2 = move_front (\<lambda>c. history c \<and>
                 HAS_ATTR element ''type'' \<and> iequals (ATTR element ''type'') ''deep'') cs1;
         cs3 = move_front (\<lambda>c. isElement c \<and> LOCALNAME c = ''initial'') cs2
     in Element i p l ns as cs3)"
| "resortStates xmlPrefix n = n"

subsection \<open>States\<close>

definition index_of :: "node list \<Rightarrow> node \<Rightarrow> nat option" where
  "index_of sts n = List.find (\<lambda>i. same (sts ! i) n) [0..<length sts]"

definition collectStates :: "node \<Rightarrow> node list" where
  "collectStates scxml =
    (let p = XML_PREFIX scxml in inDocumentOrder [p @ ''state'', p @ ''parallel'', p @ ''scxml'',
       p @ ''initial'', p @ ''final'', p @ ''history''] scxml)"

text \<open>The lists \<open>covered\<close> and \<open>perParentcovered\<close> of \<open>getHistoryCompletion\<close> are always empty.\<close>

definition same_parent :: "node \<Rightarrow> node \<Rightarrow> node \<Rightarrow> bool" where
  "same_parent doc a b = same_opt (getParentNode doc a) (getParentNode doc b)"

definition getHistoryCompletion :: "node \<Rightarrow> node list \<Rightarrow> node \<Rightarrow> node list" where
  "getHistoryCompletion doc sts history =
    (let deep = (HAS_ATTR history ''type'' \<and> iequals (ATTR history ''type'') ''deep'') in
     filter (\<lambda>s. \<not> same s history \<and> \<not> isHistory s \<and>
       (if deep then isDescendant doc (Some s) (getParentNode doc history) else same_parent doc s history)) sts)"

definition hasHistoryChild :: "node \<Rightarrow> node list \<Rightarrow> node \<Rightarrow> nat option" where
  "hasHistoryChild doc sts history =
    (if isHistory history
     then List.find (\<lambda>j. \<not> same (sts ! j) history \<and> isHistory (sts ! j) \<and>
            isDescendant doc (Some (sts ! j)) (getParentNode doc history)) (rev [0..<length sts])
     else None)"

definition getCompletion :: "node \<Rightarrow> node list \<Rightarrow> node \<Rightarrow> node option list" where
  "getCompletion doc sts state =
    (if isHistory state then map Some (getHistoryCompletion doc sts state)
     else if isParallel state then map Some (getChildStates state True)
     else if HAS_ATTR state ''initial'' then getStates (tokens (ATTR state ''initial'')) doc
     else
       (case filterChildElements (XML_PREFIX doc @ ''initial'') state False of
          ini # _ \<Rightarrow> [Some ini]
        | [] \<Rightarrow> (case List.find (\<lambda>c. isState c True) (elementChildren state) of
                  Some c \<Rightarrow> [Some c] | None \<Rightarrow> [])))"

text \<open>
  The loop that turns a list of elements into a bitset walks the states once and takes the list's front
  when it meets it; elements that are left over fail the assertion.
\<close>

fun mark_in_order :: "node list \<Rightarrow> node option list \<Rightarrow> bitset \<times> node option list" where
  "mark_in_order [] els = ([], els)"
| "mark_in_order (s # sts) els =
     (if els \<noteq> [] \<and> same_opt (Some s) (hd els)
      then (let (b, r) = mark_in_order sts (tl els) in (True # b, r))
      else (let (b, r) = mark_in_order sts els in (False # b, r)))"

definition to_bits :: "node list \<Rightarrow> node option list \<Rightarrow> bitset option" where
  "to_bits sts els = (let (b, r) = mark_in_order sts els in if r = [] then Some b else None)"

definition ancestor_indices :: "node \<Rightarrow> node list \<Rightarrow> node \<Rightarrow> nat list" where
  "ancestor_indices doc sts n =
     map (\<lambda>p. the (index_of sts p)) (takeWhile (\<lambda>p. index_of sts p \<noteq> None) (parents doc n))"

definition state_type :: "node \<Rightarrow> node \<Rightarrow> byte" where
  "state_type doc el =
    (if iequals (TAGNAME el) (XML_PREFIX doc @ ''initial'') then STATE_INITIAL
     else if isFinal el then STATE_FINAL
     else if isHistory el then
       (if HAS_ATTR el ''type'' \<and> iequals (ATTR el ''type'') ''deep'' then STATE_HISTORY_DEEP
        else STATE_HISTORY_SHALLOW)
     else if isAtomic el then STATE_ATOMIC
     else if isParallel el then STATE_PARALLEL
     else STATE_COMPOUND)"

definition early_data :: "node \<Rightarrow> node list" where
  "early_data doc =
    (let dataModels = filter (\<lambda>d. areFromSameMachine doc d doc)
           (filterChildElements (XML_PREFIX doc @ ''datamodel'') doc True)
     in filterChildElementsOf (XML_PREFIX doc @ ''data'') dataModels False)"

definition state_data :: "node \<Rightarrow> bool \<Rightarrow> nat \<Rightarrow> node \<Rightarrow> node list" where
  "state_data doc late i el =
    (if late then (if elementChildren el \<noteq> []
       then filterChildElementsOf (XML_PREFIX doc @ ''data'')
              (filterChildElements (XML_PREFIX doc @ ''datamodel'') el False) False else [])
     else if i = 0 then early_data doc else [])"

definition init_state :: "node \<Rightarrow> bool \<Rightarrow> node list \<Rightarrow> nat \<Rightarrow> State option" where
  "init_state doc late sts i =
    (let el = sts ! i; p = XML_PREFIX doc; n = length sts;
         kids = (\<lambda>tag. if elementChildren el \<noteq> [] then filterChildElements (p @ tag) el False else []);
         ty = state_type doc el
     in map_option (\<lambda>cmp. \<lparr>s_element = el, s_completion = cmp,
          s_children = map (\<lambda>j. i \<in> set (ancestor_indices doc sts (sts ! j))) [0..<n],
          s_ancestors = map (\<lambda>j. j \<in> set (ancestor_indices doc sts el)) [0..<n],
          s_parent = (case getParentNode doc el of None \<Rightarrow> 0
                      | Some q \<Rightarrow> (case index_of sts q of None \<Rightarrow> 0 | Some k \<Rightarrow> k)),
          s_documentOrder = i, s_data = state_data doc late i el, s_invoke = kids ''invoke'',
          s_onEntry = kids (if i = 0 then ''script'' else ''onentry''), s_onExit = kids ''onexit'',
          s_doneData = (case kids ''donedata'' of [] \<Rightarrow> None | d # _ \<Rightarrow> Some d),
          s_type = (if hasHistoryChild doc sts el = Some i then ty OR STATE_HAS_HISTORY else ty)\<rparr>)
        (to_bits sts (getCompletion doc sts el)))"

text \<open>\<open>_stateIds\<close>: a later state with the same identifier replaces an earlier one.\<close>

definition init_stateIds :: "node list \<Rightarrow> (string \<times> nat) list" where
  "init_stateIds sts = fold (\<lambda>i m. if HAS_ATTR (sts ! i) ''id'' then put_key (ATTR (sts ! i) ''id'') i m else m)
     [0..<length sts] []"

subsection \<open>Transitions\<close>

definition collectTransitions :: "node \<Rightarrow> node list" where
  "collectTransitions scxml =
    (let p = XML_PREFIX scxml in filterChildElementsOf (p @ ''transition'')
       (inPostFixOrder [p @ ''scxml'', p @ ''state'', p @ ''final'', p @ ''history'', p @ ''initial'', p @ ''parallel''] scxml)
       False)"

text \<open>\<open>conflictsCached\<close> is \<open>conflicts\<close> with cached exit sets. The lower triangle of the matrix is copied.\<close>

definition conflict_bit :: "node \<Rightarrow> node list \<Rightarrow> nat \<Rightarrow> nat \<Rightarrow> bool" where
  "conflict_bit doc trs i j =
    (if i \<le> j then conflicts doc (trs ! i) (trs ! j) doc else conflicts doc (trs ! j) (trs ! i) doc)"

definition target_bits :: "(string \<times> nat) list \<Rightarrow> nat \<Rightarrow> string \<Rightarrow> bitset" where
  "target_bits ids n target =
     fold (\<lambda>t b. case map_of ids t of None \<Rightarrow> b | Some k \<Rightarrow> BIT_SET_AT k b) (tokens target) (bits_none n)"

definition transition_type :: "node \<Rightarrow> node \<Rightarrow> byte" where
  "transition_type doc el =
    (let parentTag = (case getParentNode doc el of None \<Rightarrow> [] | Some p \<Rightarrow> TAGNAME p);
         f1 = (if \<not> HAS_ATTR el ''target'' then TRANS_TARGETLESS else 0);
         f2 = (if HAS_ATTR el ''type'' \<and> iequals (ATTR el ''type'') ''internal'' then TRANS_INTERNAL else 0);
         f3 = (if \<not> HAS_ATTR el ''event'' then TRANS_SPONTANEOUS else 0);
         f4 = (if iequals parentTag (XML_PREFIX doc @ ''history'') then TRANS_HISTORY else 0);
         f5 = (if iequals parentTag (XML_PREFIX doc @ ''initial'') then TRANS_INITIAL else 0)
     in f1 OR f2 OR f3 OR f4 OR f5)"

definition init_transition ::
  "node \<Rightarrow> node list \<Rightarrow> (string \<times> nat) list \<Rightarrow> node list \<Rightarrow> nat \<Rightarrow> Transition option" where
  "init_transition doc sts ids trs i =
    (let el = trs ! i in
     case (to_bits sts (map Some (getExitSet doc el doc)), Option.bind (getParentNode doc el) (index_of sts)) of
       (Some exitBits, Some src) \<Rightarrow>
         Some \<lparr>t_element = el, t_conflicts = map (conflict_bit doc trs i) [0..<length trs],
           t_exitSet = exitBits, t_source = src, t_target = target_bits ids (length sts) (ATTR el ''target''),
           t_onTrans = (if elementChildren el \<noteq> [] then Some el else None),
           t_event = (if HAS_ATTR el ''event'' then ATTR el ''event'' else []),
           t_cond = (if HAS_ATTR el ''cond'' then ATTR el ''cond'' else []),
           t_type = transition_type doc el\<rparr>
     | _ \<Rightarrow> None)"

subsection \<open>init\<close>

fun all_some :: "'a option list \<Rightarrow> 'a list option" where
  "all_some [] = Some []"
| "all_some (None # xs) = None"
| "all_some (Some x # xs) = map_option ((#) x) (all_some xs)"

definition ms_init :: "node \<Rightarrow> (tables \<times> ms) option" where
  "ms_init scxml =
    (let late = (HAS_ATTR scxml ''binding'' \<and> iequals (ATTR scxml ''binding'') ''late'');
         doc = resortStates (XML_PREFIX scxml) scxml;
         sts = collectStates doc;
         ids = init_stateIds sts;
         trs = collectTransitions doc
     in case (all_some (map (init_state doc late sts) [0..<length sts]),
              all_some (map (init_transition doc sts ids trs) [0..<length trs])) of
          (Some ss, Some ts) \<Rightarrow>
            (let t = \<lparr>t_states = ss, t_transitions = ts, t_stateIds = ids\<rparr> in Some (t, ms_initial t))
        | _ \<Rightarrow> None)"

subsection \<open>What the tables satisfy\<close>

lemma all_some_nth:
  "all_some xs = Some ys \<Longrightarrow> length ys = length xs \<and> (\<forall>i < length xs. xs ! i = Some (ys ! i))"
proof (induction xs arbitrary: ys rule: all_some.induct)
  case (3 x xs)
  then show ?case by (auto simp: nth_Cons split: nat.split)
qed simp_all

lemma length_mark: "length (fst (mark_in_order sts els)) = length sts"
  by (induction sts els rule: mark_in_order.induct) (auto simp: case_prod_beta Let_def)

lemma length_to_bits: "to_bits sts els = Some b \<Longrightarrow> length b = length sts"
  using length_mark [of sts els] by (auto simp: to_bits_def case_prod_beta Let_def split: if_splits)

lemma index_of_bound: "index_of sts n = Some k \<Longrightarrow> k < length sts \<and> same (sts ! k) n"
  by (auto simp: index_of_def find_Some_iff)

lemma length_target_bits: "length (target_bits ids n t) = n"
  unfolding target_bits_def
  by (rule fold_invariant [where P = "\<lambda>b. length b = n"]) (auto split: option.split)

definition machine :: "node \<Rightarrow> node" where
  "machine scxml = resortStates (XML_PREFIX scxml) scxml"

lemma ms_init_cases:
  assumes "ms_init scxml = Some (t, m)"
  obtains late where "m = ms_initial t" and "NUMBER_STATES t = length (collectStates (machine scxml))"
    and "NUMBER_TRANS t = length (collectTransitions (machine scxml))"
    and "\<And>i. i < NUMBER_STATES t \<Longrightarrow>
      init_state (machine scxml) late (collectStates (machine scxml)) i = Some (GET_STATE t i)"
    and "\<And>i. i < NUMBER_TRANS t \<Longrightarrow>
      init_transition (machine scxml) (collectStates (machine scxml)) (t_stateIds t)
        (collectTransitions (machine scxml)) i = Some (GET_TRANS t i)"
proof -
  let ?d = "machine scxml"
  let ?late = "HAS_ATTR scxml ''binding'' \<and> iequals (ATTR scxml ''binding'') ''late''"
  from assms obtain ss ts where
    s: "all_some (map (init_state ?d ?late (collectStates ?d)) [0..<length (collectStates ?d)]) = Some ss"
    and t: "all_some (map (init_transition ?d (collectStates ?d) (init_stateIds (collectStates ?d)) (collectTransitions ?d))
        [0..<length (collectTransitions ?d)]) = Some ts"
    and tab: "t = \<lparr>t_states = ss, t_transitions = ts, t_stateIds = init_stateIds (collectStates ?d)\<rparr>"
    and m: "m = ms_initial t"
    by (auto simp: ms_init_def machine_def Let_def split: option.splits)
  show thesis
    using all_some_nth [OF s] all_some_nth [OF t] m tab by (intro that [of ?late]) simp_all
qed

lemma init_state_wf:
  assumes "init_state doc late sts i = Some s" and "i < length sts"
  shows "length (s_completion s) = length sts \<and> length (s_children s) = length sts \<and>
    length (s_ancestors s) = length sts \<and> s_parent s < length sts"
  using assms
  by (auto simp: init_state_def Let_def length_to_bits split: option.splits dest: index_of_bound)

lemma init_transition_wf:
  assumes "init_transition doc sts ids trs i = Some r"
  shows "length (t_conflicts r) = length trs \<and> length (t_exitSet r) = length sts \<and>
    length (t_target r) = length sts \<and> t_source r < length sts"
  using assms
  by (auto simp: init_transition_def Let_def length_target_bits length_to_bits bind_eq_Some_conv
      split: option.splits dest: index_of_bound)

lemma init_transition_conflicts:
  "init_transition doc sts ids trs i = Some r \<Longrightarrow> t_conflicts r = map (conflict_bit doc trs i) [0..<length trs]"
  by (auto simp: init_transition_def Let_def split: option.splits)

lemma conflict_bit_sym: "conflict_bit doc trs i j = conflict_bit doc trs j i"
  by (auto simp: conflict_bit_def conflicts_sym)

lemma state_type_plain: "\<not> has_flag (state_type doc el) STATE_HAS_HISTORY"
  by (simp add: state_type_def state_type_defs has_flag_def)

lemma hasHistoryChild_other: "i < length sts \<Longrightarrow> hasHistoryChild doc sts (sts ! i) \<noteq> Some i"
  by (auto simp: hasHistoryChild_def find_Some_iff same_def dest: sym)

lemma init_state_type:
  "init_state doc late sts i = Some s \<Longrightarrow> i < length sts \<Longrightarrow> s_type s = state_type doc (sts ! i)"
  using hasHistoryChild_other [of i sts doc] by (auto simp: init_state_def Let_def)

lemma init_state_ancestors:
  "init_state doc late sts i = Some s \<Longrightarrow>
    s_ancestors s = map (\<lambda>j. j \<in> set (ancestor_indices doc sts (sts ! i))) [0..<length sts] \<and>
    s_children s = map (\<lambda>j. i \<in> set (ancestor_indices doc sts (sts ! j))) [0..<length sts]"
  by (auto simp: init_state_def Let_def)

lemma init_state_parent:
  "init_state doc late sts i = Some s \<Longrightarrow> getParentNode doc (sts ! i) = Some q \<Longrightarrow> index_of sts q = Some k \<Longrightarrow>
   s_parent s = k"
  by (auto simp: init_state_def Let_def)

text \<open>The root element of a machine is its first state.\<close>

lemma resort_root: "isElement n \<Longrightarrow> isElement (resortStates p n) \<and> TAGNAME (resortStates p n) = TAGNAME n \<and>
    XML_PREFIX (resortStates p n) = XML_PREFIX n"
  by (cases n) (simp_all add: TAGNAME_def XML_PREFIX_def Let_def)

lemma collectStates_root:
  assumes "isElement d" and "TAGNAME d = XML_PREFIX d @ ''scxml''"
  shows "\<exists>r. collectStates d = d # r"
  using assms by (cases d) (simp_all add: collectStates_def inDocumentOrder_def Let_def)

subsection \<open>Document order\<close>

lemma mset_move_front: "mset (move_front p cs) = mset cs"
  by (simp add: move_front_def)

lemma mset_nids_children:
  "mset cs = mset ds \<Longrightarrow> mset (concat (map nids cs)) = mset (concat (map nids ds))"
  by (simp add: mset_concat flip: mset_map sum_mset_sum_list)
     (metis mset_map)

lemma mset_resort: "mset (nids (resortStates p n)) = mset (nids n)"
proof (induction p n rule: resortStates.induct)
  case (1 xp i p l ns as cs)
  let ?r = "\<lambda>c. if isElement c then resortStates xp c else c"
  obtain cs3 where r: "resortStates xp (Element i p l ns as cs) = Element i p l ns as cs3"
    and m: "mset cs3 = mset (map ?r cs)"
    by (simp add: Let_def mset_move_front)
  have e: "c \<in> set cs \<Longrightarrow> mset (nids (?r c)) = mset (nids c)" for c using "1.IH" by simp
  have "mset (concat (map nids (map ?r cs))) = mset (concat (map nids cs))"
    using e by (induction cs) auto
  then have "mset (concat (map nids cs3)) = mset (concat (map nids cs))"
    using mset_nids_children [OF m] by simp
  then show ?case unfolding r by (simp add: map_concat comp_def)
qed simp_all

lemma distinct_machine: "distinct (nids (machine n)) = distinct (nids n)"
  unfolding machine_def by (rule mset_eq_imp_distinct_iff [OF mset_resort])

text \<open>In document order no node comes before one of its ancestors.\<close>

abbreviation preorder :: "node list \<Rightarrow> bool" where
  "preorder \<equiv> sorted_wrt (\<lambda>a b. a \<notin> set (nodes b))"

lemma preorder_concat:
  assumes "distinct (concat (map nids cs))"
    and "\<And>c. c \<in> set cs \<Longrightarrow> preorder (f c) \<and> set (f c) \<subseteq> set (nodes c)"
  shows "preorder (concat (map f cs))"
  using assms
proof (induction cs)
  case (Cons c cs)
  have "a \<notin> set (nodes b)" if "a \<in> set (f c)" "c' \<in> set cs" "b \<in> set (f c')" for a b c'
  proof
    assume "a \<in> set (nodes b)"
    moreover have "b \<in> set (nodes c')" using Cons.prems(2) [of c'] that by auto
    ultimately have "a \<in> set (nodes c')" by (rule nodes_trans [rotated])
    moreover have "a \<in> set (nodes c)" using Cons.prems(2) [of c] that by auto
    ultimately show False using Cons.prems(1) that(2) by auto
  qed
  then show ?case using Cons by (auto simp: sorted_wrt_append)
qed simp

lemma preorder_document:
  "distinct (nids n) \<Longrightarrow> preorder (filterElementGeneric els DOCUMENT emb True n)"
proof (induction els "DOCUMENT" emb "True" n rule: filterElementGeneric.induct)
  case (1 els emb i p l ns as cs)
  let ?n = "Element i p l ns as cs"
  let ?f = "\<lambda>c. if \<not> isElement c then [] else if emb \<or> TAGNAME c \<noteq> XML_PREFIX ?n @ ''scxml''
      then filterElementGeneric els DOCUMENT emb True c else []"
  have d: "distinct (concat (map nids cs))" and i: "i \<notin> set (concat (map nids cs))"
    using "1.prems" by (simp_all add: map_concat comp_def)
  have sub: "set (?f c) \<subseteq> set (nodes c)" for c by (auto dest: filterElementGeneric_sub split: if_splits)
  have "preorder (?f c)" if "c \<in> set cs" for c
    using "1.hyps" [OF refl refl that] distinct_nids_child [OF "1.prems" that] by auto
  then have "preorder (concat (map ?f cs))" using preorder_concat [OF d, of ?f] sub by blast
  moreover have "?n \<notin> set (nodes b)" if "b \<in> set (concat (map ?f cs))" for b
  proof
    assume n: "?n \<in> set (nodes b)"
    from that obtain c where "c \<in> set cs" "b \<in> set (?f c)" by auto
    then have "?n \<in> set (nodes c)" using sub nodes_trans [OF _ n] by blast
    then show False using i \<open>c \<in> set cs\<close> by force
  qed
  ultimately show ?case by (auto simp: Let_def sorted_wrt_append cong: if_cong)
qed auto

lemma collectStates_sub: "s \<in> set (collectStates d) \<Longrightarrow> s \<in> set (nodes d)"
  by (auto simp: collectStates_def inDocumentOrder_def Let_def dest: filterElementGeneric_sub)

lemma collectStates_preorder: "distinct (nids d) \<Longrightarrow> preorder (collectStates d)"
  by (simp add: collectStates_def inDocumentOrder_def Let_def preorder_document)

lemma preorder_distinct: "preorder xs \<Longrightarrow> distinct xs"
  by (induction xs) (auto intro: nodes_self)

lemma index_of_nth:
  assumes d: "distinct (nids doc)" and sub: "set sts \<subseteq> set (nodes doc)" and p: "p \<in> set (nodes doc)"
    and k: "index_of sts p = Some k"
  shows "k < length sts \<and> sts ! k = p"
proof -
  have b: "k < length sts" "nid (sts ! k) = nid p" using index_of_bound [OF k] by (auto simp: same_def)
  then have "sts ! k \<in> set (nodes doc)" using sub by auto
  then show ?thesis using same_node [OF d _ p] b by blast
qed

lemma parents_sub: "distinct (nids doc) \<Longrightarrow> p \<in> set (parents doc n) \<Longrightarrow> p \<in> set (nodes doc)"
  using path_to_mem [of doc p "nid n"] by (cases "path_to (nid n) doc") (auto simp: parents_def)

text \<open>An ancestor of a state has a smaller index, and the ancestor lists are nested.\<close>

lemma ancestor_smaller:
  assumes d: "distinct (nids doc)" and j: "j < length (collectStates doc)"
    and k: "k \<in> set (ancestor_indices doc (collectStates doc) (collectStates doc ! j))"
  shows "k < j"
proof -
  let ?L = "collectStates doc"
  have sub: "set ?L \<subseteq> set (nodes doc)" using collectStates_sub by blast
  from k obtain p where p: "p \<in> set (parents doc (?L ! j))" "index_of ?L p = Some k"
    by (auto simp: ancestor_indices_def dest: set_takeWhileD)
  have pd: "p \<in> set (nodes doc)" by (rule parents_sub [OF d p(1)])
  have kp: "k < length ?L" "?L ! k = p" using index_of_nth [OF d sub pd p(2)] by auto
  have Lj: "?L ! j \<in> set (nodes doc)" using j sub by auto
  have "?L ! j \<in> set (nodes p)" "?L ! j \<noteq> p"
    using p(1) isDescendant_parents [OF d pd] isDescendant_iff [OF d Lj pd] by auto
  moreover have "preorder ?L" by (rule collectStates_preorder [OF d])
  ultimately show "k < j"
    using kp j by (metis linorder_cases sorted_wrt_nth_less)
qed

lemma parents_step:
  assumes d: "distinct (nids doc)" and p: "parents doc n = p # ps"
  shows "parents doc p = ps"
proof -
  obtain h where "path_to (nid n) doc = [h] @ p # ps"
    using p by (cases "path_to (nid n) doc") (auto simp: parents_def)
  from path_suffix [OF d this] show ?thesis by (simp add: parents_def)
qed

lemma ancestor_list_step:
  assumes d: "distinct (nids doc)" and sub: "set sts \<subseteq> set (nodes doc)"
    and a: "ancestor_indices doc sts n = k # ks"
  shows "k < length sts \<and> ancestor_indices doc sts (sts ! k) = ks \<and>
    (\<exists>p. getParentNode doc n = Some p \<and> index_of sts p = Some k)"
proof -
  from a obtain p ps where p: "parents doc n = p # ps" "index_of sts p = Some k"
    and ks: "ks = map (\<lambda>p. the (index_of sts p)) (takeWhile (\<lambda>p. index_of sts p \<noteq> None) ps)"
    by (cases "parents doc n") (auto simp: ancestor_indices_def split: if_splits)
  have "p \<in> set (nodes doc)" using parents_sub [OF d, of p n] p(1) by simp
  then have "k < length sts \<and> sts ! k = p" using index_of_nth [OF d sub] p(2) by blast
  then show ?thesis using parents_step [OF d p(1)] p ks by (simp add: ancestor_indices_def getParentNode_def)
qed

subsection \<open>The shape of the tables\<close>

text \<open>
  The tree of states as the bitsets represent it: ancestors come first in document order, the ancestors of
  a state are its parent and the parent's ancestors, and \<open>children\<close> holds all descendants.
\<close>

definition wf_tree :: "tables \<Rightarrow> bool" where
  "wf_tree t \<longleftrightarrow> (\<forall>i < NUMBER_STATES t. let A = bset (s_ancestors (GET_STATE t i)); p = s_parent (GET_STATE t i) in
     (\<forall>j \<in> A. j < i) \<and> (A \<noteq> {} \<longrightarrow> p \<in> A \<and> A = insert p (bset (s_ancestors (GET_STATE t p)))) \<and>
     (\<forall>j < NUMBER_STATES t. j \<in> bset (s_children (GET_STATE t i)) \<longleftrightarrow> i \<in> bset (s_ancestors (GET_STATE t j))))"

lemma bset_map_upt: "bset (map P [0..<n]) = {j. j < n \<and> P j}"
  by (auto simp: bset_def BIT_HAS_def)

lemma init_bset:
  assumes "init_state doc late sts i = Some s"
  shows "bset (s_ancestors s) = set (ancestor_indices doc sts (sts ! i)) \<inter> {..<length sts}"
    and "bset (s_children s) = {j. j < length sts \<and> i \<in> set (ancestor_indices doc sts (sts ! j))}"
  using init_state_ancestors [OF assms] by (auto simp: bset_map_upt)

lemma ancestor_bound: "set (ancestor_indices doc sts n) \<subseteq> {..<length sts}"
proof
  fix k assume "k \<in> set (ancestor_indices doc sts n)"
  then obtain p where "index_of sts p = Some k" by (auto simp: ancestor_indices_def dest!: set_takeWhileD)
  then show "k \<in> {..<length sts}" using index_of_bound by auto
qed

lemma ms_init_tree:
  assumes d: "distinct (nids scxml)" and init: "ms_init scxml = Some (t, m)"
  shows "wf_tree t"
proof -
  let ?d = "machine scxml" let ?L = "collectStates ?d"
  have dd: "distinct (nids ?d)" using d by (simp add: distinct_machine)
  have sub: "set ?L \<subseteq> set (nodes ?d)" using collectStates_sub by blast
  from init obtain late where n: "NUMBER_STATES t = length ?L"
    and st: "\<And>i. i < NUMBER_STATES t \<Longrightarrow> init_state ?d late ?L i = Some (GET_STATE t i)"
    by (rule ms_init_cases) (rule that)
  let ?A = "\<lambda>i. ancestor_indices ?d ?L (?L ! i)"
  have A: "bset (s_ancestors (GET_STATE t i)) = set (?A i)" if "i < NUMBER_STATES t" for i
    using init_bset(1) [OF st [OF that]] ancestor_bound [of ?d ?L "?L ! i"] by blast
  have C: "j \<in> bset (s_children (GET_STATE t i)) \<longleftrightarrow> i \<in> set (?A j)" if "i < NUMBER_STATES t" "j < NUMBER_STATES t" for i j
    using init_bset(2) [OF st [OF that(1)]] that(2) n by simp
  have P: "s_parent (GET_STATE t i) = hd (?A i) \<and> hd (?A i) < NUMBER_STATES t \<and> ?A (hd (?A i)) = tl (?A i)"
    if i: "i < NUMBER_STATES t" and ne: "?A i \<noteq> []" for i
  proof -
    obtain k ks where k: "?A i = k # ks" using ne by (meson list.exhaust)
    from ancestor_list_step [OF dd sub k] obtain p where "k < length ?L" "?A k = ks"
      "getParentNode ?d (?L ! i) = Some p" "index_of ?L p = Some k" by blast
    then show ?thesis using init_state_parent [OF st [OF i]] k n by simp
  qed
  show ?thesis
    unfolding wf_tree_def Let_def
  proof (intro allI impI conjI)
    fix i assume i: "i < NUMBER_STATES t"
    show "\<forall>j \<in> bset (s_ancestors (GET_STATE t i)). j < i" using A [OF i] ancestor_smaller [OF dd] i n by auto
    assume "bset (s_ancestors (GET_STATE t i)) \<noteq> {}"
    then have ne: "?A i \<noteq> []" using A [OF i] by auto
    note p = P [OF i ne]
    have "set (?A i) = insert (hd (?A i)) (set (tl (?A i)))" using ne by (metis list.collapse list.simps(15))
    then show "s_parent (GET_STATE t i) \<in> bset (s_ancestors (GET_STATE t i))"
      and "bset (s_ancestors (GET_STATE t i)) =
        insert (s_parent (GET_STATE t i)) (bset (s_ancestors (GET_STATE t (s_parent (GET_STATE t i)))))"
      using p A [OF i] A [of "hd (?A i)"] by auto
  next
    fix i j assume "i < NUMBER_STATES t" "j < NUMBER_STATES t"
    then show "j \<in> bset (s_children (GET_STATE t i)) \<longleftrightarrow> i \<in> bset (s_ancestors (GET_STATE t j))"
      using A C by blast
  qed
qed

end
