(* ===== verification/Interpreter.thy ===== *)
theory Interpreter
  imports ContentExecutor EventQueue MicroStep_Init
begin

text \<open>
  The interpreter object, \<open>src/src/uscxml/interpreter/InterpreterImpl.cpp\<close>, with the I/O processor for
  SCXML sessions, \<open>src/src/uscxml/plugins/ioprocessor/scxml/SCXMLIOProcessor.cpp\<close>. It owns the queues, the
  pending sends, the invokers and their finalizers, and it implements the callback interfaces of the
  content executor (\<open>interp_exec\<close>) and of the micro stepper (\<open>interp_cb\<close>), which here become instances of
  the records those components are parameterised with. What a session can only reach through a plugin
  (the data model, other I/O processors, invokers, the clock) acts on a component \<open>i_world\<close> of type \<open>'w\<close>
  and is given by the record \<open>plugins\<close>. The lemmas follow a delayed send from its element to the queue
  it is delivered to, and show what cancelling, failing and resetting leave behind.
\<close>

subsection \<open>Plugins\<close>

datatype ioproc = SCXMLIOProcessor | PluginIOProcessor nat

text \<open>
  The functions get the current configuration as a predicate where the data model may ask for it.
  \<open>w_wait\<close> returns the events other threads have put into the external queue while \<open>dequeue\<close> waited,
  \<open>w_timer\<close> a libevent timer and the time.
\<close>

record 'w plugins =
  w_evalAsBool :: "(string \<Rightarrow> bool) \<Rightarrow> string \<Rightarrow> ('w, bool) eff"
  w_evalAsData :: "(string \<Rightarrow> bool) \<Rightarrow> string \<Rightarrow> ('w, data) eff"
  w_getAsData :: "string \<Rightarrow> ('w, data) eff"
  w_eval :: "(string \<Rightarrow> bool) \<Rightarrow> string \<Rightarrow> ('w, unit) eff"
  w_assign :: "string \<Rightarrow> data \<Rightarrow> (string \<times> string) list \<Rightarrow> ('w, unit) eff"
  w_init :: "string \<Rightarrow> data \<Rightarrow> (string \<times> string) list \<Rightarrow> ('w, unit) eff"
  w_setEvent :: "Event \<Rightarrow> 'w \<Rightarrow> 'w"
  w_getLength :: "string \<Rightarrow> ('w, nat) eff"
  w_setForeach :: "string \<Rightarrow> string \<Rightarrow> string \<Rightarrow> nat \<Rightarrow> ('w, unit) eff"
  w_isValidExprSyntax :: "string \<Rightarrow> 'w \<Rightarrow> bool"
  w_getUUID :: "'w \<Rightarrow> string \<times> 'w"
  w_timer :: "'w \<Rightarrow> (nat \<times> nat) \<times> 'w"
  w_wait :: "nat \<Rightarrow> 'w \<Rightarrow> Event list \<times> 'w"
  w_createInvoker :: "string \<Rightarrow> ('w, nat) eff"
  w_invoke :: "nat \<Rightarrow> string \<Rightarrow> Event \<Rightarrow> ('w, unit) eff"
  w_uninvoke :: "nat \<Rightarrow> ('w, unit) eff"
  w_eventToInvoker :: "nat \<Rightarrow> Event \<Rightarrow> ('w, unit) eff"
  w_serializeInvoker :: "nat \<Rightarrow> 'w \<Rightarrow> data \<times> 'w"
  w_deserializeInvoker :: "nat \<Rightarrow> data \<Rightarrow> 'w \<Rightarrow> 'w"
  w_ioEvent :: "nat \<Rightarrow> string \<Rightarrow> Event \<Rightarrow> ('w, unit) eff"
  w_ioValid :: "nat \<Rightarrow> string \<Rightarrow> ('w, bool) eff"
  w_absolute :: "string \<Rightarrow> string"
  w_fetch :: "node \<Rightarrow> string \<Rightarrow> ('w, node option \<times> string) eff"
  w_hasExecutableContent :: "string \<Rightarrow> string \<Rightarrow> bool"
  w_enterElement :: "node \<Rightarrow> ('w, unit) eff"
  w_processChildren :: "node \<Rightarrow> bool"
  w_exitElement :: "node \<Rightarrow> ('w, unit) eff"
  w_log :: "string \<Rightarrow> data \<Rightarrow> 'w \<Rightarrow> 'w"
  w_secondsToMs :: "string \<Rightarrow> nat"
  w_junk :: dtype
  w_execNote :: "exec_note \<Rightarrow> 'w \<Rightarrow> 'w"
  w_note :: "notification \<Rightarrow> 'w \<Rightarrow> 'w"

subsection \<open>The state of an interpreter\<close>

text \<open>
  The static map of sessions holds weak pointers: a session is this one, another one with its external
  queue, or gone. \<open>i_died\<close> records that control has left the micro stepper in a way it does not handle
  (a failed assertion or an exception that ends the program); what is computed afterwards has no meaning.
\<close>

datatype session = Self | Other "Event list" | Expired

record 'w interp =
  i_sessionId :: string
  i_invokeId :: string
  i_currEvent :: Event
  i_invokeReq :: Event
  i_internalQueue :: BasicEventQueue
  i_externalQueue :: BasicEventQueue
  i_parentQueue :: "BasicEventQueue option"
  i_delayQueue :: DelayedQueue
  i_delayedEventTargets :: "(string \<times> string \<times> string \<times> string) list"
  i_ioProcs :: "(string \<times> ioproc) list"
  i_invokers :: "(string \<times> nat) list"
  i_finalize :: "(string \<times> node option) list"
  i_autoForwarders :: "string list"
  i_instances :: "(string \<times> session) list"
  i_userData :: "(nat \<times> string) list"
  i_died :: bool
  i_world :: 'w

type_synonym ('w, 'a) act = "('w interp, 'a) eff"

text \<open>A call of a plugin.\<close>

definition pluginM :: "('w, 'a) eff \<Rightarrow> ('w, 'a) act" where
  "pluginM m s = (case m (i_world s) of (r, w) \<Rightarrow> (r, s\<lparr>i_world := w\<rparr>))"

definition uuidM :: "'w plugins \<Rightarrow> ('w, string) act" where
  "uuidM pl s = (case w_getUUID pl (i_world s) of (u, w) \<Rightarrow> (Inr u, s\<lparr>i_world := w\<rparr>))"

definition raiseM :: "'w plugins \<Rightarrow> (string \<Rightarrow> Event) \<Rightarrow> ('w, 'a) act" where
  "raiseM pl mk = bindM (uuidM pl) (\<lambda>u. throwM (ErrorExc (mk u)))"

abbreviation IMPL_CPP :: string where "IMPL_CPP \<equiv> ''InterpreterImpl.cpp''"
abbreviation IOPROC_CPP :: string where "IOPROC_CPP \<equiv> ''SCXMLIOProcessor.cpp''"
abbreviation quoted :: "string \<Rightarrow> string" where "quoted s \<equiv> [CHR 0x27] @ s @ [CHR 0x27]"

subsection \<open>Queues\<close>

definition enqueueInternal :: "Event \<Rightarrow> 'w interp \<Rightarrow> 'w interp" where
  "enqueueInternal ev s = s\<lparr>i_internalQueue := bq_enqueue ev (i_internalQueue s)\<rparr>"

definition enqueueExternal :: "Event \<Rightarrow> 'w interp \<Rightarrow> 'w interp" where
  "enqueueExternal ev s = s\<lparr>i_externalQueue := bq_enqueue ev (i_externalQueue s)\<rparr>"

definition enqueueAtParent :: "'w plugins \<Rightarrow> Event \<Rightarrow> ('w, unit) act" where
  "enqueueAtParent pl ev s =
    (case i_parentQueue s of
       Some q \<Rightarrow> (Inr (), s\<lparr>i_parentQueue := Some (bq_enqueue ev q)\<rparr>)
     | None \<Rightarrow> raiseM pl (\<lambda>u. ERROR_COMMUNICATION u (IMPL_CPP, 627) ''Sending to parent invoker, but none is set'') s)"

definition enqueueAtInvoker :: "'w plugins \<Rightarrow> string \<Rightarrow> Event \<Rightarrow> ('w, unit) act" where
  "enqueueAtInvoker pl invId ev s =
    (case map_of (i_invokers s) invId of
       None \<Rightarrow> raiseM pl (\<lambda>u. ERROR_COMMUNICATION u (IMPL_CPP, 618)
         (''Can not send to invoked component '' @ quoted invId @ '', no such invokeId'')) s
     | Some h \<Rightarrow>
         (case pluginM (w_eventToInvoker pl h ev) s of
            (Inr _, s') \<Rightarrow> (Inr (), s')
          | (Inl Abort, s') \<Rightarrow> (Inl Abort, s')
          | (Inl (StdExc what), s') \<Rightarrow> raiseM pl (\<lambda>u. ERROR_COMMUNICATION u (IMPL_CPP, 613)
              (''Exception caught while sending event to invoker '' @ quoted invId @ '': '' @ what)) s'
          | (Inl _, s') \<Rightarrow> raiseM pl (\<lambda>u. ERROR_COMMUNICATION u (IMPL_CPP, 615)
              (''Exception caught while sending event to invoker '' @ quoted invId)) s'))"

subsection \<open>The SCXML I/O processor\<close>

text \<open>Reading \<open>target[1]\<close> of a one-character string gives the terminating null character.\<close>

definition isValidTarget :: "'w plugins \<Rightarrow> string \<Rightarrow> ('w, bool) act" where
  "isValidTarget pl target =
    (if target \<noteq> [] \<and> (target ! 0 \<noteq> CHR ''#'' \<or> length target < 2 \<or> target ! 1 \<noteq> CHR ''_'')
     then raiseM pl (\<lambda>u. ERROR_EXECUTION u (IOPROC_CPP, 72) (''Target '' @ quoted target @ '' not supported in send''))
     else returnM True)"

text \<open>\<open>getInstances\<close> drops the sessions that are gone.\<close>

definition getInstances :: "'w interp \<Rightarrow> 'w interp" where
  "getInstances s = s\<lparr>i_instances := filter (\<lambda>e. snd e \<noteq> Expired) (i_instances s)\<rparr>"

definition addInstance :: "'w interp \<Rightarrow> 'w interp option" where
  "addInstance s = (if map_of (i_instances s) (i_sessionId s) = None
     then Some (s\<lparr>i_instances := put_key (i_sessionId s) Self (i_instances s)\<rparr>) else None)"

definition sendToSession :: "'w plugins \<Rightarrow> string \<Rightarrow> Event \<Rightarrow> ('w, unit) act" where
  "sendToSession pl sid ev s0 =
    (let s = getInstances s0 in
     case map_of (i_instances s) sid of
       None \<Rightarrow> raiseM pl (\<lambda>u. ERROR_COMMUNICATION u (IOPROC_CPP, 136) ''Invalid target scxml session for send'') s
     | Some Self \<Rightarrow> (Inr (), enqueueExternal ev s)
     | Some (Other q) \<Rightarrow> (Inr (), s\<lparr>i_instances := put_key sid (Other (q @ [ev])) (i_instances s)\<rparr>)
     | Some Expired \<Rightarrow> raiseM pl (\<lambda>u. ERROR_COMMUNICATION u (IOPROC_CPP, 133)
         (''Can not send to scxml session '' @ sid @ '' - not known'')) s)"

definition stamp :: "string \<Rightarrow> Event \<Rightarrow> Event" where
  "stamp sid ev = ev\<lparr>origintype := SCXML_IOPROC, origin := ''#_scxml_'' @ sid\<rparr>"

definition io_eventFromSCXML :: "'w plugins \<Rightarrow> string \<Rightarrow> Event \<Rightarrow> ('w, unit) act" where
  "io_eventFromSCXML pl target event s =
    (let ev = stamp (i_sessionId s) event in
     if length target = 0 then (Inr (), enqueueExternal ev s)
     else if iequals target ''#_internal'' then (Inr (), enqueueInternal ev s)
     else if iequals target ''#_parent'' then enqueueAtParent pl ev s
     else if length target > 8 \<and> iequals (take 8 target) ''#_scxml_'' then sendToSession pl (drop 8 target) ev s
     else if length target > 2 \<and> iequals (take 2 target) ''#_'' then enqueueAtInvoker pl (drop 2 target) ev s
     else raiseM pl (\<lambda>u. ERROR_COMMUNICATION u (IOPROC_CPP, 149)
       (''Not sure what to make of the target '' @ quoted target @ '' - raising error'')) s)"

definition ioproc_event :: "'w plugins \<Rightarrow> ioproc \<Rightarrow> string \<Rightarrow> Event \<Rightarrow> ('w, unit) act" where
  "ioproc_event pl p target ev = (case p of SCXMLIOProcessor \<Rightarrow> io_eventFromSCXML pl target ev
     | PluginIOProcessor k \<Rightarrow> pluginM (w_ioEvent pl k target ev))"

definition ioproc_valid :: "'w plugins \<Rightarrow> ioproc \<Rightarrow> string \<Rightarrow> ('w, bool) act" where
  "ioproc_valid pl p target = (case p of SCXMLIOProcessor \<Rightarrow> isValidTarget pl target
     | PluginIOProcessor k \<Rightarrow> pluginM (w_ioValid pl k target))"

subsection \<open>Sending\<close>

definition checkValidSendType :: "'w plugins \<Rightarrow> string \<Rightarrow> string \<Rightarrow> ('w, unit) act" where
  "checkValidSendType pl type target s =
    (if type = [] then (Inl Abort, s)
     else case map_of (i_ioProcs s) type of
       None \<Rightarrow> raiseM pl (\<lambda>u. ERROR_EXECUTION u (IMPL_CPP, 489)
         (''Type '' @ quoted type @ '' not supported for sending'')) s
     | Some p \<Rightarrow> bindM (ioproc_valid pl p target) (\<lambda>ok.
         if ok then returnM () else raiseM pl (\<lambda>u. ERROR_COMMUNICATION u (IMPL_CPP, 493)
           (''Target '' @ quoted target @ '' not supported in send''))) s)"

definition eventReady :: "'w plugins \<Rightarrow> Event \<Rightarrow> string \<Rightarrow> ('w, unit) act" where
  "eventReady pl sendEvent eventUUID s =
    (case map_of (i_delayedEventTargets s) eventUUID of
       None \<Rightarrow> (Inl Abort, s)
     | Some (sid, type0, target) \<Rightarrow>
         (let type = (if type0 = [] then SCXML_IOPROC else type0);
              s1 = s\<lparr>i_delayedEventTargets := alist_erase eventUUID (i_delayedEventTargets s)\<rparr>
          in case map_of (i_ioProcs s1) type of
               Some p \<Rightarrow> ioproc_event pl p target sendEvent s1
             | None \<Rightarrow> raiseM pl (\<lambda>u. ERROR_PLATFORM u (IMPL_CPP, 572) (''No IO processor '' @ type @ '' known'')) s1))"

text \<open>A timer operation on a timer that is not allocated is undefined behaviour, here \<open>Abort\<close>.\<close>

definition enqueueDelayed :: "'w plugins \<Rightarrow> Event \<Rightarrow> nat \<Rightarrow> string \<Rightarrow> ('w, unit) act" where
  "enqueueDelayed pl ev delayMs u s =
    (case w_timer pl (i_world s) of ((h, now), w) \<Rightarrow>
       (case dq_enqueueDelayed h now ev delayMs u (i_delayQueue s) of
          None \<Rightarrow> (Inl Abort, s\<lparr>i_world := w\<rparr>)
        | Some q \<Rightarrow> (Inr (), s\<lparr>i_delayQueue := q, i_world := w\<rparr>)))"

definition enqueue :: "'w plugins \<Rightarrow> string \<Rightarrow> string \<Rightarrow> nat \<Rightarrow> Event \<Rightarrow> ('w, unit) act" where
  "enqueue pl type target delayMs sendEvent s =
    (if uuid sendEvent = [] \<or> map_of (i_delayedEventTargets s) (uuid sendEvent) \<noteq> None then (Inl Abort, s)
     else (let s1 = s\<lparr>i_delayedEventTargets :=
                 put_key (uuid sendEvent) (sendid sendEvent, type, target) (i_delayedEventTargets s)\<rparr>
           in if delayMs = 0 then eventReady pl sendEvent (uuid sendEvent) s1
              else enqueueDelayed pl sendEvent delayMs (uuid sendEvent) s1))"

text \<open>The loop of \<open>cancelDelayed\<close> with its inline deletion.\<close>

fun cancel_targets ::
  "string \<Rightarrow> (string \<times> string \<times> string \<times> string) list \<Rightarrow> DelayedQueue \<Rightarrow>
   ((string \<times> string \<times> string \<times> string) list \<times> DelayedQueue) option" where
  "cancel_targets cancelId [] q = Some ([], q)"
| "cancel_targets cancelId ((u, sid, type, target) # r) q =
     (if sid = cancelId then Option.bind (dq_cancelDelayed u q) (cancel_targets cancelId r)
      else map_option (\<lambda>(r', q'). ((u, sid, type, target) # r', q')) (cancel_targets cancelId r q))"

definition cancelDelayed :: "string \<Rightarrow> ('w, unit) act" where
  "cancelDelayed cancelId s =
    (case cancel_targets cancelId (i_delayedEventTargets s) (i_delayQueue s) of
       None \<Rightarrow> (Inl Abort, s)
     | Some (m, q) \<Rightarrow> (Inr (), s\<lparr>i_delayedEventTargets := m, i_delayQueue := q\<rparr>))"

text \<open>
  A timer that fires: the timer callback of the delayed queue with the call of \<open>eventReady\<close> in its
  middle, here without another operation in between.
\<close>

definition timer_fire :: "'w plugins \<Rightarrow> string \<Rightarrow> ('w, unit) act" where
  "timer_fire pl u s =
    (case timer_begin u (i_delayQueue s) of
       None \<Rightarrow> (Inl Abort, s)
     | Some (None, q) \<Rightarrow> (Inr (), s\<lparr>i_delayQueue := q\<rparr>)
     | Some (Some ev, q) \<Rightarrow>
         bindM (eventReady pl ev u) (\<lambda>_. modifyM (\<lambda>s. s\<lparr>i_delayQueue := timer_end u (i_delayQueue s)\<rparr>))
           (s\<lparr>i_delayQueue := q\<rparr>))"

subsection \<open>Conditions and invocations\<close>

definition isTrue :: "'w plugins \<Rightarrow> (string \<Rightarrow> bool) \<Rightarrow> string \<Rightarrow> ('w, bool) act" where
  "isTrue pl inState expr s =
    (case pluginM (w_evalAsBool pl inState expr) s of
       (Inl (ErrorExc x), s') \<Rightarrow> (Inr False, enqueueInternal x s')
     | r \<Rightarrow> r)"

definition interp_invoke ::
  "'w plugins \<Rightarrow> string \<Rightarrow> string \<Rightarrow> bool \<Rightarrow> node option \<Rightarrow> Event \<Rightarrow> ('w, unit) act" where
  "interp_invoke pl type src autoForward finalize ev =
     bindM (pluginM (w_createInvoker pl type)) (\<lambda>h.
     bindM (modifyM (\<lambda>s. s\<lparr>i_finalize := put_key (invokeid ev) finalize (i_finalize s),
         i_invokers := put_key (invokeid ev) h (i_invokers s)\<rparr>)) (\<lambda>_.
     bindM (pluginM (w_invoke pl h (if length src > 0 then w_absolute pl src else []) ev)) (\<lambda>_.
     if autoForward
     then modifyM (\<lambda>s. s\<lparr>i_autoForwarders := List.insert (invokeid ev) (i_autoForwarders s)\<rparr>)
     else returnM ())))"

definition interp_uninvoke :: "'w plugins \<Rightarrow> string \<Rightarrow> ('w, unit) act" where
  "interp_uninvoke pl invId s =
    (case map_of (i_invokers s) invId of
       None \<Rightarrow> (Inr (), s)
     | Some h \<Rightarrow> bindM (pluginM (w_uninvoke pl h)) (\<lambda>_. modifyM (\<lambda>s. s\<lparr>
           i_autoForwarders := removeAll invId (i_autoForwarders s),
           i_finalize := alist_erase invId (i_finalize s),
           i_invokers := alist_erase invId (i_invokers s)\<rparr>)) s)"

subsection \<open>The callbacks of the content executor\<close>

definition worldM :: "('w \<Rightarrow> 'w) \<Rightarrow> 'w interp \<Rightarrow> 'w interp" where
  "worldM f s = s\<lparr>i_world := f (i_world s)\<rparr>"

definition interp_exec :: "'w plugins \<Rightarrow> (string \<Rightarrow> bool) \<Rightarrow> 'w interp exec_callbacks" where
  "interp_exec pl inState = \<lparr>
     x_evalAsData = (\<lambda>x. pluginM (w_evalAsData pl inState x)),
     x_getAsData = (\<lambda>x. pluginM (w_getAsData pl x)),
     x_isTrue = isTrue pl inState,
     x_assign = (\<lambda>l d a. pluginM (w_assign pl l d a)),
     x_enqueueInternal = enqueueInternal,
     x_getInvokeId = i_invokeId,
     x_getUUID = uuidM pl,
     x_checkValidSendType = checkValidSendType pl,
     x_enqueue = enqueue pl,
     x_cancelDelayed = cancelDelayed,
     x_getLength = (\<lambda>x. pluginM (w_getLength pl x)),
     x_setForeach = (\<lambda>a b c n. pluginM (w_setForeach pl a b c n)),
     x_eval = (\<lambda>x. pluginM (w_eval pl inState x)),
     x_log = (\<lambda>l d. worldM (w_log pl l d)),
     x_getCurrentEvent = i_currEvent,
     x_isValidExprSyntax = (\<lambda>x s. w_isValidExprSyntax pl x (i_world s)),
     x_invoke = interp_invoke pl,
     x_uninvoke = interp_uninvoke pl,
     x_setInvokeId = (\<lambda>n v s. s\<lparr>i_userData := (case v of
         None \<Rightarrow> alist_erase (nid n) (i_userData s) | Some i \<Rightarrow> (nid n, i) # alist_erase (nid n) (i_userData s))\<rparr>),
     x_invokeIdOf = (\<lambda>n s. map_of (i_userData s) (nid n)),
     x_hasExecutableContent = w_hasExecutableContent pl,
     x_enterElement = (\<lambda>n. pluginM (w_enterElement pl n)),
     x_processChildren = w_processChildren pl,
     x_exitElement = (\<lambda>n. pluginM (w_exitElement pl n)),
     x_fetch = (\<lambda>n u. pluginM (w_fetch pl n u)),
     x_secondsToMs = w_secondsToMs pl,
     x_junk = w_junk pl,
     x_monitor = (\<lambda>n. worldM (w_execNote pl n))\<rparr>"

subsection \<open>The callbacks of the micro stepper\<close>

definition dataInit :: "'w plugins \<Rightarrow> node \<Rightarrow> data \<Rightarrow> ('w, unit) act" where
  "dataInit pl root d = pluginM (w_init pl (ATTR root ''id'') d (attributes root))"

definition initData :: "'w plugins \<Rightarrow> node \<Rightarrow> (string \<Rightarrow> bool) \<Rightarrow> node \<Rightarrow> ('w, unit) act" where
  "initData pl doc inState root s =
    (let i = ATTR root ''id'' in
     case (case getParam (params (i_invokeReq s)) i of
             Some d \<Rightarrow> dataInit pl root d s
           | None \<Rightarrow> (case map_of (namelist (i_invokeReq s)) i of
                 Some d \<Rightarrow> dataInit pl root d s
               | None \<Rightarrow> bindM (elementAsData (interp_exec pl inState) root) (dataInit pl root) s)) of
       (Inl (ErrorExc x), s') \<Rightarrow> (Inr (), enqueueInternal (with_xpath (xPathForNode doc root []) x) s')
     | r \<Rightarrow> r)"

text \<open>An identifier is drawn for the empty event that \<open>dequeue\<close> returns when there is nothing to take.\<close>

definition uuid_when :: "bool \<Rightarrow> 'w plugins \<Rightarrow> 'w \<Rightarrow> string \<times> 'w" where
  "uuid_when b pl w = (if b then w_getUUID pl w else ([], w))"

definition dequeueInternal :: "'w plugins \<Rightarrow> 'w interp \<Rightarrow> Event \<times> 'w interp" where
  "dequeueInternal pl s =
    (let (u, w) = uuid_when (bq_queue (i_internalQueue s) = []) pl (i_world s) in
     case bq_dequeue u 0 [] (i_internalQueue s) of
       None \<Rightarrow> (Event_new u, s)
     | Some (ev, q) \<Rightarrow>
         (ev, s\<lparr>i_internalQueue := q, i_currEvent := ev,
            i_world := (if event_valid ev then w_setEvent pl ev w else w)\<rparr>))"

definition run_finalize :: "'w plugins \<Rightarrow> node \<Rightarrow> (string \<Rightarrow> bool) \<Rightarrow> Event \<Rightarrow> ('w, unit) act" where
  "run_finalize pl doc inState ev s =
    (if length (invokeid ev) > 0 then
       (case map_of (i_finalize s) (invokeid ev) of
          Some (Some f) \<Rightarrow> process (interp_exec pl inState) doc f s
        | _ \<Rightarrow> (Inr (), s))
     else (Inr (), s))"

fun forward_all :: "'w plugins \<Rightarrow> Event \<Rightarrow> (string \<times> nat) list \<Rightarrow> ('w, unit) act" where
  "forward_all pl ev [] = returnM ()"
| "forward_all pl ev ((i, h) # r) =
     bindM (\<lambda>s. if i \<in> set (i_autoForwarders s) then pluginM (w_eventToInvoker pl h ev) s else (Inr (), s))
       (\<lambda>_. forward_all pl ev r)"

definition dequeueExternal :: "'w plugins \<Rightarrow> node \<Rightarrow> nat \<Rightarrow> (string \<Rightarrow> bool) \<Rightarrow> ('w, Event) act" where
  "dequeueExternal pl doc blockMs inState s =
    (let q = i_externalQueue s;
         (arrived, w1) = (if bq_queue q = [] \<and> 0 < blockMs then w_wait pl blockMs (i_world s) else ([], i_world s));
         (u, w2) = uuid_when (bq_queue q = [] \<and> arrived = []) pl w1
     in case bq_dequeue u blockMs arrived q of
          None \<Rightarrow> (Inl Abort, s\<lparr>i_world := w2\<rparr>)
        | Some (ev, q') \<Rightarrow>
            (let s1 = s\<lparr>i_externalQueue := q', i_currEvent := ev, i_world := w2\<rparr> in
             if event_valid ev then
               bindM (modifyM (worldM (w_setEvent pl ev))) (\<lambda>_.
               bindM (run_finalize pl doc inState ev) (\<lambda>_.
               bindM (\<lambda>s. forward_all pl ev (i_invokers s) s) (\<lambda>_. returnM ev))) s1
             else (Inr ev, s1)))"

definition died :: "'w interp \<Rightarrow> 'w interp" where
  "died s = s\<lparr>i_died := True\<rparr>"

text \<open>What the micro stepper's \<open>catch (...)\<close> makes of the outcome of a callback.\<close>

definition swallow :: "('w, unit) act \<Rightarrow> 'w interp \<Rightarrow> Event option \<times> 'w interp" where
  "swallow m s = (case m s of
     (Inr _, s') \<Rightarrow> (None, s')
   | (Inl (ErrorExc x), s') \<Rightarrow> (Some x, s')
   | (Inl (EventExc x), s') \<Rightarrow> (Some x, s')
   | (Inl (StdExc _), s') \<Rightarrow> (Some (Event_new []), s')
   | (Inl Abort, s') \<Rightarrow> (None, died s'))"

definition unhandled :: "('w, unit) act \<Rightarrow> 'w interp \<Rightarrow> 'w interp" where
  "unhandled m s = (case m s of (Inr _, s') \<Rightarrow> s' | (Inl _, s') \<Rightarrow> died s')"

definition interp_cb :: "'w plugins \<Rightarrow> node \<Rightarrow> 'w interp callbacks" where
  "interp_cb pl doc = \<lparr>
     cb_dequeueInternal = dequeueInternal pl,
     cb_dequeueExternal = (\<lambda>blockMs inState s. case dequeueExternal pl doc blockMs inState s of
         (Inr ev, s') \<Rightarrow> (Inr ev, s')
       | (Inl (ErrorExc x), s') \<Rightarrow> (Inl x, s')
       | (Inl (EventExc x), s') \<Rightarrow> (Inl x, s')
       | (Inl _, s') \<Rightarrow> (Inl (Event_new []), died s')),
     cb_isMatched = (\<lambda>ev desc. nameMatch desc (ename ev)),
     cb_isTrue = (\<lambda>inState c s. case isTrue pl inState c s of (Inr b, s') \<Rightarrow> (b, s') | (Inl _, s') \<Rightarrow> (False, died s')),
     cb_raiseDoneEvent = (\<lambda>inState st dd. unhandled (raiseDoneEvent (interp_exec pl inState) doc st dd)),
     cb_initData = (\<lambda>inState n. unhandled (initData pl doc inState n)),
     cb_process = (\<lambda>inState n. swallow (process (interp_exec pl inState) doc n)),
     cb_invoke = (\<lambda>inState n. swallow (exec_invoke (interp_exec pl inState) doc n)),
     cb_uninvoke = (\<lambda>n. unhandled (exec_uninvoke (interp_exec pl (\<lambda>_. False)) n)),
     cb_monitor = (\<lambda>n. worldM (w_note pl n))\<rparr>"

subsection \<open>step, reset, cancel\<close>

record 'w Interpreter =
  I_isInitialized :: bool
  I_state :: InterpreterState
  I_scxml :: node
  I_micro :: "(tables \<times> ms) option"
  I_env :: "'w interp"

fun registerIO :: "(string \<times> ioproc \<times> string list) list \<Rightarrow> (string \<times> ioproc) list \<Rightarrow> (string \<times> ioproc) list" where
  "registerIO [] m = m"
| "registerIO ((name, p, names) # r) m = registerIO r
     (if map_of m name \<noteq> None then m
      else fold (\<lambda>a m. if \<not> iequals a name \<and> map_of m a = None then put_key a p m else m) names (put_key name p m))"

text \<open>
  \<open>init\<close> after the document has been set up; the micro stepper reorders the document and fails with
  \<open>None\<close> when one of its assertions does. When it is run again after a reset it keeps its bitsets.
\<close>

definition interp_init ::
  "(string \<times> ioproc \<times> string list) list \<Rightarrow> 'w Interpreter \<Rightarrow> 'w Interpreter option" where
  "interp_init factory I =
    (if I_isInitialized I then Some I
     else map_option (\<lambda>(t, m). I\<lparr>I_isInitialized := True,
            I_scxml := resortStates (XML_PREFIX (I_scxml I)) (I_scxml I),
            I_micro := Some (t, case I_micro I of None \<Rightarrow> m | Some (_, m0) \<Rightarrow> m0\<lparr>m_isInitialized := True\<rparr>),
            I_env := (I_env I)\<lparr>i_ioProcs := registerIO factory (i_ioProcs (I_env I))\<rparr>\<rparr>)
          (ms_init (I_scxml I)))"

definition interp_step ::
  "(string \<times> ioproc \<times> string list) list \<Rightarrow> 'w plugins \<Rightarrow> nat \<Rightarrow> 'w Interpreter \<Rightarrow>
   ((Event + InterpreterState) \<times> 'w Interpreter) option" where
  "interp_step factory pl blockMs I =
    (if \<not> I_isInitialized I
     then map_option (\<lambda>I'. (Inr USCXML_INITIALIZED, I'\<lparr>I_state := USCXML_INITIALIZED\<rparr>)) (interp_init factory I)
     else case I_micro I of
       None \<Rightarrow> None
     | Some (t, m) \<Rightarrow>
         (case ms_step t (interp_cb pl (I_scxml I)) blockMs (m, I_env I) of
            (Inl x, m', e) \<Rightarrow> Some (Inl x, I\<lparr>I_micro := Some (t, m'), I_env := e\<rparr>)
          | (Inr st, m', e) \<Rightarrow> Some (Inr st, I\<lparr>I_state := st, I_micro := Some (t, m'), I_env := e\<rparr>)))"

definition interp_reset :: "'w Interpreter \<Rightarrow> 'w Interpreter option" where
  "interp_reset I = map_option (\<lambda>q. I\<lparr>I_micro := map_option (apsnd ms_reset) (I_micro I), I_isInitialized := False,
       I_state := USCXML_INSTANTIATED, I_env := (I_env I)\<lparr>i_delayQueue := q\<rparr>\<rparr>)
     (dq_reset (i_delayQueue (I_env I)))"

definition interp_cancel :: "'w plugins \<Rightarrow> 'w Interpreter \<Rightarrow> 'w Interpreter option" where
  "interp_cancel pl I =
    (case I_micro I of
       None \<Rightarrow> None
     | Some (t, m) \<Rightarrow>
         (case w_getUUID pl (i_world (I_env I)) of (u, w) \<Rightarrow>
            Some (I\<lparr>I_micro := Some (t, markAsCancelled m),
                    I_env := enqueueExternal (Event_new u) ((I_env I)\<lparr>i_world := w\<rparr>)\<rparr>)))"

end
