(* ===== verification/MicroStep_Persist.thy ===== *)
theory MicroStep_Persist
  imports MicroStep_Runs
begin

text \<open>
  Saving and restoring the micro stepper (\<open>FastMicroStep::serialize\<close>, \<open>deserialize\<close>, \<open>toBase64\<close>,
  \<open>fromBase64\<close>). A bitset is written as its 64-bit blocks followed by one block with its size, the
  memory of the blocks is taken in little-endian order and encoded in Base64. Restoring starts the
  invokers of the saved invocations again.
\<close>

unbundle bit_operations_syntax

subsection \<open>Blocks\<close>

type_synonym block = "64 word"

definition num_blocks :: "bitset \<Rightarrow> nat" where
  "num_blocks b = (length b + 63) div 64"

text \<open>\<open>to_block_range\<close>: bit \<open>64 * k + i\<close> of the bitset is bit \<open>i\<close> of block \<open>k\<close>; unused bits are zero.\<close>

definition to_block :: "bitset \<Rightarrow> nat \<Rightarrow> block" where
  "to_block b k = horner_sum of_bool 2 (take 64 (drop (64 * k) b))"

definition block_bytes :: "block \<Rightarrow> byte list" where
  "block_bytes w = map (\<lambda>i. ucast (drop_bit (8 * i) w)) [0..<8]"

fun bytes_block :: "byte list \<Rightarrow> block" where
  "bytes_block [] = 0"
| "bytes_block (b # bs) = ucast b OR push_bit 8 (bytes_block bs)"

fun bytes_blocks :: "byte list \<Rightarrow> block list" where
  "bytes_blocks bs = (if length bs < 8 then [] else bytes_block (take 8 bs) # bytes_blocks (drop 8 bs))"

declare bytes_blocks.simps [simp del]

definition toBase64 :: "bitset \<Rightarrow> string" where
  "toBase64 b =
    (let blocks = map (to_block b) [0..<num_blocks b] @ [of_nat (length b)];
         encoded = concat (map block_bytes blocks)
     in map (\<lambda>c. char_of (unat c)) (base64Encode encoded True))"

text \<open>\<open>init_from_block_range\<close> and \<open>resize\<close>.\<close>

definition from_blocks :: "block list \<Rightarrow> bitset" where
  "from_blocks ws = concat (map (\<lambda>w. map (bit w) [0..<64]) ws)"

definition bits_resize :: "nat \<Rightarrow> bitset \<Rightarrow> bitset" where
  "bits_resize n b = take n b @ replicate (n - length b) False"

text \<open>A failed assertion and the undefined read of the decoder are \<open>None\<close>.\<close>

definition fromBase64 :: "string \<Rightarrow> bitset option" where
  "fromBase64 encoded =
    (case base64Decode (map (\<lambda>c. of_nat (of_char c)) encoded) of
       None \<Rightarrow> None
     | Some bytes \<Rightarrow>
         if length bytes mod 8 \<noteq> 0 \<or> bytes = [] then None
         else (let blocks = bytes_blocks bytes
               in Some (bits_resize (unat (last blocks)) (from_blocks (butlast blocks)))))"

subsection \<open>serialize and deserialize\<close>

definition ms_serialize :: "ms \<Rightarrow> data" where
  "ms_serialize m =
     put ''intializedData'' (Data_string (toBase64 (m_initializedData m)))
    (put ''histories'' (Data_string (toBase64 (m_history m)))
    (put ''invocations'' (Data_string (toBase64 (m_invocations m)))
    (put ''configuration'' (Data_string (toBase64 (m_configuration m))) Data_empty)))"

definition reinvoke :: "tables \<Rightarrow> 'e callbacks \<Rightarrow> bitset \<Rightarrow> bitset \<Rightarrow> 'e \<Rightarrow> 'e" where
  "reinvoke t cb conf invs e =
     fold (\<lambda>i e. if BIT_HAS i invs
        then fold (\<lambda>x e. snd (cb_invoke cb (isInState t conf) x e)) (s_invoke (GET_STATE t i)) e else e)
       [0..<NUMBER_STATES t] e"

definition ms_deserialize ::
  "string \<Rightarrow> tables \<Rightarrow> 'e callbacks \<Rightarrow> data \<Rightarrow> ms \<times> 'e \<Rightarrow> (Event + ms \<times> 'e) option" where
  "ms_deserialize uid t cb d = (\<lambda>(m, e).
    (if \<not> hasKey d ''configuration'' \<or> \<not> hasKey d ''invocations'' \<or> \<not> hasKey d ''histories'' \<or>
        \<not> hasKey d ''intializedData''
     then Some (Inl (ERROR_PLATFORM uid (''FastMicroStep.cpp'', 103) ''Data does not contain required fields for deserialization ''))
     else
       (case (fromBase64 (atom (data_at d ''configuration'')), fromBase64 (atom (data_at d ''invocations'')),
              fromBase64 (atom (data_at d ''histories'')), fromBase64 (atom (data_at d ''intializedData''))) of
          (Some conf, Some invs, Some hist, Some dat) \<Rightarrow>
            if conf = [] then None
            else Some (Inr (m\<lparr>m_configuration := conf, m_invocations := invs, m_history := hist,
                             m_initializedData := dat, m_flags := set_flag CTX_INITIALIZED (m_flags m)\<rparr>,
                            reinvoke t cb conf invs e))
        | _ \<Rightarrow> None)))"

subsection \<open>Round trips\<close>

lemma bytes_block_bit:
  "bit (bytes_block bs) n \<longleftrightarrow> n < 64 \<and> n div 8 < length bs \<and> bit (bs ! (n div 8)) (n mod 8)"
proof (induction bs arbitrary: n)
  case (Cons b bs)
  show ?case
  proof (cases "n < 8")
    case True
    then show ?thesis by (simp add: bit_simps)
  next
    case False
    then obtain k where k: "n = k + 8" by (metis add.commute le_Suc_ex not_less)
    have "\<not> bit b (k + 8)" by (auto dest: bit_imp_le_length)
    moreover have "(k + 8) div 8 = Suc (k div 8)" by presburger
    ultimately show ?thesis using k by (auto simp: bit_simps Cons.IH)
  qed
qed simp

lemma block_bytes_inverse: "bytes_block (block_bytes w) = w"
proof (rule bit_word_eqI)
  fix n assume n: "n < LENGTH(64)"
  then have d: "n div 8 < 8" and m: "8 * (n div 8) + n mod 8 = n" "n mod 8 < 8" by auto
  then show "bit (bytes_block (block_bytes w)) n \<longleftrightarrow> bit w n"
    using n by (simp add: bytes_block_bit block_bytes_def bit_simps)
qed

lemma length_block_bytes [simp]: "length (block_bytes w) = 8"
  by (simp add: block_bytes_def)

lemma bytes_blocks_concat: "bytes_blocks (concat (map block_bytes ws)) = ws"
proof (induction ws)
  case (Cons w ws)
  then show ?case
    by (subst bytes_blocks.simps) (simp add: block_bytes_inverse)
qed (simp add: bytes_blocks.simps)

lemma length_concat_block_bytes [simp]: "length (concat (map block_bytes ws)) = 8 * length ws"
  by (induction ws) simp_all

lemma from_blocks_length [simp]: "length (from_blocks ws) = 64 * length ws"
  by (induction ws) (simp_all add: from_blocks_def)

lemma from_blocks_nth:
  "n < 64 * length ws \<Longrightarrow> from_blocks ws ! n = bit (ws ! (n div 64)) (n mod 64)"
proof (induction ws arbitrary: n)
  case (Cons w ws)
  show ?case
  proof (cases "n < 64")
    case True
    then show ?thesis by (simp add: from_blocks_def nth_append)
  next
    case False
    then obtain k where k: "n = k + 64" by (metis add.commute le_Suc_ex not_less)
    moreover have "(k + 64) div 64 = Suc (k div 64)" by presburger
    ultimately show ?thesis using Cons by (simp add: from_blocks_def nth_append)
  qed
qed simp

lemma to_block_bit: "i < 64 \<Longrightarrow> bit (to_block b k) i \<longleftrightarrow> 64 * k + i < length b \<and> b ! (64 * k + i)"
  by (auto simp: to_block_def bit_horner_sum_bit_iff)

lemma blocks_inverse:
  "bits_resize (length b) (from_blocks (map (to_block b) [0..<num_blocks b])) = b"
proof (rule nth_equalityI)
  let ?l = "from_blocks (map (to_block b) [0..<num_blocks b])"
  have big: "length b \<le> 64 * num_blocks b" unfolding num_blocks_def by presburger
  then show "length (bits_resize (length b) ?l) = length b" by (simp add: bits_resize_def)
  fix n assume "n < length (bits_resize (length b) ?l)"
  then have n: "n < length b" using big by (simp add: bits_resize_def)
  then have q: "n div 64 < num_blocks b" using big by (simp add: less_mult_imp_div_less)
  have "bits_resize (length b) ?l ! n = ?l ! n" using n big by (simp add: bits_resize_def nth_append)
  also have "\<dots> = bit (to_block b (n div 64)) (n mod 64)" using q n big by (simp add: from_blocks_nth)
  also have "\<dots> = b ! n" using n by (simp add: to_block_bit)
  finally show "bits_resize (length b) ?l ! n = b ! n" .
qed

lemma char_byte_inverse: "map (\<lambda>c. of_nat (of_char c)) (map (\<lambda>c. char_of (unat c)) bs) = (bs :: byte list)"
proof -
  have "unat c < 2 ^ LENGTH(8)" for c :: byte by (rule unsigned_less)
  then have "of_nat (of_char (char_of (unat c) :: char)) = c" for c :: byte
    by (simp add: of_char_of)
  then show ?thesis by (induction bs) simp_all
qed

lemma fromBase64_toBase64:
  assumes "length b < 2 ^ 64"
  shows "fromBase64 (toBase64 b) = Some b"
proof -
  let ?ws = "map (to_block b) [0..<num_blocks b] @ [of_nat (length b) :: block]"
  let ?enc = "concat (map block_bytes ?ws)"
  have dec: "base64Decode (map (\<lambda>c. of_nat (of_char c)) (toBase64 b)) = Some ?enc"
    unfolding toBase64_def Let_def char_byte_inverse by (rule base64_roundtrip)
  have len: "length ?enc = 8 * length ?ws" by (rule length_concat_block_bytes)
  then have ok: "length ?enc mod 8 = 0" "?enc \<noteq> []" by (simp_all add: block_bytes_def)
  have size: "unat (of_nat (length b) :: block) = length b"
    using assms by (simp add: unat_of_nat take_bit_nat_eq_self_iff)
  show ?thesis
    unfolding fromBase64_def dec option.case bytes_blocks_concat Let_def
    using ok size blocks_inverse [of b] by (simp del: concat_map_singleton)
qed

lemma ms_restored:
  assumes "ms_sized t m" and "0 < NUMBER_STATES t" and "NUMBER_STATES t < 2 ^ 64"
  shows "ms_deserialize uid t cb (ms_serialize m) (m0, e) =
    Some (Inr (m0\<lparr>m_configuration := m_configuration m, m_invocations := m_invocations m,
        m_history := m_history m, m_initializedData := m_initializedData m,
        m_flags := set_flag CTX_INITIALIZED (m_flags m0)\<rparr>,
      reinvoke t cb (m_configuration m) (m_invocations m) e))"
proof -
  have "fromBase64 (toBase64 (m_configuration m)) = Some (m_configuration m)"
    "fromBase64 (toBase64 (m_invocations m)) = Some (m_invocations m)"
    "fromBase64 (toBase64 (m_history m)) = Some (m_history m)"
    "fromBase64 (toBase64 (m_initializedData m)) = Some (m_initializedData m)"
    using assms by (simp_all add: fromBase64_toBase64 ms_sized_def)
  moreover have "m_configuration m \<noteq> []" using assms by (auto simp: ms_sized_def)
  ultimately show ?thesis by (simp add: ms_deserialize_def ms_serialize_def)
qed

end
