(* ===== verification/MicroStep_Properties.thy ===== *)
theory MicroStep_Properties
  imports MicroStep_Persist
begin

text \<open>
  The properties of the micro stepper, stated over the sections and runs of \<open>FastMicroStep::step\<close>,
  and a small machine on which they are applied: a root with an atomic state and a final state and
  one transition between them on the event \<open>go\<close>.
\<close>

subsection \<open>A sample machine\<close>

definition sample_bits :: "nat set \<Rightarrow> bitset" where
  "sample_bits S = map (\<lambda>i. i \<in> S) [0..<3]"

definition sample_state :: "string \<Rightarrow> byte \<Rightarrow> nat set \<Rightarrow> nat set \<Rightarrow> nat set \<Rightarrow> State" where
  "sample_state i k cmp ch anc = \<lparr>s_element = Element (length i) None ''state'' [] [(''id'', i)] [],
     s_completion = sample_bits cmp, s_children = sample_bits ch, s_ancestors = sample_bits anc,
     s_parent = 0, s_documentOrder = 0, s_data = [], s_invoke = [], s_onEntry = [], s_onExit = [],
     s_doneData = None, s_type = k\<rparr>"

definition sample_tables :: tables where
  "sample_tables = \<lparr>t_states = [sample_state ''root'' STATE_COMPOUND {1} {1, 2} {},
       sample_state ''a'' STATE_ATOMIC {} {} {0}, sample_state ''f'' STATE_FINAL {} {} {0}],
     t_transitions = [\<lparr>t_element = Element 9 None ''transition'' [] [] [], t_conflicts = [True],
       t_exitSet = sample_bits {1}, t_source = 1, t_target = sample_bits {2}, t_onTrans = None,
       t_event = ''go'', t_cond = [], t_type = 0\<rparr>],
     t_stateIds = [(''a'', 1), (''f'', 2)]\<rparr>"

text \<open>The environment is the external queue; nothing else happens in the callbacks.\<close>

definition sample_cb :: "Event list callbacks" where
  "sample_cb = \<lparr>cb_dequeueInternal = (\<lambda>q. (Event_new [], q)),
     cb_dequeueExternal = (\<lambda>_ _ q. case q of [] \<Rightarrow> (Inr (Event_new []), []) | ev # q' \<Rightarrow> (Inr ev, q')),
     cb_isMatched = (\<lambda>ev d. ename ev = d), cb_isTrue = (\<lambda>_ c q. (c = ''true'', q)),
     cb_raiseDoneEvent = (\<lambda>_ _ _ q. q), cb_initData = (\<lambda>_ _ q. q), cb_process = (\<lambda>_ _ q. (None, q)),
     cb_invoke = (\<lambda>_ _ q. (None, q)), cb_uninvoke = (\<lambda>_ q. q), cb_monitor = (\<lambda>_ q. q)\<rparr>"

lemma wf_sample: "wf_sizes sample_tables"
  by (simp add: wf_sizes_def sample_tables_def sample_state_def wf_state_def wf_transition_def sample_bits_def)

text \<open>The state after a number of steps, with the given external events waiting at the start.\<close>

definition sample_run :: "nat \<Rightarrow> Event list \<Rightarrow> ms \<times> Event list" where
  "sample_run k q = ((\<lambda>s. snd (ms_step sample_tables sample_cb 0 s)) ^^ k) (ms_initial sample_tables, q)"

lemma sample_run_step:
  "ms_step sample_tables sample_cb 0 (fst (sample_run k q), snd (sample_run k q)) =
     (fst (ms_step sample_tables sample_cb 0 (sample_run k q)), fst (sample_run (Suc k) q), snd (sample_run (Suc k) q))"
  by (simp add: sample_run_def)

lemma sample_run_reach: "reach sample_tables sample_cb (fst (sample_run k q)) (snd (sample_run k q))"
proof (induction k)
  case (Suc k)
  show ?case by (rule reach.stepped [OF Suc sample_run_step])
qed (simp add: sample_run_def reach.initial)

lemma sample_run_results:
  "map (\<lambda>k. fst (ms_step sample_tables sample_cb 0 (sample_run k [Event_named ''go'' EXTERNAL]))) [0, 1, 2, 3, 4] =
    map Inr [USCXML_MICROSTEPPED, USCXML_MICROSTEPPED, USCXML_MACROSTEPPED, USCXML_MICROSTEPPED, USCXML_FINISHED]"
  by code_simp

subsection \<open>Selecting transitions\<close>



subsection \<open>One micro step\<close>

text \<open>
  C2. A micro step changes the configuration exactly by the exit set and the entry set: the active
  states afterwards are the states that were active and are not exited, together with the states of
  the entry set that are no pseudo-states.
\<close>

theorem microstep_configuration:
  assumes "ms_sized t m" and "length targetSet = NUMBER_STATES t"
  shows "bset (m_configuration (fst (microstep t cb targetSet exitSet transSet (m, e)))) =
    (bset (m_configuration m) - bset exitSet) \<union>
    {i \<in> bset (fst (establish_entryset t (m_configuration m) (m_history m) exitSet targetSet transSet)).
       proper t i}"
  using microstep_conf(1) [of m t targetSet cb exitSet transSet e] assms
  by (simp add: ms_sized_def entry_of_def)

theorem microstep_configuration_witness:
  "bset (m_configuration (fst (microstep sample_tables sample_cb [False, False, True] [False, True, False] [True]
      ((ms_initial sample_tables)\<lparr>m_configuration := [True, True, False]\<rparr>, [])))) =
    (bset [True, True, False] - bset [False, True, False]) \<union>
    {i \<in> bset (fst (establish_entryset sample_tables [True, True, False] [False, False, False]
        [False, True, False] [False, False, True] [True])). proper sample_tables i}"
  using microstep_configuration [of sample_tables "(ms_initial sample_tables)\<lparr>m_configuration := [True, True, False]\<rparr>"
      "[False, False, True]" sample_cb "[False, True, False]" "[True]" "[]"]
  by (simp add: ms_sized_def ms_initial_def sample_tables_def bits_none_def numeral_3_eq_3)

lemma enter_states_inactive:
  "fold (enter_at t cb ts) (filter (\<lambda>i. BIT_HAS i es) xs) s =
   fold (enter_at t cb ts) (filter (\<lambda>i. BIT_HAS i es \<and> proper t i \<and> \<not> BIT_HAS i c) xs) s"
  if "distinct xs" "\<forall>i \<in> set xs. BIT_HAS i (m_configuration (fst s)) = BIT_HAS i c"
  using that
proof (induction xs arbitrary: s)
  case (Cons x xs)
  have "\<forall>i \<in> set xs. BIT_HAS i (m_configuration (fst (enter_at t cb ts x s))) = BIT_HAS i c"
    using Cons.prems by (auto simp: enter_at_conf BIT_HAS_bset bset_simps)
  moreover have "enter_at t cb ts x s = s" if "\<not> proper t x \<or> BIT_HAS x c"
    using that Cons.prems by (cases s) (auto simp: enter_at_cases)
  ultimately show ?case using Cons by simp
qed simp

text \<open>
  C6. States are exited in reverse document order and entered in document order: exiting runs
  \<open>exit_at\<close> once for each active state of the exit set from the last to the first, entering runs
  \<open>enter_at\<close> once for each proper state of the entry set that is not yet active, from the first to
  the last.
\<close>

theorem exit_enter_order:
  "exit_states t cb exitSet (NUMBER_STATES t) s =
     fold (exit_at t cb) (rev (filter (\<lambda>i. BIT_HAS i exitSet \<and> BIT_HAS i (fst s)) [0..<NUMBER_STATES t])) s \<and>
   enter_states t cb entrySet transSet m =
     fold (enter_at t cb transSet) (filter (\<lambda>i. BIT_HAS i entrySet \<and> proper t i \<and>
        \<not> BIT_HAS i (m_configuration (fst m))) [0..<NUMBER_STATES t]) m"
  using exit_states_fold [of t cb exitSet "NUMBER_STATES t" s] enter_states_inactive [of "[0..<NUMBER_STATES t]" m]
  by (simp add: enter_states_fold)

text \<open>
  C7. What the history pseudo-states remember: after \<open>REMEMBER_HISTORY\<close>, a state covered by a
  history whose parent is exited is remembered exactly when it is active; every other state keeps
  what was remembered before.
\<close>

theorem history_recorded:
  assumes "wf_sizes t" and "length history = NUMBER_STATES t"
  shows "bset (remember_history t conf exitSet history) =
    {i. if \<exists>h < NUMBER_STATES t. isHistoryKind (kind t h) \<and> BIT_HAS (s_parent (GET_STATE t h)) exitSet \<and>
             BIT_HAS i (s_completion (GET_STATE t h))
        then BIT_HAS i conf else BIT_HAS i history}"
  using remember_history_bset [OF assms, of conf exitSet]
  by (auto simp: recorded_def BIT_HAS_bset)

theorem history_recorded_witness:
  "bset (remember_history sample_tables [True, True, False] [False, True, False] [False, False, False]) =
    {i. if \<exists>h < NUMBER_STATES sample_tables. isHistoryKind (kind sample_tables h) \<and>
             BIT_HAS (s_parent (GET_STATE sample_tables h)) [False, True, False] \<and>
             BIT_HAS i (s_completion (GET_STATE sample_tables h))
        then BIT_HAS i [True, True, False] else BIT_HAS i [False, False, False]}"
  by (rule history_recorded [OF wf_sample]) (simp add: sample_tables_def)

subsection \<open>Runs\<close>



text \<open>
  C5. When \<open>step\<close> reports the end of a macro step, the running invocations are exactly those of the
  active states.
\<close>

theorem macrostep_invocations:
  assumes "reach t cb m e" and "wf_sizes t"
    and "ms_step t cb b (m, e) = (Inr USCXML_MACROSTEPPED, m', e')"
  shows "bset (m_invocations m') = bset (m_configuration m')"
proof -
  have inv: "ms_inv t m" by (rule reach_inv [OF assms(1,2)])
  show ?thesis
  proof (cases rule: ms_step_cases [of m t cb b e])
    case (select ev e1)
    then show ?thesis using assms(3) by (simp add: case_prod_beta select_and_step_result)
  next
    case (external ev e1)
    have inv1: "ms_inv t (m\<lparr>m_event := ev\<rparr>)" using inv by simp
    show ?thesis
      using assms(3) external(7) invocations_length [OF _ inv1, of cb e1]
      by (cases rule: step_external_cases [of t cb "m\<lparr>m_event := ev\<rparr>" e1 b])
        (auto simp: case_prod_beta select_and_step_result split: if_splits)
  qed (use assms(3) in auto)
qed

theorem macrostep_invocations_witness:
  "bset (m_invocations (fst (sample_run 3 [Event_named ''go'' EXTERNAL]))) =
   bset (m_configuration (fst (sample_run 3 [Event_named ''go'' EXTERNAL])))"
proof (rule macrostep_invocations [OF sample_run_reach wf_sample])
  show "ms_step sample_tables sample_cb 0 (fst (sample_run 2 [Event_named ''go'' EXTERNAL]),
      snd (sample_run 2 [Event_named ''go'' EXTERNAL])) =
    (Inr USCXML_MACROSTEPPED, fst (sample_run 3 [Event_named ''go'' EXTERNAL]),
      snd (sample_run 3 [Event_named ''go'' EXTERNAL]))"
    using sample_run_step [of 2 "[Event_named ''go'' EXTERNAL]"] sample_run_results
    by (simp add: eval_nat_numeral)
qed

text \<open>
  C4. \<open>USCXML_FINISHED\<close> is final: after \<open>step\<close> has returned it, every further call returns it again,
  changes nothing, calls back into nothing, and no invocation is left running.
\<close>

theorem finished_absorbing:
  assumes "reach t cb m e" and "wf_sizes t" and "ms_step t cb b (m, e) = (Inr USCXML_FINISHED, m', e')"
  shows "ms_step t cb b' (m', e'') = (Inr USCXML_FINISHED, m', e'') \<and> bset (m_invocations m') = {}"
proof -
  have f: "has_flag (m_flags m') CTX_FINISHED" by (rule FINISHED_cases [OF assms(3)])
  have "reach t cb m' e'" by (rule reach.stepped [OF assms(1,3)])
  from reach_finished [OF this assms(2) f] show ?thesis using f by (simp add: ms_step_def)
qed

theorem finished_absorbing_witness:
  "ms_step sample_tables sample_cb 7 (fst (sample_run 5 [Event_named ''go'' EXTERNAL]), []) =
     (Inr USCXML_FINISHED, fst (sample_run 5 [Event_named ''go'' EXTERNAL]), []) \<and>
   bset (m_invocations (fst (sample_run 5 [Event_named ''go'' EXTERNAL]))) = {}"
proof (rule finished_absorbing [OF sample_run_reach wf_sample])
  show "ms_step sample_tables sample_cb 0 (fst (sample_run 4 [Event_named ''go'' EXTERNAL]),
      snd (sample_run 4 [Event_named ''go'' EXTERNAL])) =
    (Inr USCXML_FINISHED, fst (sample_run 5 [Event_named ''go'' EXTERNAL]),
      snd (sample_run 5 [Event_named ''go'' EXTERNAL]))"
    using sample_run_step [of 4 "[Event_named ''go'' EXTERNAL]"] sample_run_results
    by (simp add: eval_nat_numeral)
qed


definition idle_cb :: "Event list callbacks" where
  "idle_cb = sample_cb\<lparr>cb_dequeueExternal := (\<lambda>_ _ q. (Inr (Event_new []), q))\<rparr>"


subsection \<open>Saving and restoring\<close>

text \<open>
  Restoring a saved micro stepper gives back its configuration, its invocations, its history
  and its initialised data, and restarts the saved invocations.
\<close>

theorem serialize_roundtrip:
  assumes "ms_sized t m" and "0 < NUMBER_STATES t" and "NUMBER_STATES t < 2 ^ 64"
  shows "ms_deserialize uid t cb (ms_serialize m) (m0, e) =
    Some (Inr (m0\<lparr>m_configuration := m_configuration m, m_invocations := m_invocations m,
        m_history := m_history m, m_initializedData := m_initializedData m,
        m_flags := set_flag CTX_INITIALIZED (m_flags m0)\<rparr>,
      reinvoke t cb (m_configuration m) (m_invocations m) e))"
  using assms by (rule ms_restored)

theorem serialize_roundtrip_witness:
  "ms_deserialize [] sample_tables sample_cb (ms_serialize (fst (sample_run 1 []))) (ms_initial sample_tables, []) =
    Some (Inr ((ms_initial sample_tables)\<lparr>m_configuration := m_configuration (fst (sample_run 1 [])),
        m_invocations := m_invocations (fst (sample_run 1 [])), m_history := m_history (fst (sample_run 1 [])),
        m_initializedData := m_initializedData (fst (sample_run 1 [])),
        m_flags := set_flag CTX_INITIALIZED (m_flags (ms_initial sample_tables))\<rparr>,
      reinvoke sample_tables sample_cb (m_configuration (fst (sample_run 1 [])))
        (m_invocations (fst (sample_run 1 []))) []))"
proof (rule serialize_roundtrip)
  show "ms_sized sample_tables (fst (sample_run 1 []))"
    using reach_inv [OF sample_run_reach wf_sample] by (simp add: ms_inv_def)
qed (simp_all add: sample_tables_def)

end
