(* ===== verification/MicroStep_Machines.thy ===== *)
theory MicroStep_Machines
  imports MicroStep_Init MicroStep_Properties
begin

text \<open>
  Properties of \<open>FastMicroStep::init\<close> and of machines run from their documents: the tables that
  \<open>init\<close> builds satisfy what the properties of \<open>step\<close> assume, the loops that climb the state tree are
  long enough, and three documents on which the micro stepper departs from what its comments say.
\<close>

subsection \<open>The tables that init builds\<close>

lemma ms_init_wf:
  assumes "distinct (nids scxml)" and "isElement scxml" and "TAGNAME scxml = XML_PREFIX scxml @ ''scxml''"
    and "ms_init scxml = Some (t, m)"
  shows "wf_sizes t \<and> wf_tree t \<and> m = ms_initial t \<and>
    (\<forall>i < NUMBER_TRANS t. \<forall>j < NUMBER_TRANS t. conflicting t i j = conflicting t j i)"
proof -
  let ?d = "machine scxml" let ?L = "collectStates ?d" let ?T = "collectTransitions ?d"
  from assms(4) obtain late where m: "m = ms_initial t" and n: "NUMBER_STATES t = length ?L"
    and k: "NUMBER_TRANS t = length ?T"
    and st: "\<And>i. i < NUMBER_STATES t \<Longrightarrow> init_state ?d late ?L i = Some (GET_STATE t i)"
    and tr: "\<And>i. i < NUMBER_TRANS t \<Longrightarrow> init_transition ?d ?L (t_stateIds t) ?T i = Some (GET_TRANS t i)"
    by (rule ms_init_cases) (rule that)
  have "\<exists>r. ?L = ?d # r"
    using resort_root [OF assms(2)] assms(3) by (intro collectStates_root) (simp_all add: machine_def)
  then have "t_states t \<noteq> []" using n by auto
  moreover have "list_all (wf_state t) (t_states t)"
    using init_state_wf [OF st] n by (simp add: list_all_length wf_state_def)
  moreover have "list_all (wf_transition t) (t_transitions t)"
    using init_transition_wf [OF tr] n k by (simp add: list_all_length wf_transition_def)
  moreover have "conflicting t i j = conflict_bit ?d ?T i j" if "i < NUMBER_TRANS t" "j < NUMBER_TRANS t" for i j
    using init_transition_conflicts [OF tr [OF that(1)]] that(2) k by (simp add: conflicting_def BIT_HAS_def)
  ultimately show ?thesis
    using ms_init_tree [OF assms(1,4)] m by (simp add: wf_sizes_def conflict_bit_sym)
qed

text \<open>
  C14. For every document with unique node identities whose root is an \<open>scxml\<close> element, the tables that
  \<open>init\<close> builds have bitsets of the right sizes and indices in range, represent the tree of states
  (ancestors precede their descendants, \<open>children\<close> holds all descendants), and have a symmetric
  conflict matrix; the micro stepper starts with an empty configuration.
\<close>

theorem init_tables:
  assumes "distinct (nids scxml)" and "isElement scxml" and "TAGNAME scxml = XML_PREFIX scxml @ ''scxml''"
    and "ms_init scxml = Some (t, m)"
  shows "wf_sizes t \<and> wf_tree t \<and> m = ms_initial t \<and>
    (\<forall>i < NUMBER_TRANS t. \<forall>j < NUMBER_TRANS t. conflicting t i j = conflicting t j i)"
  using assms by (rule ms_init_wf)

theorem init_tables_witness:
  "\<exists>t m. ms_init sample_doc = Some (t, m) \<and> wf_sizes t \<and> wf_tree t"
proof -
  have "ms_init sample_doc \<noteq> None" by code_simp
  then obtain t m where i: "ms_init sample_doc = Some (t, m)" by auto
  have "wf_sizes t \<and> wf_tree t \<and> m = ms_initial t \<and>
      (\<forall>i < NUMBER_TRANS t. \<forall>j < NUMBER_TRANS t. conflicting t i j = conflicting t j i)"
  proof (rule init_tables [OF _ _ _ i])
    show "distinct (nids sample_doc)" by code_simp
    show "isElement sample_doc" by code_simp
    show "TAGNAME sample_doc = XML_PREFIX sample_doc @ ''scxml''" by code_simp
  qed
  then show ?thesis using i by blast
qed

subsection \<open>Climbing loops end\<close>

lemma parent_smaller:
  assumes "wf_tree t" and "p < NUMBER_STATES t" and "0 < bits_count (s_ancestors (GET_STATE t p))"
  shows "s_parent (GET_STATE t p) < p"
proof -
  have "bset (s_ancestors (GET_STATE t p)) \<noteq> {}" using assms(3) by (auto simp: bits_count_card)
  then show ?thesis using assms(1,2) by (auto simp: wf_tree_def Let_def)
qed

lemma clear_parallels_fuel:
  "wf_tree t \<Longrightarrow> p < NUMBER_STATES t \<Longrightarrow> p < f \<Longrightarrow> p < g \<Longrightarrow>
   clear_parallels f t q p tmp = clear_parallels g t q p tmp"
proof (induction f arbitrary: g p tmp)
  case (Suc f)
  then obtain g' where g: "g = Suc g'" by (cases g) auto
  have "s_parent (GET_STATE t p) < p" if "0 < bits_count (s_ancestors (GET_STATE t p))"
    using parent_smaller Suc.prems that by blast
  then have "clear_parallels f t q (s_parent (GET_STATE t p)) x = clear_parallels g' t q (s_parent (GET_STATE t p)) x"
    if "0 < bits_count (s_ancestors (GET_STATE t p))" for x
    using Suc.IH [of "s_parent (GET_STATE t p)" g' x] Suc.prems that g by simp
  then show ?case by (simp add: g Let_def)
qed simp

lemma done_parallels_fuel:
  "wf_tree t \<Longrightarrow> p < NUMBER_STATES t \<Longrightarrow> p < f \<Longrightarrow> p < g \<Longrightarrow>
   done_parallels f t cb conf p e = done_parallels g t cb conf p e"
proof (induction f arbitrary: g p e)
  case (Suc f)
  then obtain g' where g: "g = Suc g'" by (cases g) auto
  have "s_parent (GET_STATE t p) < p" if "0 < bits_count (s_ancestors (GET_STATE t p))"
    using parent_smaller Suc.prems that by blast
  then have "done_parallels f t cb conf (s_parent (GET_STATE t p)) x = done_parallels g' t cb conf (s_parent (GET_STATE t p)) x"
    if "0 < bits_count (s_ancestors (GET_STATE t p))" for x
    using Suc.IH [of "s_parent (GET_STATE t p)" g' x] Suc.prems that g by simp
  then show ?case by (simp add: g Let_def)
qed simp

text \<open>
  The two loops that climb from a final state through its parallel ancestors end: with the number of
  states as bound they compute the same as with any larger bound, so the bound is never reached.
\<close>

theorem climbing_loops_end:
  assumes "wf_tree t" and "p < NUMBER_STATES t" and "NUMBER_STATES t \<le> f"
  shows "done_parallels f t cb conf p e = done_parallels (NUMBER_STATES t) t cb conf p e \<and>
    clear_parallels f t q p tmp = clear_parallels (NUMBER_STATES t) t q p tmp"
  using assms done_parallels_fuel [of t p f "NUMBER_STATES t" cb conf e]
    clear_parallels_fuel [of t p f "NUMBER_STATES t" q tmp] by simp

lemma sample_doc_tables:
  obtains t m where "ms_init sample_doc = Some (t, m)" and "NUMBER_STATES t = 5" and "wf_tree t"
proof -
  have n: "map_option (\<lambda>(t, m). NUMBER_STATES t) (ms_init sample_doc) = Some 5" by code_simp
  then obtain t m where i: "ms_init sample_doc = Some (t, m)" by auto
  have "distinct (nids sample_doc)" by code_simp
  from ms_init_tree [OF this i] show thesis using n i by (intro that) auto
qed

theorem climbing_loops_end_witness:
  "\<exists>t m. ms_init sample_doc = Some (t, m) \<and>
    done_parallels 100 t sample_cb [] 3 [] = done_parallels (NUMBER_STATES t) t sample_cb [] 3 [] \<and>
    clear_parallels 100 t 0 3 [] = clear_parallels (NUMBER_STATES t) t 0 3 []"
proof -
  obtain t m where t: "ms_init sample_doc = Some (t, m)" "NUMBER_STATES t = 5" "wf_tree t"
    by (rule sample_doc_tables)
  from climbing_loops_end [OF t(3), of 3 100 sample_cb "[]" "[]" 0 "[]"] t show ?thesis by auto
qed

subsection \<open>Documents\<close>

text \<open>Elements with an identifier, and an environment that records the elements for which \<open>done\<close> is raised.\<close>

definition elem :: "nat \<Rightarrow> string \<Rightarrow> string \<Rightarrow> (string \<times> string) list \<Rightarrow> node list \<Rightarrow> node" where
  "elem i tag name attrs cs = Element i None tag [] ((''id'', name) # attrs) cs"

definition trace_cb :: "string list callbacks" where
  "trace_cb = \<lparr>cb_dequeueInternal = (\<lambda>q. (Event_new [], q)),
     cb_dequeueExternal = (\<lambda>_ _ q. (Inr (Event_new []), q)),
     cb_isMatched = (\<lambda>ev d. nameMatch d (ename ev)), cb_isTrue = (\<lambda>_ _ q. (False, q)),
     cb_raiseDoneEvent = (\<lambda>_ s _ q. q @ [ATTR s ''id'']), cb_initData = (\<lambda>_ _ q. q),
     cb_process = (\<lambda>_ _ q. (None, q)), cb_invoke = (\<lambda>_ _ q. (None, q)), cb_uninvoke = (\<lambda>_ q. q),
     cb_monitor = (\<lambda>_ q. q)\<rparr>"

text \<open>The names of the active states and the trace after the first step of a document's machine.\<close>

definition first_step :: "node \<Rightarrow> (string list \<times> string list) option" where
  "first_step doc = map_option (\<lambda>(t, m).
     (let (r, m', e) = ms_step t trace_cb 0 (m, [])
      in (map (\<lambda>s. ATTR s ''id'') (getConfiguration t m'), e))) (ms_init doc)"

definition deep_initial_doc :: node where
  "deep_initial_doc = elem 0 ''scxml'' ''root'' []
     [elem 1 ''state'' ''a'' [(''initial'', ''a11'')]
       [elem 2 ''state'' ''a1'' [] [elem 3 ''state'' ''a11'' [] []]]]"

text \<open>
  The initial attribute of a nested state that names a deep descendant: the machine enters the
  descendant \<open>a11\<close> but not its parent \<open>a1\<close>. The branch commented as deep completion tests that the
  completion is disjoint from \<open>children\<close>, which holds all descendants, so it is not taken.
\<close>

theorem deep_initial_skips_parent:
  "first_step deep_initial_doc = Some ([''root'', ''a'', ''a11''], [])"
  by code_simp

definition region :: "nat \<Rightarrow> string \<Rightarrow> node" where
  "region i r = elem i ''state'' r [] [elem (i + 1) ''final'' (r @ ''f'') [] []]"

definition parallel_doc :: "node list \<Rightarrow> node" where
  "parallel_doc extra = elem 0 ''scxml'' ''root'' []
     [elem 1 ''parallel'' ''p'' [] (extra @ [region 10 ''r1'', region 20 ''r2''])]"

definition history_elem :: node where
  "history_elem = elem 5 ''history'' ''h'' [] [Element 6 None ''transition'' [] [(''target'', ''r1'')] []]"

text \<open>
  A parallel state all of whose regions are final raises its \<open>done.state\<close> event; when the parallel
  state also has a history child, the same configuration does not raise it.
\<close>

theorem parallel_done_history:
  "first_step (parallel_doc []) =
     Some ([''root'', ''p'', ''r1'', ''r1f'', ''r2'', ''r2f''], [''r1'', ''r2'', ''p'']) \<and>
   first_step (parallel_doc [history_elem]) =
     Some ([''root'', ''p'', ''r1'', ''r1f'', ''r2'', ''r2f''], [''r1'', ''r2''])"
proof
  show "first_step (parallel_doc []) =
     Some ([''root'', ''p'', ''r1'', ''r1f'', ''r2'', ''r2f''], [''r1'', ''r2'', ''p''])" by code_simp
  show "first_step (parallel_doc [history_elem]) =
     Some ([''root'', ''p'', ''r1'', ''r1f'', ''r2'', ''r2f''], [''r1'', ''r2''])" by code_simp
qed

text \<open>
  The flag for nested histories is never set: no document gives a state of the type that the code
  for nested deep histories tests for.
\<close>

theorem nested_history_flag_unset:
  assumes "ms_init scxml = Some (t, m)" and "i < NUMBER_STATES t"
  shows "\<not> has_flag (s_type (GET_STATE t i)) STATE_HAS_HISTORY"
proof -
  let ?d = "machine scxml" let ?L = "collectStates ?d"
  from assms(1) obtain late where "NUMBER_STATES t = length ?L"
    and "\<And>i. i < NUMBER_STATES t \<Longrightarrow> init_state ?d late ?L i = Some (GET_STATE t i)"
    by (rule ms_init_cases) (rule that)
  then have "s_type (GET_STATE t i) = state_type ?d (?L ! i)"
    using assms(2) init_state_type [of ?d late ?L i] by simp
  then show ?thesis by (simp add: state_type_plain)
qed

theorem nested_history_flag_unset_witness:
  "\<exists>t m. ms_init sample_doc = Some (t, m) \<and> \<not> has_flag (s_type (GET_STATE t 2)) STATE_HAS_HISTORY"
proof -
  obtain t m where t: "ms_init sample_doc = Some (t, m)" "NUMBER_STATES t = 5" "wf_tree t"
    by (rule sample_doc_tables)
  from nested_history_flag_unset [OF t(1), of 2] t show ?thesis by auto
qed

definition order_doc :: "string \<Rightarrow> node" where
  "order_doc ini = elem 0 ''scxml'' ''root'' [(''initial'', ini)]
     [elem 1 ''parallel'' ''p'' [] [elem 2 ''state'' ''a'' [] [], elem 3 ''state'' ''b'' [] []]]"

text \<open>
  An \<open>initial\<close> attribute that lists its states in another order than the document fails an assertion of
  \<open>init\<close>, although the order of the identifiers has no meaning.
\<close>

theorem initial_order_assertion:
  "ms_init (order_doc ''a b'') \<noteq> None \<and> ms_init (order_doc ''b a'') = None"
proof
  show "ms_init (order_doc ''a b'') \<noteq> None" by code_simp
  show "ms_init (order_doc ''b a'') = None" by code_simp
qed

end
