(* ===== verification/Interpreter_Properties.thy ===== *)
theory Interpreter_Properties
  imports Interpreter MicroStep_Machines
begin

text \<open>
  What the interpreter guarantees for sends: every pending timer has its target recorded, so the
  assertion of \<open>eventReady\<close> holds whenever a timer fires; cancelling removes exactly the sends with the
  given identifier; a send reaches the queue its target names.
\<close>

subsection \<open>Cancelling\<close>

abbreviation pending :: "'w interp \<Rightarrow> string \<Rightarrow> callbackData option" where
  "pending s \<equiv> map_of (dq_callbackData (i_delayQueue s))"

abbreviation send_target :: "'w interp \<Rightarrow> string \<Rightarrow> (string \<times> string \<times> string) option" where
  "send_target s \<equiv> map_of (i_delayedEventTargets s)"

lemma cancel_targets_ok:
  assumes "dq_inv q"
  shows "\<exists>q'. cancel_targets c m q = Some (filter (\<lambda>e. fst (snd e) \<noteq> c) m, q') \<and> dq_inv q' \<and>
    (\<forall>u. map_of (dq_callbackData q') u =
      (if \<exists>e \<in> set m. fst e = u \<and> fst (snd e) = c then None else map_of (dq_callbackData q) u))"
  using assms
proof (induction c m q rule: cancel_targets.induct)
  case (2 c u sid type target r q)
  show ?case
  proof (cases "sid = c")
    case True
    obtain q1 where q1: "dq_cancelDelayed u q = Some q1" "dq_inv q1"
      "map_of (dq_callbackData q1) = (map_of (dq_callbackData q))(u := None)"
      using cancelDelayed_ok [OF "2.prems", of u] by blast
    from "2.IH"(1) [OF True q1(1,2)] obtain q2 where "dq_inv q2"
      "cancel_targets c r q1 = Some (filter (\<lambda>e. fst (snd e) \<noteq> c) r, q2)"
      "\<forall>v. map_of (dq_callbackData q2) v = (if \<exists>e \<in> set r. fst e = v \<and> fst (snd e) = c then None
         else map_of (dq_callbackData q1) v)" by blast
    then show ?thesis using True q1 by (intro exI [of _ q2]) (simp, blast)
  next
    case False
    then show ?thesis using "2.IH"(2) [OF False "2.prems"] by auto
  qed
qed simp

lemma map_of_filter_distinct:
  "distinct (map fst m) \<Longrightarrow> map_of (filter P m) k =
     (case map_of m k of None \<Rightarrow> None | Some v \<Rightarrow> if P (k, v) then Some v else None)"
  by (induction m) (auto simp: map_of_eq_None_iff split: option.splits dest: map_of_SomeD)

lemma cancelDelayed_effect:
  assumes inv: "dq_inv (i_delayQueue s)" and d: "distinct (map fst (i_delayedEventTargets s))"
  obtains m q where "cancelDelayed c s = (Inr (), s\<lparr>i_delayedEventTargets := m, i_delayQueue := q\<rparr>)"
    and "dq_inv q" and "distinct (map fst m)"
    and "\<And>u. map_of m u = (case send_target s u of None \<Rightarrow> None | Some v \<Rightarrow> if fst v = c then None else Some v)"
    and "\<And>u. map_of (dq_callbackData q) u =
      (if map_option fst (send_target s u) = Some c then None else pending s u)"
proof -
  obtain q where c: "cancel_targets c (i_delayedEventTargets s) (i_delayQueue s) =
      Some (filter (\<lambda>e. fst (snd e) \<noteq> c) (i_delayedEventTargets s), q)" and q: "dq_inv q"
    and p: "\<forall>u. map_of (dq_callbackData q) u = (if \<exists>e \<in> set (i_delayedEventTargets s). fst e = u \<and> fst (snd e) = c
      then None else pending s u)"
    using cancel_targets_ok [OF inv] by blast
  have "(\<exists>e \<in> set (i_delayedEventTargets s). fst e = u \<and> fst (snd e) = c) \<longleftrightarrow>
      map_option fst (send_target s u) = Some c" for u
    using d by (force simp: map_of_eq_Some_iff)
  with p have "map_of (dq_callbackData q) u =
      (if map_option fst (send_target s u) = Some c then None else pending s u)" for u by simp
  moreover have "cancelDelayed c s = (Inr (), s\<lparr>i_delayedEventTargets :=
      filter (\<lambda>e. fst (snd e) \<noteq> c) (i_delayedEventTargets s), i_delayQueue := q\<rparr>)"
    using c by (simp add: cancelDelayed_def)
  moreover have "map_of (filter (\<lambda>e. fst (snd e) \<noteq> c) (i_delayedEventTargets s)) u =
      (case send_target s u of None \<Rightarrow> None | Some v \<Rightarrow> if fst v = c then None else Some v)" for u
    using d by (simp add: map_of_filter_distinct del: map_of_eq_Some_iff split: option.split)
  moreover have "distinct (map fst (filter (\<lambda>e. fst (snd e) \<noteq> c) (i_delayedEventTargets s)))"
    using d by (simp add: distinct_map_filter)
  ultimately show thesis using that q by blast
qed

text \<open>
  \<open>cancelDelayed\<close> removes exactly the pending sends with the given identifier: their targets are forgotten
  and their timers are gone, while every other pending send keeps its target and its timer. No timer
  is touched that is not allocated.
\<close>

theorem cancel_exact:
  assumes "dq_inv (i_delayQueue s)" and "distinct (map fst (i_delayedEventTargets s))"
  shows "\<exists>s'. cancelDelayed c s = (Inr (), s') \<and>
    (\<forall>u. if map_option fst (send_target s u) = Some c then send_target s' u = None \<and> pending s' u = None
         else send_target s' u = send_target s u \<and> pending s' u = pending s u) \<and>
    i_internalQueue s' = i_internalQueue s \<and> i_externalQueue s' = i_externalQueue s"
  by (rule cancelDelayed_effect [OF assms, of c]) (auto split: option.splits simp del: map_of_eq_Some_iff)

subsection \<open>Operations that leave the pending sends alone\<close>

definition keeps_sends :: "('w, 'a) act \<Rightarrow> bool" where
  "keeps_sends m \<longleftrightarrow> (\<forall>s r s'. m s = (r, s') \<longrightarrow> i_delayQueue s' = i_delayQueue s \<and>
     i_delayedEventTargets s' = i_delayedEventTargets s)"

named_theorems keeps_intros

lemma keeps_sends_bindM [keeps_intros]: "keeps_sends m \<Longrightarrow> (\<And>a. keeps_sends (f a)) \<Longrightarrow> keeps_sends (bindM m f)"
  unfolding keeps_sends_def bindM_def by (fastforce split: prod.splits sum.splits)

lemma keeps_sends_basic [keeps_intros]:
  "keeps_sends (returnM a)" "keeps_sends (throwM x)" "keeps_sends (pluginM w)" "keeps_sends (uuidM pl)"
  by (auto simp: keeps_sends_def returnM_def throwM_def pluginM_def uuidM_def split: prod.splits)

lemma keeps_sends_raiseM [keeps_intros]: "keeps_sends (raiseM pl mk)"
  unfolding raiseM_def by (intro keeps_intros)

lemma keeps_sendsD: "keeps_sends m \<Longrightarrow> m s = (r, s') \<Longrightarrow>
  i_delayQueue s' = i_delayQueue s \<and> i_delayedEventTargets s' = i_delayedEventTargets s"
  by (simp add: keeps_sends_def)

lemma enqueue_frame [simp]:
  "i_delayQueue (enqueueInternal ev s) = i_delayQueue s"
  "i_delayedEventTargets (enqueueInternal ev s) = i_delayedEventTargets s"
  "i_delayQueue (enqueueExternal ev s) = i_delayQueue s"
  "i_delayedEventTargets (enqueueExternal ev s) = i_delayedEventTargets s"
  "i_delayQueue (getInstances s) = i_delayQueue s"
  "i_delayedEventTargets (getInstances s) = i_delayedEventTargets s"
  by (simp_all add: enqueueInternal_def enqueueExternal_def getInstances_def)

lemma keeps_sends_parent [keeps_intros]: "keeps_sends (enqueueAtParent pl ev)"
  unfolding keeps_sends_def enqueueAtParent_def
  by (auto split: option.splits dest: keeps_sendsD [OF keeps_sends_raiseM])

lemma keeps_sends_invoker [keeps_intros]: "keeps_sends (enqueueAtInvoker pl i ev)"
  unfolding keeps_sends_def enqueueAtInvoker_def
  by (auto split: option.splits prod.splits sum.splits exc.splits
      dest!: keeps_sendsD [OF keeps_sends_raiseM] keeps_sendsD [OF keeps_sends_basic(3)])

lemma keeps_sends_session [keeps_intros]: "keeps_sends (sendToSession pl i ev)"
  unfolding keeps_sends_def sendToSession_def Let_def
  by (auto split: option.splits session.splits dest!: keeps_sendsD [OF keeps_sends_raiseM])

lemma keeps_sends_io [keeps_intros]: "keeps_sends (ioproc_event pl p target ev)"
proof -
  have "keeps_sends (io_eventFromSCXML pl target ev)"
    unfolding keeps_sends_def io_eventFromSCXML_def Let_def
    by (auto split: if_splits dest!: keeps_sendsD [OF keeps_sends_raiseM] keeps_sendsD [OF keeps_sends_parent]
        keeps_sendsD [OF keeps_sends_session] keeps_sendsD [OF keeps_sends_invoker])
  then show ?thesis unfolding ioproc_event_def by (cases p) (auto intro: keeps_intros)
qed

subsection \<open>Every timer finds its target\<close>

definition sends_inv :: "'w interp \<Rightarrow> bool" where
  "sends_inv s \<longleftrightarrow> dq_inv (i_delayQueue s) \<and> distinct (map fst (i_delayedEventTargets s)) \<and>
     (\<forall>u. pending s u \<noteq> None \<longrightarrow> send_target s u \<noteq> None)"

text \<open>
  The operations of a session that touch the pending sends, in any order and mixed with any operation
  that does not; a timer fires without another operation in between. Identifiers and timers are fresh.
\<close>

inductive sends_reach :: "'w plugins \<Rightarrow> 'w interp \<Rightarrow> bool" for pl where
  idle: "i_delayQueue s = dq_create \<Longrightarrow> i_delayedEventTargets s = [] \<Longrightarrow> sends_reach pl s"
| sent: "sends_reach pl s \<Longrightarrow> send_target s (uuid ev) = None \<Longrightarrow>
    fst (fst (w_timer pl (i_world s))) \<notin> set (dq_live (i_delayQueue s)) \<Longrightarrow>
    enqueue pl type target delayMs ev s = (r, s') \<Longrightarrow> sends_reach pl s'"
| cancelled: "sends_reach pl s \<Longrightarrow> cancelDelayed c s = (r, s') \<Longrightarrow> sends_reach pl s'"
| fired: "sends_reach pl s \<Longrightarrow> timer_fire pl u s = (Inr (), s') \<Longrightarrow> sends_reach pl s'"
| cleared: "sends_reach pl s \<Longrightarrow> dq_reset (i_delayQueue s) = Some q \<Longrightarrow> sends_reach pl (s\<lparr>i_delayQueue := q\<rparr>)"
| other: "sends_reach pl s \<Longrightarrow> i_delayQueue s' = i_delayQueue s \<Longrightarrow>
    i_delayedEventTargets s' = i_delayedEventTargets s \<Longrightarrow> sends_reach pl s'"

lemma eventReady_effect:
  assumes "eventReady pl ev u s = (r, s')"
  shows "i_delayQueue s' = i_delayQueue s \<and> (if send_target s u = None then r = Inl Abort \<and> s' = s
    else i_delayedEventTargets s' = alist_erase u (i_delayedEventTargets s))"
proof (cases "send_target s u")
  case (Some a)
  obtain sid type target where a: "a = (sid, type, target)" by (cases a)
  show ?thesis
    using assms Some a keeps_sendsD [OF keeps_sends_io] keeps_sendsD [OF keeps_sends_raiseM]
    by (fastforce simp: eventReady_def Let_def split: option.splits if_splits)
qed (use assms in \<open>simp add: eventReady_def\<close>)

lemma enqueue_sends_inv:
  assumes inv: "sends_inv s" and fresh: "send_target s (uuid ev) = None"
    and timer: "fst (fst (w_timer pl (i_world s))) \<notin> set (dq_live (i_delayQueue s))"
    and e: "enqueue pl type target delayMs ev s = (r, s')"
  shows "sends_inv s'"
proof (cases "uuid ev = []")
  case True
  then show ?thesis using e inv by (simp add: enqueue_def)
next
  case False
  let ?u = "uuid ev"
  let ?s1 = "s\<lparr>i_delayedEventTargets := put_key ?u (sendid ev, type, target) (i_delayedEventTargets s)\<rparr>"
  have d: "distinct (map fst (i_delayedEventTargets ?s1))"
    using inv fresh by (simp add: sends_inv_def distinct_alist_put map_of_eq_None_iff)
  have np: "pending s ?u = None" using inv fresh by (auto simp: sends_inv_def)
  show ?thesis
  proof (cases "delayMs = 0")
    case True
    then have r: "eventReady pl ev ?u ?s1 = (r, s')" using e False fresh by (simp add: enqueue_def)
    from eventReady_effect [OF r] have "i_delayQueue s' = i_delayQueue s"
      "i_delayedEventTargets s' = alist_erase ?u (i_delayedEventTargets ?s1)" by simp_all
    then show ?thesis using inv np distinct_alist_erase [OF d] by (auto simp: sends_inv_def)
  next
    case delayed: False
    obtain h now w where t: "w_timer pl (i_world s) = ((h, now), w)" by (metis prod.exhaust)
    have "h \<notin> set (dq_live (i_delayQueue s))" using timer t by simp
    from enqueueDelayed_ok [OF _ this, of now ev delayMs ?u] inv obtain q where
      q: "dq_enqueueDelayed h now ev delayMs ?u (i_delayQueue s) = Some q" "dq_inv q"
        "\<forall>v. v \<noteq> ?u \<longrightarrow> map_of (dq_callbackData q) v = pending s v"
      by (auto simp: sends_inv_def)
    then have "s' = ?s1\<lparr>i_delayQueue := q, i_world := w\<rparr>"
      using e False fresh delayed t by (simp add: enqueue_def enqueueDelayed_def)
    then show ?thesis using q inv d by (auto simp: sends_inv_def)
  qed
qed

lemma timer_fire_effect:
  assumes inv: "sends_inv s" and f: "timer_fire pl u s = (Inr (), s')"
  shows "sends_inv s' \<and> pending s' = (pending s)(u := None) \<and>
    send_target s' = (if pending s u = None then send_target s else (send_target s)(u := None))"
proof -
  obtain x q where t: "timer_begin u (i_delayQueue s) = Some (x, q)" "dq_inv (timer_end u q)"
      "map_of (dq_callbackData (timer_end u q)) = (pending s)(u := None)" "x = map_option cd_userData (pending s u)"
    using timer_ok [of "i_delayQueue s" u] inv by (auto simp: sends_inv_def)
  show ?thesis
  proof (cases "pending s u")
    case None
    then have "s' = s" using f by (simp add: timer_fire_def timer_begin_def)
    then show ?thesis using None inv by (auto simp: fun_eq_iff)
  next
    case (Some cd)
    obtain s2 where s2: "eventReady pl (cd_userData cd) u (s\<lparr>i_delayQueue := q\<rparr>) = (Inr (), s2)"
      "s' = s2\<lparr>i_delayQueue := timer_end u (i_delayQueue s2)\<rparr>"
      using f t Some by (auto simp: timer_fire_def bindM_def modifyM_def split: prod.splits sum.splits)
    have "send_target s u \<noteq> None" using inv Some by (auto simp: sends_inv_def)
    with eventReady_effect [OF s2(1)] have "i_delayQueue s2 = q"
      "i_delayedEventTargets s2 = alist_erase u (i_delayedEventTargets s)" by auto
    then show ?thesis
      using s2(2) t Some inv distinct_alist_erase [of "i_delayedEventTargets s" u] by (auto simp: sends_inv_def)
  qed
qed

lemma cancelDelayed_sends_inv:
  assumes "sends_inv s" and "cancelDelayed c s = (r, s')" shows "sends_inv s'"
proof -
  have i: "dq_inv (i_delayQueue s)" "distinct (map fst (i_delayedEventTargets s))" using assms by (simp_all add: sends_inv_def)
  show ?thesis
    by (rule cancelDelayed_effect [OF i, of c])
      (use assms in \<open>auto simp: sends_inv_def simp del: map_of_eq_Some_iff split: if_splits option.splits\<close>)
qed

lemma reset_sends_inv:
  assumes "sends_inv s" and "dq_reset (i_delayQueue s) = Some q" shows "sends_inv (s\<lparr>i_delayQueue := q\<rparr>)"
  using assms cancelAll_ok [of "i_delayQueue s"] by (auto simp: sends_inv_def dq_reset_def dq_inv_def)

lemma sends_reach_inv: "sends_reach pl s \<Longrightarrow> sends_inv s"
proof (induction rule: sends_reach.induct)
  case (idle s)
  then show ?case by (simp add: sends_inv_def dq_create_def dq_inv_def)
next
  case (sent s ev type target delayMs r s')
  then show ?case using enqueue_sends_inv by blast
next
  case (cancelled s c r s')
  then show ?case using cancelDelayed_sends_inv by blast
next
  case (fired s u s')
  then show ?case using timer_fire_effect by blast
next
  case (cleared s q)
  then show ?case using reset_sends_inv by blast
next
  case (other s s')
  then show ?case by (simp add: sends_inv_def del: map_of_eq_Some_iff)
qed

lemma throws_pluginM: "throws P w \<Longrightarrow> throws P (pluginM w)"
  unfolding throws_def pluginM_def by (auto split: prod.splits)

abbreviation no_abort :: "exc \<Rightarrow> bool" where
  "no_abort \<equiv> \<lambda>x. x \<noteq> Abort"

lemma throws_raiseM: "throws no_abort (raiseM pl mk)"
  unfolding raiseM_def by (auto simp: throws_def bindM_def uuidM_def throwM_def split: prod.splits)

lemma io_no_abort:
  assumes "\<forall>h ev. throws no_abort (w_eventToInvoker pl h ev)" and "\<forall>k t ev. throws no_abort (w_ioEvent pl k t ev)"
  shows "throws no_abort (ioproc_event pl p target ev)"
proof (cases p)
  case SCXMLIOProcessor
  have r: "raiseM pl mk s \<noteq> (Inl Abort :: exc + unit, s')" for mk s s'
    using throws_raiseM [of pl mk] unfolding throws_def by blast
  have i: "pluginM (w_eventToInvoker pl h ev) s \<noteq> (Inl Abort, s')" for h ev s s'
    using throws_pluginM [of no_abort "w_eventToInvoker pl h ev"] assms(1) by (auto simp: throws_def)
  have "io_eventFromSCXML pl target ev s \<noteq> (Inl Abort, s')" for s s'
    by (auto simp: io_eventFromSCXML_def Let_def enqueueAtParent_def sendToSession_def enqueueAtInvoker_def r i
        split: option.splits session.splits prod.splits sum.splits exc.splits)
  then show ?thesis using SCXMLIOProcessor by (auto simp: ioproc_event_def throws_def)
next
  case (PluginIOProcessor k)
  then show ?thesis using assms(2) by (simp add: ioproc_event_def throws_pluginM)
qed

lemma throws_no_abort: "throws no_abort m \<Longrightarrow> fst (m s) \<noteq> Inl Abort"
  by (cases "m s") (auto simp: throws_def)

lemma raiseM_no_abort [simp]: "fst (raiseM pl mk s) \<noteq> Inl Abort"
  by (rule throws_no_abort [OF throws_raiseM])

lemma eventReady_no_abort:
  assumes "\<And>p target ev. throws no_abort (ioproc_event pl p target ev)" and "send_target s u \<noteq> None"
  shows "fst (eventReady pl ev u s) \<noteq> Inl Abort"
proof -
  obtain sid type target where "send_target s u = Some (sid, type, target)" using assms(2) by auto
  then show ?thesis
    using throws_no_abort [OF assms(1)]
    by (simp add: eventReady_def Let_def split: option.split)
qed

lemma timer_fire_no_abort:
  assumes inv: "sends_inv s"
    and "\<forall>h ev. throws no_abort (w_eventToInvoker pl h ev)" and "\<forall>k t ev. throws no_abort (w_ioEvent pl k t ev)"
  shows "fst (timer_fire pl u s) \<noteq> Inl Abort"
proof -
  obtain x q where t: "timer_begin u (i_delayQueue s) = Some (x, q)" "x = map_option cd_userData (pending s u)"
    using timer_ok [of "i_delayQueue s" u] inv by (auto simp: sends_inv_def)
  show ?thesis
  proof (cases "pending s u")
    case (Some cd)
    then have "send_target (s\<lparr>i_delayQueue := q\<rparr>) u \<noteq> None" using inv by (auto simp: sends_inv_def)
    from eventReady_no_abort [OF io_no_abort [OF assms(2,3)] this, of "cd_userData cd"] show ?thesis
      using t Some by (auto simp: timer_fire_def bindM_def modifyM_def split: prod.splits sum.splits)
  qed (use t in \<open>simp add: timer_fire_def\<close>)
qed

text \<open>
  Whenever a timer fires, the target of its send is still recorded: the assertion of \<open>eventReady\<close> cannot
  fail, whatever was sent, cancelled and reset before, as long as no operation interrupts a timer
  callback. A timer that has fired leaves neither a pending timer nor a target, so its event is
  delivered at most once.
\<close>

theorem timer_finds_target:
  assumes "sends_reach pl s"
    and "\<forall>h ev. throws no_abort (w_eventToInvoker pl h ev)" and "\<forall>k t ev. throws no_abort (w_ioEvent pl k t ev)"
  shows "fst (timer_fire pl u s) \<noteq> Inl Abort \<and>
    (\<forall>s'. timer_fire pl u s = (Inr (), s') \<longrightarrow> pending s' = (pending s)(u := None) \<and>
      (pending s u \<noteq> None \<longrightarrow> send_target s' = (send_target s)(u := None)))"
  using timer_fire_no_abort [OF sends_reach_inv [OF assms(1)] assms(2,3)] timer_fire_effect [OF sends_reach_inv [OF assms(1)]]
  by simp

text \<open>
  C20. A delayed send to the session itself is delivered when its timer fires: exactly the event that was
  handed over, stamped with the type and the address of the session, is appended to the external
  queue, or to the internal one for the target \<open>#_internal\<close>, and the other queue is unchanged.
\<close>

theorem delayed_send_delivered:
  assumes "sends_reach pl s" and "pending s u = Some cd" and "send_target s u = Some (sid, type, target)"
    and "map_of (i_ioProcs s) (if type = [] then SCXML_IOPROC else type) = Some SCXMLIOProcessor"
    and "target = [] \<or> iequals target ''#_internal''"
  shows "\<exists>s'. timer_fire pl u s = (Inr (), s') \<and>
    bq_queue (i_externalQueue s') = bq_queue (i_externalQueue s) @
      (if target = [] then [stamp (i_sessionId s) (cd_userData cd)] else []) \<and>
    bq_queue (i_internalQueue s') = bq_queue (i_internalQueue s) @
      (if target = [] then [] else [stamp (i_sessionId s) (cd_userData cd)])"
proof -
  have "dq_inv (i_delayQueue s)" using sends_reach_inv [OF assms(1)] by (simp add: sends_inv_def)
  then obtain q where "timer_begin u (i_delayQueue s) = Some (Some (cd_userData cd), q)"
    using timer_ok [of "i_delayQueue s" u] assms(2) by auto
  then show ?thesis
    using assms(3-5)
    by (auto simp: timer_fire_def eventReady_def ioproc_event_def io_eventFromSCXML_def bindM_def modifyM_def
        enqueueExternal_def enqueueInternal_def bq_enqueue_def Let_def)
qed

subsection \<open>A session with concrete plugins\<close>

text \<open>The world is a counter from which identifiers and timers are drawn; \<open>bad\<close> cannot be evaluated.\<close>

definition sample_value :: "string \<Rightarrow> 'a \<Rightarrow> (nat, 'a) eff" where
  "sample_value x v = (if x = ''bad'' then throwM (ErrorExc (ERROR_EXECUTION [] ([], 1) ''bad'')) else returnM v)"

definition sample_plugins :: "nat plugins" where
  "sample_plugins = \<lparr>
     w_evalAsBool = (\<lambda>inState x. sample_value x (inState x)), w_evalAsData = (\<lambda>inState x. sample_value x (Data_atom x VERBATIM)),
     w_getAsData = (\<lambda>x. sample_value x (Data_atom x VERBATIM)), w_eval = (\<lambda>inState x. sample_value x ()),
     w_assign = (\<lambda>l d a. returnM ()), w_init = (\<lambda>l d a. returnM ()), w_setEvent = (\<lambda>ev w. w),
     w_getLength = (\<lambda>x. returnM 0), w_setForeach = (\<lambda>a b c n. returnM ()), w_isValidExprSyntax = (\<lambda>x w. True),
     w_getUUID = (\<lambda>w. (digits w, Suc w)), w_timer = (\<lambda>w. ((w, w), Suc w)), w_wait = (\<lambda>b w. ([], w)),
     w_createInvoker = (\<lambda>ty. returnM 0), w_invoke = (\<lambda>h src ev. returnM ()), w_uninvoke = (\<lambda>h. returnM ()),
     w_eventToInvoker = (\<lambda>h ev. returnM ()), w_serializeInvoker = (\<lambda>h w. (Data_empty, w)),
     w_deserializeInvoker = (\<lambda>h d w. w), w_ioEvent = (\<lambda>k t ev. returnM ()), w_ioValid = (\<lambda>k t. returnM True),
     w_absolute = (\<lambda>u. u), w_fetch = (\<lambda>n u. returnM (None, [])), w_hasExecutableContent = (\<lambda>a b. False),
     w_enterElement = (\<lambda>n. returnM ()), w_processChildren = (\<lambda>n. False), w_exitElement = (\<lambda>n. returnM ()),
     w_log = (\<lambda>l d w. w), w_secondsToMs = (\<lambda>x. 1000 * strTo_nat x 0), w_junk = VERBATIM,
     w_execNote = (\<lambda>n w. w), w_note = (\<lambda>n w. w)\<rparr>"

definition sample_session :: "nat interp" where
  "sample_session = \<lparr>i_sessionId = ''s'', i_invokeId = [], i_currEvent = Event_new [], i_invokeReq = Event_new [],
     i_internalQueue = bq_create, i_externalQueue = bq_create, i_parentQueue = None, i_delayQueue = dq_create,
     i_delayedEventTargets = [], i_ioProcs = [(SCXML_IOPROC, SCXMLIOProcessor)], i_invokers = [], i_finalize = [],
     i_autoForwarders = [], i_instances = [(''s'', Self)], i_userData = [], i_died = False, i_world = 7\<rparr>"

definition sample_pending :: "nat interp" where
  "sample_pending = snd (enqueue sample_plugins SCXML_IOPROC [] 100 ((Event_new ''u'')\<lparr>ename := ''go'', sendid := ''id1''\<rparr>) sample_session)"

lemma sample_pending_reach: "sends_reach sample_plugins sample_pending"
proof (rule sends_reach.sent [of _ sample_session])
  show "sends_reach sample_plugins sample_session" by (rule sends_reach.idle) (simp_all add: sample_session_def)
  show "enqueue sample_plugins SCXML_IOPROC [] 100 ((Event_new ''u'')\<lparr>ename := ''go'', sendid := ''id1''\<rparr>) sample_session =
      (fst (enqueue sample_plugins SCXML_IOPROC [] 100 ((Event_new ''u'')\<lparr>ename := ''go'', sendid := ''id1''\<rparr>) sample_session),
       sample_pending)"
    by (simp add: sample_pending_def)
qed (simp_all add: sample_session_def dq_create_def)

lemma sample_pending_facts:
  "map_option cd_userData (pending sample_pending ''u'') =
     Some ((Event_new ''u'')\<lparr>ename := ''go'', sendid := ''id1''\<rparr>)"
  "send_target sample_pending ''u'' = Some (''id1'', SCXML_IOPROC, [])"
  "i_ioProcs sample_pending = [(SCXML_IOPROC, SCXMLIOProcessor)]"
  by (simp_all add: sample_pending_def sample_session_def enqueue_def enqueueDelayed_def sample_plugins_def Event_new_def
      dq_create_def dq_enqueueDelayed_def)

theorem cancel_exact_witness:
  "\<exists>s'. cancelDelayed ''id1'' sample_pending = (Inr (), s') \<and> pending s' ''u'' = None \<and> send_target s' ''u'' = None"
proof -
  have "dq_inv (i_delayQueue sample_pending)" "distinct (map fst (i_delayedEventTargets sample_pending))"
    using sends_reach_inv [OF sample_pending_reach] by (simp_all add: sends_inv_def)
  from cancel_exact [OF this, of "''id1''"] show ?thesis using sample_pending_facts(2) by fastforce
qed

theorem timer_finds_target_witness: "fst (timer_fire sample_plugins ''u'' sample_pending) \<noteq> Inl Abort"
  using timer_finds_target [OF sample_pending_reach, of "''u''"]
  by (simp add: sample_plugins_def throws_basic)

theorem delayed_send_delivered_witness:
  "\<exists>s'. timer_fire sample_plugins ''u'' sample_pending = (Inr (), s') \<and>
     map ename (bq_queue (i_externalQueue s')) = map ename (bq_queue (i_externalQueue sample_pending)) @ [''go'']"
proof -
  obtain cd where cd: "pending sample_pending ''u'' = Some cd"
    "cd_userData cd = (Event_new ''u'')\<lparr>ename := ''go'', sendid := ''id1''\<rparr>"
    using sample_pending_facts(1) by auto
  show ?thesis
    using delayed_send_delivered [OF sample_pending_reach cd(1) sample_pending_facts(2)] cd(2)
    by (auto simp: sample_pending_facts(3) stamp_def)
qed

subsection \<open>Invocations that fail\<close>

text \<open>
  An \<open>invoke\<close> whose type expression cannot be evaluated leaves no invoke identifier at its element, but the
  micro stepper counts it as running: when the state is exited, \<open>uninvoke\<close> fails its assertion.
\<close>

theorem failed_invoke_breaks_uninvoke:
  assumes "HAS_ATTR n ''typeexpr''" and "\<forall>w. \<exists>w'. w_evalAsData pl inState (ATTR n ''typeexpr'') w = (Inl (ErrorExc x), w')"
    and "map_of (i_userData s) (nid n) = None"
  shows "\<exists>s'. cb_invoke (interp_cb pl doc) inState n s = (Some x, s') \<and> i_died s' = i_died s \<and>
    i_died (cb_uninvoke (interp_cb pl doc) n s')"
proof -
  obtain u w1 where u: "w_getUUID pl (i_world s) = (u, w1)" by fastforce
  obtain w2 where w2: "w_evalAsData pl inState (ATTR n ''typeexpr'') w1 = (Inl (ErrorExc x), w2)" using assms(2) by blast
  have "cb_invoke (interp_cb pl doc) inState n s = (Some x, s\<lparr>i_world := w2\<rparr>)"
    using assms(1) u w2
    by (simp add: interp_cb_def swallow_def exec_invoke_def Let_def bindM_def interp_exec_def uuidM_def attrOrExpr_def
        pluginM_def)
  moreover have "i_died (cb_uninvoke (interp_cb pl doc) n (s\<lparr>i_world := w2\<rparr>))"
    using assms(3) by (simp add: interp_cb_def unhandled_def exec_uninvoke_def interp_exec_def died_def)
  ultimately show ?thesis by simp
qed

definition sample_invoke :: node where
  "sample_invoke = Element 3 None ''invoke'' [] [(''typeexpr'', ''bad'')] []"

theorem failed_invoke_breaks_uninvoke_witness:
  "\<exists>x s'. cb_invoke (interp_cb sample_plugins sample_invoke) (\<lambda>_. False) sample_invoke sample_session = (Some x, s') \<and>
     i_died s' = i_died sample_session \<and> i_died (cb_uninvoke (interp_cb sample_plugins sample_invoke) sample_invoke s')"
proof (rule exI, rule failed_invoke_breaks_uninvoke)
  show "HAS_ATTR sample_invoke ''typeexpr''" by code_simp
  show "map_of (i_userData sample_session) (nid sample_invoke) = None" by (simp add: sample_session_def)
  show "\<forall>w. \<exists>w'. w_evalAsData sample_plugins (\<lambda>_. False) (ATTR sample_invoke ''typeexpr'') w =
      (Inl (ErrorExc (ERROR_EXECUTION [] ([], 1) ''bad'')), w')"
    by (simp add: sample_plugins_def sample_invoke_def ATTR_def sample_value_def throwM_def)
qed

end
