(* ===== verification/Executor_Frame.thy ===== *)
theory Executor_Frame
  imports ContentExecutor
begin

text \<open>
  What executable content may change. The content executor reaches the interpreter only through its
  callbacks (\<open>ContentExecutorCallbacks\<close>), so a condition on the interpreter that every callback keeps is
  kept by every operation of \<open>src/src/uscxml/interpreter/BasicContentExecutor.cpp\<close>, whether it returns or
  throws. The locale \<open>exec_keeps\<close> states what a callback interface has to promise; it is interpreted with the
  callbacks of the interpreter object.
\<close>

definition preserves :: "('e \<Rightarrow> bool) \<Rightarrow> ('e, 'a) eff \<Rightarrow> bool" where
  "preserves P m \<longleftrightarrow> (\<forall>e r e'. P e \<longrightarrow> m e = (r, e') \<longrightarrow> P e')"

named_theorems preserves_intros

lemma preservesD: "preserves P m \<Longrightarrow> P e \<Longrightarrow> m e = (r, e') \<Longrightarrow> P e'"
  unfolding preserves_def by blast

lemma preservesI: "(\<And>e r e'. P e \<Longrightarrow> m e = (r, e') \<Longrightarrow> P e') \<Longrightarrow> preserves P m"
  unfolding preserves_def by blast

lemma preserves_basic [preserves_intros]:
  "preserves P (returnM a)" "preserves P (throwM x)" "preserves P (readM g)"
  by (simp_all add: preserves_def returnM_def throwM_def readM_def)

lemma preserves_modifyM: "(\<And>e. P e \<Longrightarrow> P (f e)) \<Longrightarrow> preserves P (modifyM f)"
  by (simp add: preserves_def modifyM_def)

lemma preserves_bindM [preserves_intros]:
  "preserves P m \<Longrightarrow> (\<And>a. preserves P (f a)) \<Longrightarrow> preserves P (bindM m f)"
  by (rule preservesI) (auto simp: bindM_def split: prod.splits sum.splits dest: preservesD)

lemma preserves_catchError [preserves_intros]:
  "preserves P m \<Longrightarrow> (\<And>x. preserves P (h x)) \<Longrightarrow> preserves P (catchError m h)"
  by (rule preservesI) (auto simp: catchError_def split: prod.splits sum.splits exc.splits dest: preservesD)

lemma preserves_rethrow [preserves_intros]: "preserves P m \<Longrightarrow> preserves P (rethrow c xp m)"
  unfolding rethrow_def by (intro preserves_intros)

lemma preserves_if [preserves_intros]:
  "(b \<Longrightarrow> preserves P m) \<Longrightarrow> (\<not> b \<Longrightarrow> preserves P m') \<Longrightarrow> preserves P (if b then m else m')"
  by simp

lemma preserves_repeatM [preserves_intros]: "(\<And>i. preserves P (body i)) \<Longrightarrow> preserves P (repeatM body i n)"
  by (induction body i n rule: repeatM.induct) (auto intro!: preserves_intros)

text \<open>A local variable is not part of the interpreter.\<close>

abbreviation on_outer :: "('e \<Rightarrow> bool) \<Rightarrow> 'e \<times> 's \<Rightarrow> bool" where
  "on_outer P \<equiv> \<lambda>es. P (fst es)"

lemma preserves_outerM [preserves_intros]: "preserves P m \<Longrightarrow> preserves (on_outer P) (outerM m)"
  by (rule preservesI) (auto simp: outerM_def split: prod.splits dest: preservesD)

lemma preserves_modify_local [preserves_intros]: "preserves (on_outer P) (modifyM (apsnd f))"
  by (simp add: preserves_def modifyM_def)

lemma preserves_localM [preserves_intros]: "preserves (on_outer P) m \<Longrightarrow> preserves P (localM s m)"
  by (rule preservesI) (auto simp: localM_def split: prod.splits sum.splits dest!: preservesD)

lemma preserves_fieldM [preserves_intros]: "preserves (on_outer P) m \<Longrightarrow> preserves (on_outer P) (fieldM get upd m)"
  by (rule preservesI) (auto simp: fieldM_def split: prod.splits dest!: preservesD)

locale exec_keeps =
  fixes cc :: "'e exec_callbacks" and P :: "'e \<Rightarrow> bool"
  assumes keep_eval [preserves_intros]: "preserves P (x_evalAsData cc x)" "preserves P (x_getAsData cc x)"
      "preserves P (x_isTrue cc x)" "preserves P (x_getLength cc x)" "preserves P (x_eval cc x)"
    and keep_assign [preserves_intros]: "preserves P (x_assign cc l d a)" "preserves P (x_setForeach cc x y z n)"
    and keep_sends [preserves_intros]: "preserves P (x_getUUID cc)" "preserves P (x_checkValidSendType cc x y)"
      "preserves P (x_enqueue cc x y n ev)" "preserves P (x_cancelDelayed cc x)"
    and keep_invoke [preserves_intros]: "preserves P (x_invoke cc x y b f ev)" "preserves P (x_uninvoke cc x)"
    and keep_plugins [preserves_intros]: "preserves P (x_enterElement cc nd)" "preserves P (x_exitElement cc nd)"
      "preserves P (x_fetch cc nd x)"
    and keep_updates: "P e \<Longrightarrow> P (x_enqueueInternal cc ev e)" "P e \<Longrightarrow> P (x_log cc x d e)"
      "P e \<Longrightarrow> P (x_setInvokeId cc nd i e)" "P e \<Longrightarrow> P (x_monitor cc k e)"
begin

lemma modify_keeps [preserves_intros]:
  "preserves P (modifyM (x_enqueueInternal cc ev))" "preserves P (modifyM (x_log cc x d))"
  "preserves P (modifyM (x_setInvokeId cc nd i))" "preserves P (modifyM (x_monitor cc k))"
  by (auto intro!: preserves_modifyM keep_updates)

lemma elementAsData_keeps [preserves_intros]:
  "preserves P (data_or_verbatim cc c)" "preserves P (elementAsData cc n)" "preserves P (elementAsEvaluatedData cc n)"
proof -
  show v: "preserves P (data_or_verbatim cc c)" for c
    using keep_eval(2) [of c]
    by (intro preservesI) (auto simp: data_or_verbatim_def split: prod.splits sum.splits exc.splits dest: preservesD)
  show d: "preserves P (elementAsData cc n)"
    unfolding elementAsData_def Let_def by (auto intro!: preserves_intros v split: prod.split option.split)
  show "preserves P (elementAsEvaluatedData cc n)"
    unfolding elementAsEvaluatedData_def by (intro preserves_intros d)
qed

lemma fields_keep [preserves_intros]:
  "preserves (on_outer P) (processNameLists cc n)" "preserves (on_outer P) (processParams cc n)"
  "preserves P (contentData cc n)" "preserves P (attrOrExpr cc n a b d)"
proof -
  have "preserves (on_outer P) (processNames cc ns)" for ns
    by (induction ns) (auto intro!: preserves_intros)
  then show "preserves (on_outer P) (processNameLists cc n)"
    unfolding processNameLists_def by (intro preserves_intros)
  have "preserves P (paramValue cc p)" for p unfolding paramValue_def by (intro preserves_intros)
  then have "preserves (on_outer P) (processParamList cc ps)" for ps
    by (induction ps) (auto intro!: preserves_intros)
  then show "preserves (on_outer P) (processParams cc n)" unfolding processParams_def .
  show "preserves P (contentData cc n)" unfolding contentData_def by (auto intro!: preserves_intros split: list.split)
  show "preserves P (attrOrExpr cc n a b d)" unfolding attrOrExpr_def by (intro preserves_intros)
qed

lemma freshId_keeps [preserves_intros]: "preserves P (freshId cc doc n)"
  unfolding freshId_def by (auto intro!: preserves_intros split: option.split)

lemma processSend_keeps [preserves_intros]: "preserves P (processSend cc doc n)"
proof -
  have "preserves P (sendId cc doc n)" unfolding sendId_def by (auto intro!: preserves_intros)
  then show ?thesis unfolding processSend_def Let_def by (auto intro!: preserves_intros split: prod.split)
qed

lemma elements_keep [preserves_intros]:
  "preserves P (processRaise cc n)" "preserves P (processCancel cc doc n)" "preserves P (processAssign cc n)"
  "preserves P (processLog cc n)" "preserves P (processScript cc n)"
  unfolding processRaise_def processCancel_def processAssign_def processLog_def processScript_def
  by (intro preserves_intros)+

lemma composites_keep:
  "preserves P body \<Longrightarrow> preserves P (processForeach cc n body)"
  "preserves P body \<Longrightarrow> preserves P (customContent cc n body)"
  unfolding processForeach_def customContent_def by (intro preserves_intros; assumption)+

lemma emptyFinalize_keeps [preserves_intros]: "preserves P (emptyFinalize cc doc n)"
proof -
  have "preserves P (\<lambda>e. case map_of (namelist (x_getCurrentEvent cc e)) k of
      Some d \<Rightarrow> x_assign cc k d [] e
    | None \<Rightarrow> (case map_of (compound (edata (x_getCurrentEvent cc e))) k of
        Some d \<Rightarrow> x_assign cc k d [] e | None \<Rightarrow> (Inr (), e)))" for k
    using keep_assign(1) by (auto simp: preserves_def split: option.split)
  then have "preserves P (assignNames cc ns)" for ns
    by (induction ns) (auto simp: Let_def intro!: preserves_intros)
  then show ?thesis unfolding emptyFinalize_def by (auto intro!: preserves_intros split: option.split)
qed

lemma guarded_keeps:
  assumes "preserves P m" shows "preserves P (guarded cc b m)"
proof -
  have "P e \<Longrightarrow> m (x_monitor cc (BeforeExec b) e) = (r, e') \<Longrightarrow> P e'" for e r e'
    using preservesD [OF assms keep_updates(4)] .
  then show ?thesis
    by (intro preservesI)
      (auto simp: guarded_def split: prod.splits sum.splits exc.splits intro!: keep_updates)
qed

lemma process_keeps [preserves_intros]:
  "preserves P (process cc doc n)" "preserves P (process_seq cc doc ns)" "preserves P (process_if cc doc px ns b)"
proof -
  have i: "preserves P (process_if cc doc px ns b)" if "\<And>c. c \<in> set ns \<Longrightarrow> preserves P (process cc doc c)" for px ns b
    using that by (induction ns arbitrary: b) (auto intro!: preserves_intros)
  have q: "preserves P (process_seq cc doc ns)" if "\<And>c. c \<in> set ns \<Longrightarrow> preserves P (process cc doc c)" for ns
    using that by (induction ns) (auto intro!: preserves_intros)
  show p: "preserves P (process cc doc n)" for n
  proof (induction n)
    case (Element i p l ns as cs)
    then show ?case
      unfolding process.simps Let_def by (intro preserves_intros guarded_keeps composites_keep q i)
  qed (simp_all add: preserves_intros)
  show "preserves P (process_seq cc doc ns)" "preserves P (process_if cc doc px ns b)" by (intro q i p)+
qed

lemma invoke_keeps [preserves_intros]:
  "preserves P (exec_invoke cc doc n)" "preserves P (exec_uninvoke cc n)"
proof -
  have "preserves P (invokeId_of cc doc n)" unfolding invokeId_of_def by (intro preserves_intros)
  then show "preserves P (exec_invoke cc doc n)" unfolding exec_invoke_def Let_def by (auto intro!: preserves_intros)
  have "preserves P (bindM (modifyM (x_monitor cc (BeforeUninvoking n i))) (\<lambda>_.
      bindM (x_uninvoke cc i) (\<lambda>_. bindM (modifyM (x_monitor cc (AfterUninvoking n i))) (\<lambda>_.
      modifyM (x_setInvokeId cc n None)))))" for i by (intro preserves_intros)
  then show "preserves P (exec_uninvoke cc n)"
    by (auto simp: preserves_def exec_uninvoke_def split: option.split)
qed

lemma raiseDoneEvent_keeps [preserves_intros]: "preserves P (raiseDoneEvent cc doc st dd)"
proof -
  have c: "preserves (on_outer P) (doneContent cc doc n)" for n
    unfolding doneContent_def by (auto intro!: preserves_intros split: list.split)
  have "preserves (on_outer P) (doneDataM cc doc n)" for n
    unfolding doneDataM_def Let_def by (intro preserves_intros c)
  then have d: "doneDataM cc doc n (e, ev) = (r, e', ev') \<Longrightarrow> P e \<Longrightarrow> P e'" for n e ev r e' ev'
    using preservesD [of "on_outer P" "doneDataM cc doc n" "(e, ev)" r "(e', ev')"] by simp
  show ?thesis
    unfolding raiseDoneEvent_def
    by (rule preserves_bindM [OF keep_sends(1)])
      (auto simp: preserves_def Let_def intro!: keep_updates dest!: d split: option.splits prod.splits sum.splits exc.splits)
qed

end

end
