(* ===== verification/MicroStep_Frame.thy ===== *)
theory MicroStep_Frame
  imports MicroStep_Runs
begin

text \<open>
  What a call of \<open>FastMicroStep::step\<close> may change outside the micro stepper. It acts on the rest of the
  interpreter only through \<open>MicroStepCallbacks\<close>, so a condition on the environment that every callback
  keeps is kept by every section of the step and by the whole step. The locale \<open>ms_keeps\<close> states what the
  callbacks have to promise; it is interpreted with the callbacks of the interpreter object.
\<close>

locale ms_keeps =
  fixes cb :: "'e callbacks" and P :: "'e \<Rightarrow> bool"
  assumes keep_dequeue: "P e \<Longrightarrow> P (snd (cb_dequeueInternal cb e))" "P e \<Longrightarrow> P (snd (cb_dequeueExternal cb b f e))"
    and keep_isTrue: "P e \<Longrightarrow> P (snd (cb_isTrue cb f c e))"
    and keep_content: "P e \<Longrightarrow> P (snd (cb_process cb f n e))" "P e \<Longrightarrow> P (cb_raiseDoneEvent cb f n dd e)"
      "P e \<Longrightarrow> P (cb_initData cb f n e)"
    and keep_invocations: "P e \<Longrightarrow> P (snd (cb_invoke cb f n e))" "P e \<Longrightarrow> P (cb_uninvoke cb n e)"
    and keep_monitor: "P e \<Longrightarrow> P (cb_monitor cb k e)"
begin

lemma fold_keeps: "(\<And>x e. P e \<Longrightarrow> P (f x e)) \<Longrightarrow> P e \<Longrightarrow> P (fold f xs e)"
  by (rule fold_invariant [of P]) simp_all

lemma fold_snd_keeps: "(\<And>x s. P (snd s) \<Longrightarrow> P (snd (f x s))) \<Longrightarrow> P (snd s) \<Longrightarrow> P (snd (fold f xs s))"
  by (rule fold_invariant [of "\<lambda>s. P (snd s)"]) simp_all

lemma process_all_keeps: "P e \<Longrightarrow> P (process_all cb f bs e)"
  unfolding process_all_def try_process_def by (auto intro: fold_keeps keep_content)

lemma uninvoke_all_keeps: "P e \<Longrightarrow> P (fold (cb_uninvoke cb) xs e)"
  by (rule fold_keeps) (rule keep_invocations)

lemma complete_keeps: "P (snd s) \<Longrightarrow> P (snd (complete t cb s))"
proof -
  have l: "P (snd s) \<Longrightarrow> P (snd (complete_loop t cb conf n s))" for conf n s
  proof (induction n arbitrary: s)
    case (Suc n)
    then show ?case by (cases s) (simp add: Let_def process_all_keeps uninvoke_all_keeps)
  qed simp
  assume "P (snd s)"
  with l [of "(m_invocations (fst s), cb_monitor cb beforeCompletion (snd s))"] show ?thesis
    by (cases s) (simp add: complete_def Let_def keep_monitor case_prod_beta)
qed

lemma manage_invocations_keeps: "P (snd s) \<Longrightarrow> P (snd (manage_invocations t cb conf s))"
proof -
  have "P e \<Longrightarrow> P (fold (\<lambda>x e. snd (cb_invoke cb f x e)) xs e)" for f xs e by (rule fold_keeps) (rule keep_invocations)
  then have "P (snd s) \<Longrightarrow> P (snd (invocation_at t cb conf i s))" for i s
    by (cases s) (simp add: invocation_at_def Let_def uninvoke_all_keeps)
  then show "P (snd s) \<Longrightarrow> ?thesis"
    unfolding manage_invocations_def by (rule fold_snd_keeps)
qed

lemma select_keeps: "P e \<Longrightarrow> P (sel_env (select_transitions t cb conf ev e))"
proof -
  have "P (sel_env s) \<Longrightarrow> P (sel_env (select_at t cb conf ev i s))" for i s
    using keep_isTrue [of "sel_env s" "isInState t conf" "t_cond (GET_TRANS t i)"]
    by (auto simp: select_at_def Let_def split: prod.split)
  then show "P e \<Longrightarrow> ?thesis"
    unfolding select_transitions_def
    by (rule fold_invariant [of "\<lambda>s. P (sel_env s)", rotated]) (simp_all add: select_init_def)
qed

lemma run_transition_keeps: "P e \<Longrightarrow> P (run_transition t cb conf j e)"
  by (simp add: run_transition_def Let_def try_process_def keep_monitor keep_content split: option.split)

lemma exit_states_keeps: "P (snd s) \<Longrightarrow> P (snd (exit_states t cb ex n s))"
proof -
  have "P (snd s) \<Longrightarrow> P (snd (exit_at t cb i s))" for i s
    by (cases s) (simp add: exit_at_def Let_def keep_monitor process_all_keeps)
  then show "P (snd s) \<Longrightarrow> ?thesis" by (induction n arbitrary: s) auto
qed

lemma done_parallels_keeps: "P e \<Longrightarrow> P (done_parallels fuel t cb conf p e)"
  by (induction fuel arbitrary: p e) (auto simp: Let_def keep_content)

lemma enter_at_keeps: "P (snd s) \<Longrightarrow> P (snd (enter_at t cb tr i s))"
proof -
  have d: "P (snd s) \<Longrightarrow> P (snd (enter_data t cb i s))" for s
    by (cases s) (auto simp: enter_data_def intro: fold_keeps keep_content)
  have f: "P (snd s) \<Longrightarrow> P (snd (handle_final t cb i s))" for s
    by (cases s) (simp add: handle_final_def Let_def done_parallels_keeps keep_content)
  have p: "P e \<Longrightarrow> P (pseudo_transitions t cb conf tr i e)" for conf e
    unfolding pseudo_transitions_def by (rule fold_keeps) (simp_all add: run_transition_keeps)
  show "P (snd s) \<Longrightarrow> ?thesis"
    by (cases s) (simp add: enter_at_cases Let_def d f p process_all_keeps keep_monitor)
qed

lemma microstep_keeps: "P (snd s) \<Longrightarrow> P (snd (microstep t cb tg ex tr s))"
proof -
  have n: "P (snd s) \<Longrightarrow> P (snd (note_configuration cb s))" for s
    by (cases s) (simp add: note_configuration_def Let_def keep_monitor)
  have t: "P e \<Longrightarrow> P (take_transitions t cb conf tr e)" for conf tr e
    unfolding take_transitions_def by (rule while_bits_invariant [of P]) (simp_all add: run_transition_keeps)
  have e: "P (snd s) \<Longrightarrow> P (snd (enter_states t cb es tr s))" for es tr s
    unfolding enter_states_fold by (rule fold_snd_keeps) (rule enter_at_keeps)
  show "P (snd s) \<Longrightarrow> ?thesis"
    by (cases s) (simp add: microstep_unfold Let_def n t e exit_states_keeps keep_monitor)
qed

lemma select_and_step_keeps: "P (snd s) \<Longrightarrow> P (snd (snd (select_and_step t cb s)))"
  by (cases s) (simp add: select_and_step_def Let_def microstep_keeps select_keeps keep_monitor)

lemma ms_step_keeps: "P (snd s) \<Longrightarrow> P (snd (snd (ms_step t cb b s)))"
proof -
  have x: "P (snd s) \<Longrightarrow> P (snd (snd (step_external t cb b s)))" for s
  proof -
    assume p: "P (snd s)"
    obtain m e where s: "s = (m, e)" by fastforce
    obtain v e1 where v: "manage_invocations t cb (m_configuration m) (m_invocations m, e) = (v, e1)" by fastforce
    have e1: "P e1" using manage_invocations_keeps [of "(m_invocations m, e)"] p s v by (metis snd_conv)
    obtain r e2 where d: "cb_dequeueExternal cb b (isInState t (m_configuration m)) e1 = (r, e2)" by fastforce
    have "P e2" using keep_dequeue(2) [OF e1] d by (metis snd_conv)
    then show ?thesis
      using select_and_step_keeps [of "(m\<lparr>m_invocations := v, m_event := projr r\<rparr>,
          cb_monitor cb (beforeProcessingEvent (projr r)) e2)" t] e1
      by (auto simp: s step_external_def v d Let_def keep_monitor case_prod_beta split: sum.split)
  qed
  assume p: "P (snd s)"
  obtain m e where s: "s = (m, e)" by fastforce
  obtain ev e1 where d: "cb_dequeueInternal cb e = (ev, e1)" by fastforce
  have "P e1" using keep_dequeue(1) [of e] p s d by (metis snd_conv)
  then show ?thesis
    using p s complete_keeps [of s t] select_and_step_keeps [of "(m\<lparr>m_event := Event_new []\<rparr>, e)" t]
      select_and_step_keeps [of "(m\<lparr>m_event := ev\<rparr>, cb_monitor cb (beforeProcessingEvent ev) e1)" t]
      x [of "(m\<lparr>m_event := ev\<rparr>, e1)"]
    by (simp add: ms_step_def d Let_def microstep_keeps keep_monitor case_prod_beta)
qed

end

end
