(* ===== verification/Interpreter_Frame.thy ===== *)
theory Interpreter_Frame
  imports Interpreter_Properties Executor_Frame MicroStep_Frame
begin

text \<open>
  Conditions that an interpreter keeps through whole steps. \<open>session_frame\<close> lists the fields that the
  operations of \<open>InterpreterImpl.cpp\<close> and the SCXML I/O processor write besides the pending sends;
  \<open>session_keeps\<close> adds the two operations on pending sends. Every such condition satisfies the contracts of
  the content executor's and the micro stepper's callbacks, so it is kept by \<open>step\<close>. Two conditions
  are treated: the identity of a session with what it has sent to its parent, and the pending sends.
\<close>

subsection \<open>Calls of plugins\<close>

inductive plugin_call :: "'w plugins \<Rightarrow> 'w \<Rightarrow> 'w \<Rightarrow> bool" for pl where
  "w_evalAsBool pl f x w = (r, w') \<Longrightarrow> plugin_call pl w w'"
| "w_evalAsData pl f x w = (r, w') \<Longrightarrow> plugin_call pl w w'"
| "w_getAsData pl x w = (r, w') \<Longrightarrow> plugin_call pl w w'"
| "w_eval pl f x w = (r, w') \<Longrightarrow> plugin_call pl w w'"
| "w_assign pl x d a w = (r, w') \<Longrightarrow> plugin_call pl w w'"
| "w_init pl x d a w = (r, w') \<Longrightarrow> plugin_call pl w w'"
| "w_getLength pl x w = (r, w') \<Longrightarrow> plugin_call pl w w'"
| "w_setForeach pl x y z n w = (r, w') \<Longrightarrow> plugin_call pl w w'"
| "w_getUUID pl w = (u, w') \<Longrightarrow> plugin_call pl w w'"
| plugin_timer: "w_timer pl w = (hn, w') \<Longrightarrow> plugin_call pl w w'"
| "w_wait pl n w = (evs, w') \<Longrightarrow> plugin_call pl w w'"
| "w_createInvoker pl x w = (r, w') \<Longrightarrow> plugin_call pl w w'"
| "w_invoke pl h x ev w = (r, w') \<Longrightarrow> plugin_call pl w w'"
| "w_uninvoke pl h w = (r, w') \<Longrightarrow> plugin_call pl w w'"
| "w_eventToInvoker pl h ev w = (r, w') \<Longrightarrow> plugin_call pl w w'"
| "w_ioEvent pl k x ev w = (r, w') \<Longrightarrow> plugin_call pl w w'"
| "w_ioValid pl k x w = (r, w') \<Longrightarrow> plugin_call pl w w'"
| "w_fetch pl nd x w = (r, w') \<Longrightarrow> plugin_call pl w w'"
| "w_enterElement pl nd w = (r, w') \<Longrightarrow> plugin_call pl w w'"
| "w_exitElement pl nd w = (r, w') \<Longrightarrow> plugin_call pl w w'"
| plugin_setEvent: "plugin_call pl w (w_setEvent pl ev w)"
| plugin_log: "plugin_call pl w (w_log pl x d w)"
| plugin_execNote: "plugin_call pl w (w_execNote pl k w)"
| plugin_note: "plugin_call pl w (w_note pl k' w)"

subsection \<open>What the operations of a session write\<close>

locale session_frame =
  fixes pl :: "'w plugins" and P :: "'w interp \<Rightarrow> bool"
  assumes frame_world: "P s \<Longrightarrow> plugin_call pl (i_world s) w \<Longrightarrow> P (s\<lparr>i_world := w\<rparr>)"
    and frame_queues: "P s \<Longrightarrow> P (s\<lparr>i_internalQueue := q\<rparr>)" "P s \<Longrightarrow> P (s\<lparr>i_externalQueue := q\<rparr>)"
    and frame_parent: "P s \<Longrightarrow> i_parentQueue s = Some q \<Longrightarrow> P (s\<lparr>i_parentQueue := Some (bq_enqueue ev q)\<rparr>)"
    and frame_instances: "P s \<Longrightarrow> P (s\<lparr>i_instances := m\<rparr>)"
    and frame_event: "P s \<Longrightarrow> P (s\<lparr>i_currEvent := ev\<rparr>)"
    and frame_invokers: "P s \<Longrightarrow> P (s\<lparr>i_invokers := ivs\<rparr>)" "P s \<Longrightarrow> P (s\<lparr>i_finalize := fin\<rparr>)"
      "P s \<Longrightarrow> P (s\<lparr>i_autoForwarders := fw\<rparr>)" "P s \<Longrightarrow> P (s\<lparr>i_userData := ud\<rparr>)"
    and frame_died: "P s \<Longrightarrow> P (s\<lparr>i_died := d\<rparr>)"
    and frame_ioProcs: "P s \<Longrightarrow> P (s\<lparr>i_ioProcs := io\<rparr>)"
begin

lemma pluginM_keeps: "(\<And>w r w'. m w = (r, w') \<Longrightarrow> plugin_call pl w w') \<Longrightarrow> preserves P (pluginM m)"
  by (rule preservesI) (auto simp: pluginM_def split: prod.splits intro: frame_world)

lemma plugins_keep [preserves_intros]:
  "preserves P (pluginM (w_evalAsBool pl f x))" "preserves P (pluginM (w_evalAsData pl f x))"
  "preserves P (pluginM (w_getAsData pl x))" "preserves P (pluginM (w_eval pl f x))"
  "preserves P (pluginM (w_assign pl x d a))" "preserves P (pluginM (w_init pl x d a))"
  "preserves P (pluginM (w_getLength pl x))" "preserves P (pluginM (w_setForeach pl x y z n))"
  "preserves P (pluginM (w_createInvoker pl x))" "preserves P (pluginM (w_invoke pl h x ev))"
  "preserves P (pluginM (w_uninvoke pl h))" "preserves P (pluginM (w_eventToInvoker pl h ev))"
  "preserves P (pluginM (w_ioEvent pl k x ev))" "preserves P (pluginM (w_ioValid pl k x))"
  "preserves P (pluginM (w_fetch pl nd x))" "preserves P (pluginM (w_enterElement pl nd))"
  "preserves P (pluginM (w_exitElement pl nd))"
  by (rule pluginM_keeps, erule plugin_call.intros)+

lemma worldM_keeps:
  "P s \<Longrightarrow> P (worldM (w_setEvent pl ev) s)" "P s \<Longrightarrow> P (worldM (w_log pl x d) s)"
  "P s \<Longrightarrow> P (worldM (w_execNote pl k) s)" "P s \<Longrightarrow> P (worldM (w_note pl k') s)"
  by (simp_all add: worldM_def frame_world plugin_setEvent plugin_log plugin_execNote plugin_note)

lemma uuidM_keeps [preserves_intros]: "preserves P (uuidM pl)"
  by (rule preservesI) (auto simp: uuidM_def split: prod.splits intro: frame_world plugin_call.intros)

lemma raiseM_keeps [preserves_intros]: "preserves P (raiseM pl mk)"
  unfolding raiseM_def by (intro preserves_intros)

lemma enqueues_keep: "P s \<Longrightarrow> P (enqueueInternal ev s)" "P s \<Longrightarrow> P (enqueueExternal ev s)" "P s \<Longrightarrow> P (getInstances s)"
  by (simp_all add: enqueueInternal_def enqueueExternal_def getInstances_def frame_queues frame_instances)

lemma enqueueAtParent_keeps [preserves_intros]: "preserves P (enqueueAtParent pl ev)"
  by (rule preservesI)
    (auto simp: enqueueAtParent_def split: option.splits intro: frame_parent dest: preservesD [OF raiseM_keeps])

lemma enqueueAtInvoker_keeps [preserves_intros]: "preserves P (enqueueAtInvoker pl i ev)"
  by (rule preservesI)
    (auto simp: enqueueAtInvoker_def split: option.splits prod.splits sum.splits exc.splits
      dest: preservesD [OF raiseM_keeps] preservesD [OF plugins_keep(12)])

lemma sendToSession_keeps [preserves_intros]: "preserves P (sendToSession pl i ev)"
  by (rule preservesI)
    (auto simp: sendToSession_def Let_def split: option.splits session.splits
      intro!: enqueues_keep frame_instances dest!: preservesD [OF raiseM_keeps, rotated])

lemma io_keeps [preserves_intros]:
  "preserves P (ioproc_event pl p target ev)" "preserves P (ioproc_valid pl p target)"
proof -
  have "preserves P (io_eventFromSCXML pl target ev)"
    by (rule preservesI)
      (auto simp: io_eventFromSCXML_def Let_def split: if_splits intro!: enqueues_keep
        dest: preservesD [OF raiseM_keeps] preservesD [OF enqueueAtParent_keeps] preservesD [OF enqueueAtInvoker_keeps]
          preservesD [OF sendToSession_keeps])
  then show "preserves P (ioproc_event pl p target ev)"
    unfolding ioproc_event_def by (auto intro!: preserves_intros split: ioproc.split)
  show "preserves P (ioproc_valid pl p target)"
    unfolding ioproc_valid_def isValidTarget_def by (auto intro!: preserves_intros split: ioproc.split)
qed

lemma eventReady_keeps:
  "(\<And>s m. P s \<Longrightarrow> P (s\<lparr>i_delayedEventTargets := m\<rparr>)) \<Longrightarrow> preserves P (eventReady pl ev u)"
  by (rule preservesI)
    (auto simp: eventReady_def Let_def split: option.splits
      dest!: preservesD [OF io_keeps(1), rotated] preservesD [OF raiseM_keeps, rotated])

lemma checkValidSendType_keeps [preserves_intros]: "preserves P (checkValidSendType pl type target)"
proof -
  have "preserves P (bindM (ioproc_valid pl p target) (\<lambda>ok. if ok then returnM ()
      else raiseM pl mk))" for p mk by (intro preserves_intros)
  then show ?thesis
    by (intro preservesI)
      (auto simp: checkValidSendType_def split: if_splits option.splits
        dest: preservesD [OF raiseM_keeps] preservesD)
qed

lemma isTrue_keeps [preserves_intros]: "preserves P (isTrue pl f x)"
  by (rule preservesI)
    (auto simp: isTrue_def split: prod.splits sum.splits exc.splits intro!: enqueues_keep
      dest: preservesD [OF plugins_keep(1)])

lemma invokers_keep [preserves_intros]:
  "preserves P (interp_invoke pl type src b fin ev)" "preserves P (interp_uninvoke pl i)"
proof -
  show "preserves P (interp_invoke pl type src b fin ev)"
    unfolding interp_invoke_def by (intro preserves_intros preserves_modifyM frame_invokers)
  have "preserves P (bindM (pluginM (w_uninvoke pl h)) (\<lambda>_. modifyM (\<lambda>s. s\<lparr>
           i_autoForwarders := removeAll i (i_autoForwarders s),
           i_finalize := alist_erase i (i_finalize s),
           i_invokers := alist_erase i (i_invokers s)\<rparr>)))" for h
    by (intro preserves_intros preserves_modifyM frame_invokers)
  then show "preserves P (interp_uninvoke pl i)"
    by (intro preservesI) (auto simp: interp_uninvoke_def split: option.splits dest: preservesD)
qed

end

subsection \<open>Whole steps\<close>

locale session_keeps = session_frame +
  assumes keep_enqueue [preserves_intros]: "preserves P (enqueue pl type target n ev)"
    and keep_cancelDelayed [preserves_intros]: "preserves P (cancelDelayed c)"

sublocale session_keeps \<subseteq> ex: exec_keeps "interp_exec pl inState" P for inState
  by unfold_locales
    (simp_all add: interp_exec_def preserves_intros keep_enqueue keep_cancelDelayed plugins_keep uuidM_keeps
      checkValidSendType_keeps isTrue_keeps invokers_keep enqueues_keep worldM_keeps frame_invokers)

context session_keeps
begin

lemma frame_worlds: "(plugin_call pl)\<^sup>*\<^sup>* (i_world s) w \<Longrightarrow> P s \<Longrightarrow> P (s\<lparr>i_world := w\<rparr>)"
proof (induction rule: rtranclp_induct)
  case (step w w')
  then show ?case using frame_world [of "s\<lparr>i_world := w\<rparr>" w'] by simp
qed simp

lemma uuid_when_calls: "uuid_when b pl w = (u, w') \<Longrightarrow> (plugin_call pl)\<^sup>*\<^sup>* w w'"
  by (auto simp: uuid_when_def split: if_splits intro: plugin_call.intros)

lemma dequeueInternal_keeps: "P s \<Longrightarrow> P (snd (dequeueInternal pl s))"
proof -
  assume p: "P s"
  obtain u w where w: "uuid_when (bq_queue (i_internalQueue s) = []) pl (i_world s) = (u, w)" by fastforce
  have c: "(plugin_call pl)\<^sup>*\<^sup>* (i_world s) (if event_valid ev then w_setEvent pl ev w else w)" for ev
    using rtranclp.rtrancl_into_rtrancl [OF uuid_when_calls [OF w] plugin_setEvent [of pl w ev]] uuid_when_calls [OF w] by simp
  have "P (s\<lparr>i_internalQueue := q, i_currEvent := ev\<rparr>)" for q ev using p by (intro frame_event frame_queues)
  then have "P (s\<lparr>i_internalQueue := q, i_currEvent := ev,
      i_world := (if event_valid ev then w_setEvent pl ev w else w)\<rparr>)" for q ev
    using frame_worlds [of "s\<lparr>i_internalQueue := q, i_currEvent := ev\<rparr>"] c by simp
  then show ?thesis using p by (auto simp: dequeueInternal_def w split: option.split)
qed

lemma run_finalize_keeps [preserves_intros]: "preserves P (run_finalize pl doc f ev)"
  using ex.process_keeps(1)
  by (intro preservesI) (auto simp: run_finalize_def split: if_splits option.splits dest: preservesD)

lemma forward_all_keeps: "preserves P (forward_all pl ev hs)"
proof (induction hs)
  case (Cons a hs)
  have "preserves P (\<lambda>s. if i \<in> set (i_autoForwarders s) then pluginM (w_eventToInvoker pl h ev) s else (Inr (), s))" for i h
    by (rule preservesI) (auto split: if_splits dest: preservesD [OF plugins_keep(12)])
  then show ?case using Cons by (cases a) (auto intro!: preserves_intros)
qed (simp add: preserves_intros)

lemma dequeueExternal_keeps: "preserves P (dequeueExternal pl doc b f)"
proof (rule preservesI)
  fix s r s'
  assume p: "P s" and d: "dequeueExternal pl doc b f s = (r, s')"
  let ?q = "i_externalQueue s"
  obtain arrived w1 where w1: "(if bq_queue ?q = [] \<and> 0 < b then w_wait pl b (i_world s) else ([], i_world s)) = (arrived, w1)"
    by fastforce
  obtain u w2 where w2: "uuid_when (bq_queue ?q = [] \<and> arrived = []) pl w1 = (u, w2)" by fastforce
  have "(plugin_call pl)\<^sup>*\<^sup>* (i_world s) w1" using w1 by (auto split: if_splits intro: plugin_call.intros)
  then have c: "(plugin_call pl)\<^sup>*\<^sup>* (i_world s) w2" using uuid_when_calls [OF w2] by (rule rtranclp_trans)
  have "preserves P (\<lambda>s. forward_all pl ev (i_invokers s) s)" for ev
    using forward_all_keeps by (auto intro!: preservesI dest: preservesD)
  then have m: "preserves P (bindM (modifyM (worldM (w_setEvent pl ev))) (\<lambda>_. bindM (run_finalize pl doc f ev) (\<lambda>_.
      bindM (\<lambda>s. forward_all pl ev (i_invokers s) s) (\<lambda>_. returnM ev))))" for ev
    by (intro preserves_intros preserves_modifyM worldM_keeps)
  have "P (s\<lparr>i_externalQueue := q, i_currEvent := ev\<rparr>)" for q ev using p by (intro frame_event frame_queues)
  then have x: "P (s\<lparr>i_externalQueue := q, i_currEvent := ev, i_world := w2\<rparr>)" for q ev
    using frame_worlds [of "s\<lparr>i_externalQueue := q, i_currEvent := ev\<rparr>"] c by simp
  show "P s'"
    using d w1 w2 frame_worlds [OF c p] x
    by (auto simp: dequeueExternal_def Let_def split: option.splits if_splits dest: preservesD [OF m x])
qed

lemma initData_keeps: "preserves P (initData pl doc f n)"
proof -
  have d: "preserves P (dataInit pl n d)" for d unfolding dataInit_def by (intro preserves_intros)
  have e: "preserves P (bindM (elementAsData (interp_exec pl f) n) (dataInit pl n))"
    by (intro preserves_intros ex.elementAsData_keeps d)
  show ?thesis
    by (rule preservesI)
      (auto simp: initData_def Let_def split: option.splits prod.splits sum.splits exc.splits intro!: enqueues_keep
        dest: preservesD [OF d] preservesD [OF e])
qed

lemma swallow_keeps: "preserves P m \<Longrightarrow> P s \<Longrightarrow> P (snd (swallow m s))"
  by (auto simp: swallow_def died_def split: prod.split sum.split exc.split intro!: frame_died dest: preservesD)

lemma dequeueExternal_callback_keeps: "P s \<Longrightarrow> P (snd (cb_dequeueExternal (interp_cb pl doc) b f s))"
proof -
  assume p: "P s"
  obtain r s' where d: "dequeueExternal pl doc b f s = (r, s')" by fastforce
  have "P s'" using preservesD [OF dequeueExternal_keeps p d] .
  then show ?thesis by (simp add: interp_cb_def d died_def frame_died split: sum.split exc.split)
qed

lemma isTrue_callback_keeps: "P s \<Longrightarrow> P (snd (cb_isTrue (interp_cb pl doc) f c s))"
proof -
  assume p: "P s"
  obtain r s' where d: "isTrue pl f c s = (r, s')" by fastforce
  have "P s'" using preservesD [OF isTrue_keeps p d] .
  then show ?thesis by (simp add: interp_cb_def d died_def frame_died split: sum.split)
qed

lemma unhandled_keeps: "preserves P m \<Longrightarrow> P s \<Longrightarrow> P (unhandled m s)"
  by (auto simp: unhandled_def died_def split: prod.split sum.split intro!: frame_died dest: preservesD)

end

sublocale session_keeps \<subseteq> st: ms_keeps "interp_cb pl doc" P for doc
  using dequeueInternal_keeps dequeueExternal_callback_keeps isTrue_callback_keeps worldM_keeps(4)
    swallow_keeps [OF ex.process_keeps(1)] swallow_keeps [OF ex.invoke_keeps(1)] unhandled_keeps [OF ex.invoke_keeps(2)]
    unhandled_keeps [OF ex.raiseDoneEvent_keeps] unhandled_keeps [OF initData_keeps]
  by unfold_locales (simp_all add: interp_cb_def)

context session_keeps
begin

lemma interp_step_keeps:
  assumes "P (I_env I)" and "interp_step factory pl b I = Some (r, I')" shows "P (I_env I')"
proof -
  have "P (snd (snd (ms_step t (interp_cb pl (I_scxml I)) b (m, I_env I))))" for t m
    by (rule st.ms_step_keeps) (simp add: assms)
  then have s: "ms_step t (interp_cb pl (I_scxml I)) b (m, I_env I) = (x, m', e) \<Longrightarrow> P e" for t m x m' e by (metis snd_conv)
  show ?thesis
    using assms
    by (auto simp: interp_step_def interp_init_def frame_ioProcs split: if_splits option.splits prod.splits sum.splits dest: s)
qed

lemma interp_cancel_keeps: "P (I_env I) \<Longrightarrow> interp_cancel pl I = Some I' \<Longrightarrow> P (I_env I')"
  by (auto simp: interp_cancel_def split: option.splits prod.splits intro!: enqueues_keep frame_world
      intro: plugin_call.intros)

end

subsection \<open>Conditions that do not mention the pending sends\<close>

locale sends_frame = session_frame +
  assumes frame_sends: "P s \<Longrightarrow> P (s\<lparr>i_delayQueue := q\<rparr>)" "P s \<Longrightarrow> P (s\<lparr>i_delayedEventTargets := m\<rparr>)"

sublocale sends_frame \<subseteq> session_keeps
proof unfold_locales
  fix type target n ev c
  have r: "preserves P (eventReady pl ev u)" for ev u by (rule eventReady_keeps) (rule frame_sends)
  have d: "preserves P (enqueueDelayed pl ev n u)" for ev u
  proof (rule preservesI)
    fix s r s'
    assume p: "P s" and e: "enqueueDelayed pl ev n u s = (r, s')"
    have "P (s\<lparr>i_world := snd (w_timer pl (i_world s))\<rparr>)" "P (s\<lparr>i_delayQueue := q, i_world := snd (w_timer pl (i_world s))\<rparr>)" for q
      using p frame_world [of "s\<lparr>i_delayQueue := q\<rparr>"]
      by (auto intro!: frame_world frame_sends plugin_timer [of _ _ "fst (w_timer pl (i_world s))"])
    then show "P s'" using e by (auto simp: enqueueDelayed_def split: prod.splits option.splits)
  qed
  show "preserves P (enqueue pl type target n ev)"
    by (rule preservesI)
      (auto simp: enqueue_def Let_def split: if_splits intro: frame_sends
        dest!: preservesD [OF r, rotated] preservesD [OF d, rotated])
  show "preserves P (cancelDelayed c)"
    by (rule preservesI) (auto simp: cancelDelayed_def split: option.splits intro: frame_sends)
qed

text \<open>The identity of a session, and the events it has sent to the session that invoked it.\<close>

definition session_identity :: "string \<Rightarrow> string \<Rightarrow> Event \<Rightarrow> Event list option \<Rightarrow> 'w interp \<Rightarrow> bool" where
  "session_identity sid iid req sent s \<longleftrightarrow> i_sessionId s = sid \<and> i_invokeId s = iid \<and> i_invokeReq s = req \<and>
     (case sent of None \<Rightarrow> i_parentQueue s = None
      | Some evs \<Rightarrow> \<exists>q more. i_parentQueue s = Some q \<and> bq_queue q = evs @ more)"

interpretation identity: sends_frame pl "session_identity sid iid req sent" for pl sid iid req sent
  by unfold_locales (auto simp: session_identity_def bq_enqueue_def split: option.splits)

text \<open>
  A step of the interpreter keeps its identity and only appends to the queue of the session that invoked
  it: session id, invoke id and invoke request stay as they are, no parent queue appears or
  disappears, and no event that was sent to the parent is removed or reordered, whatever the document's
  executable content and the plugins do.
\<close>

theorem step_identity:
  assumes "interp_step factory pl b I = Some (r, I')"
  shows "i_sessionId (I_env I') = i_sessionId (I_env I) \<and> i_invokeId (I_env I') = i_invokeId (I_env I) \<and>
    i_invokeReq (I_env I') = i_invokeReq (I_env I) \<and>
    (case i_parentQueue (I_env I) of None \<Rightarrow> i_parentQueue (I_env I') = None
     | Some q \<Rightarrow> \<exists>q' more. i_parentQueue (I_env I') = Some q' \<and> bq_queue q' = bq_queue q @ more)"
  using identity.interp_step_keeps [OF _ assms, of "i_sessionId (I_env I)" "i_invokeId (I_env I)" "i_invokeReq (I_env I)"
      "map_option bq_queue (i_parentQueue (I_env I))"]
  by (auto simp: session_identity_def split: option.splits)

definition sample_start :: "nat Interpreter" where
  "sample_start = \<lparr>I_isInitialized = False, I_state = USCXML_INSTANTIATED, I_scxml = sample_doc, I_micro = None,
     I_env = sample_session\<lparr>i_parentQueue := Some \<lparr>bq_queue = [Event_new ''e'']\<rparr>\<rparr>\<rparr>"

lemma sample_start_steps: "\<exists>r I'. interp_step [] sample_plugins 0 sample_start = Some (r, I') \<and> I_isInitialized I'"
proof -
  have "ms_init sample_doc \<noteq> None" by code_simp
  then show ?thesis by (auto simp: sample_start_def interp_step_def interp_init_def)
qed

theorem step_identity_witness:
  "\<exists>r I' q' more. interp_step [] sample_plugins 0 sample_start = Some (r, I') \<and> i_sessionId (I_env I') = ''s'' \<and>
     i_parentQueue (I_env I') = Some q' \<and> bq_queue q' = Event_new ''e'' # more"
proof -
  obtain r I' where s: "interp_step [] sample_plugins 0 sample_start = Some (r, I')" using sample_start_steps by blast
  from step_identity [OF this] show ?thesis using s by (fastforce simp: sample_start_def sample_session_def)
qed

subsection \<open>The pending sends\<close>

text \<open>
  \<open>event_new\<close> never returns a timer that is allocated. The model's handles are names that are given out
  once: \<open>used\<close> tells which ones have been.
\<close>

locale plugin_timers =
  fixes pl :: "'w plugins" and used :: "'w \<Rightarrow> nat set"
  assumes used_grows: "plugin_call pl w w' \<Longrightarrow> used w \<subseteq> used w'"
    and timer_fresh: "fst (fst (w_timer pl w)) \<notin> used w"
    and timer_used: "fst (fst (w_timer pl w)) \<in> used (snd (w_timer pl w))"

definition sends_ok :: "('w \<Rightarrow> nat set) \<Rightarrow> 'w interp \<Rightarrow> bool" where
  "sends_ok used s \<longleftrightarrow> sends_inv s \<and> set (dq_live (i_delayQueue s)) \<subseteq> used (i_world s)"

lemma cancelDelayed_live: "dq_cancelDelayed u q = Some q' \<Longrightarrow> set (dq_live q') \<subseteq> set (dq_live q)"
  by (auto simp: dq_cancelDelayed_def event_del_def event_free_def dq_erase_def split: option.splits if_splits)

lemma cancel_targets_live: "cancel_targets c m q = Some (m', q') \<Longrightarrow> set (dq_live q') \<subseteq> set (dq_live q)"
  by (induction c m q arbitrary: m' q' rule: cancel_targets.induct)
    (fastforce split: if_splits option.splits bind_splits dest: subsetD [OF cancelDelayed_live])+

lemma enqueueDelayed_live: "dq_enqueueDelayed h now ev n u q = Some q' \<Longrightarrow> set (dq_live q') \<subseteq> insert h (set (dq_live q))"
  by (auto simp: dq_enqueueDelayed_def split: if_splits dest: subsetD [OF cancelDelayed_live])

lemma cancelAll_live: "dq_cancelAllDelayed q = Some q' \<Longrightarrow> set (dq_live q') \<subseteq> set (dq_live q)"
proof (induction q arbitrary: q' rule: dq_cancelAllDelayed.induct)
  case (1 q)
  then show ?case
    by (fastforce simp: dq_cancelAllDelayed.simps [of q] event_del_def event_free_def dq_erase_def
        split: list.splits prod.splits if_splits bind_splits)
qed

sublocale plugin_timers \<subseteq> live: session_frame pl "\<lambda>s. i_delayQueue s = q \<and> set (dq_live q) \<subseteq> used (i_world s)" for q
  using used_grows by unfold_locales auto

context plugin_timers
begin

lemma eventReady_live: "preserves (\<lambda>s. i_delayQueue s = q \<and> set (dq_live q) \<subseteq> used (i_world s)) (eventReady pl ev u)"
  by (rule live.eventReady_keeps) simp

lemma enqueueDelayed_keeps_live:
  assumes "set (dq_live (i_delayQueue s)) \<subseteq> used (i_world s)" and "enqueueDelayed pl ev n u s = (r, s')"
  shows "set (dq_live (i_delayQueue s')) \<subseteq> used (i_world s')"
proof -
  obtain h now w where t: "w_timer pl (i_world s) = ((h, now), w)" by (metis prod.exhaust)
  have "used (i_world s) \<subseteq> used w" "h \<in> used w"
    using used_grows [OF plugin_timer [OF t]] timer_used [of "i_world s"] t by simp_all
  then show ?thesis
    using assms t enqueueDelayed_live [of h now ev n u "i_delayQueue s"]
    by (fastforce simp: enqueueDelayed_def split: option.splits)
qed

lemma enqueue_keeps_sends: "preserves (sends_ok used) (enqueue pl type target n ev)"
proof (rule preservesI)
  fix s r s'
  assume ok: "sends_ok used s" and e: "enqueue pl type target n ev s = (r, s')"
  show "sends_ok used s'"
  proof (cases "uuid ev = [] \<or> send_target s (uuid ev) \<noteq> None")
    case True
    then show ?thesis using ok e by (auto simp: enqueue_def)
  next
    case False
    let ?s1 = "s\<lparr>i_delayedEventTargets := put_key (uuid ev) (sendid ev, type, target) (i_delayedEventTargets s)\<rparr>"
    have "fst (fst (w_timer pl (i_world s))) \<notin> set (dq_live (i_delayQueue s))"
      using ok timer_fresh [of "i_world s"] by (auto simp: sends_ok_def)
    moreover have "sends_inv s" "send_target s (uuid ev) = None" using ok False unfolding sends_ok_def by blast+
    ultimately have inv: "sends_inv s'" using enqueue_sends_inv e by blast
    have l: "set (dq_live (i_delayQueue ?s1)) \<subseteq> used (i_world ?s1)" using ok by (simp add: sends_ok_def)
    have "set (dq_live (i_delayQueue s')) \<subseteq> used (i_world s')"
    proof (cases "n = 0")
      case True
      then have "eventReady pl ev (uuid ev) ?s1 = (r, s')" using e False by (simp add: enqueue_def)
      from preservesD [OF eventReady_live _ this] show ?thesis using l by simp
    next
      case d: False
      then have "enqueueDelayed pl ev n (uuid ev) ?s1 = (r, s')" using e False by (simp add: enqueue_def)
      then show ?thesis using enqueueDelayed_keeps_live [OF l] by blast
    qed
    then show ?thesis using inv by (simp add: sends_ok_def)
  qed
qed

lemma cancelDelayed_keeps_sends: "preserves (sends_ok used) (cancelDelayed c)"
proof (rule preservesI)
  fix s r s'
  assume ok: "sends_ok used s" and e: "cancelDelayed c s = (r, s')"
  have "sends_inv s'" using cancelDelayed_sends_inv ok e unfolding sends_ok_def by blast
  moreover have "set (dq_live (i_delayQueue s')) \<subseteq> used (i_world s')"
    using ok e cancel_targets_live [of c "i_delayedEventTargets s" "i_delayQueue s"]
    by (fastforce simp: sends_ok_def cancelDelayed_def split: option.splits)
  ultimately show "sends_ok used s'" by (simp add: sends_ok_def)
qed

end

sublocale plugin_timers \<subseteq> sends: session_keeps pl "sends_ok used"
proof unfold_locales
  show "sends_ok used (s\<lparr>i_world := w\<rparr>)" if "sends_ok used s" "plugin_call pl (i_world s) w" for s w
    using that used_grows [OF that(2)] by (auto simp: sends_ok_def sends_inv_def)
qed (use enqueue_keeps_sends cancelDelayed_keeps_sends in \<open>simp_all add: sends_ok_def sends_inv_def del: map_of_eq_Some_iff\<close>)

context plugin_timers
begin

lemma timer_fire_keeps:
  assumes ok: "sends_ok used s" and f: "timer_fire pl u s = (Inr (), s')" shows "sends_ok used s'"
proof -
  have inv: "sends_inv s" and l: "set (dq_live (i_delayQueue s)) \<subseteq> used (i_world s)" using ok by (simp_all add: sends_ok_def)
  obtain x q where t: "timer_begin u (i_delayQueue s) = Some (x, q)"
    using timer_ok [of "i_delayQueue s" u] inv by (auto simp: sends_inv_def)
  have q: "set (dq_live q) \<subseteq> used (i_world s)"
    using t l by (auto simp: timer_begin_def event_free_def split: option.splits if_splits)
  have "set (dq_live (i_delayQueue s')) \<subseteq> used (i_world s')"
  proof (cases x)
    case (Some ev)
    obtain s2 where s2: "eventReady pl ev u (s\<lparr>i_delayQueue := q\<rparr>) = (Inr (), s2)"
      "s' = s2\<lparr>i_delayQueue := timer_end u (i_delayQueue s2)\<rparr>"
      using f t Some by (auto simp: timer_fire_def bindM_def modifyM_def split: prod.splits sum.splits)
    then show ?thesis
      using preservesD [OF eventReady_live _ s2(1), of q] q by (auto simp: timer_end_def dq_erase_def)
  qed (use f t q in \<open>auto simp: timer_fire_def\<close>)
  then show ?thesis using timer_fire_effect [OF inv f] by (simp add: sends_ok_def)
qed

lemma reset_keeps:
  assumes ok: "sends_ok used s" and r: "dq_reset (i_delayQueue s) = Some q" shows "sends_ok used (s\<lparr>i_delayQueue := q\<rparr>)"
  using reset_sends_inv [of s q] cancelAll_live [of "i_delayQueue s"] assms
  by (fastforce simp: sends_ok_def dq_reset_def)

end

interpretation counter: plugin_timers sample_plugins "\<lambda>w. {..<w}"
proof unfold_locales
  show "{..<w} \<subseteq> {..<w'}" if "plugin_call sample_plugins w w'" for w w'
    using that
    by cases (auto simp: sample_plugins_def sample_value_def returnM_def throwM_def split: if_splits)
qed (simp_all add: sample_plugins_def)

end
