(* ===== verification/Interpreter_Persist.thy ===== *)
theory Interpreter_Persist
  imports Interpreter_Frame MicroStep_Persist
begin

text \<open>
  Saving and restoring a whole session, \<open>InterpreterImpl::serialize\<close> and \<open>deserialize\<close>, on the values that are
  printed as JSON and parsed from it. \<open>digest\<close> is the MD5 sum of the document that the session holds,
  \<open>url\<close> its base URL. The lemmas show that a saved session can be restored into another interpreter
  for the same document, and what a failed attempt leaves behind.
\<close>

subsection \<open>serialize\<close>

text \<open>\<open>d[k][k'] = v\<close>.\<close>

definition put2 :: "string \<Rightarrow> string \<Rightarrow> data \<Rightarrow> data \<Rightarrow> data" where
  "put2 k k' v d = put k (put k' v (data_at d k)) d"

fun saveDatas :: "'w plugins \<Rightarrow> (string \<Rightarrow> bool) \<Rightarrow> node list \<Rightarrow> data \<Rightarrow> ('w, data) act" where
  "saveDatas pl inState [] d = returnM d"
| "saveDatas pl inState (n # ns) d =
    (if HAS_ATTR n ''id''
     then bindM (pluginM (w_evalAsData pl inState (ATTR n ''id''))) (\<lambda>v.
       saveDatas pl inState ns (put2 ''datamodel'' (ATTR n ''id'') v d))
     else saveDatas pl inState ns d)"

text \<open>The invoker of an element that has been invoked and is still registered.\<close>

definition invokerOf :: "'w interp \<Rightarrow> node \<Rightarrow> nat option" where
  "invokerOf s n = Option.bind (map_of (i_userData s) (nid n)) (map_of (i_invokers s))"

fun saveInvokers :: "'w plugins \<Rightarrow> node \<Rightarrow> node list \<Rightarrow> data \<Rightarrow> ('w, data) act" where
  "saveInvokers pl doc [] d = returnM d"
| "saveInvokers pl doc (n # ns) d = (\<lambda>s.
    (case invokerOf s n of
       None \<Rightarrow> saveInvokers pl doc ns d s
     | Some h \<Rightarrow> (case w_serializeInvoker pl h (i_world s) of (v, w) \<Rightarrow>
         saveInvokers pl doc ns (put2 ''invoker'' (xPathForNode doc n []) v d) (s\<lparr>i_world := w\<rparr>))))"

definition serializable :: "InterpreterState \<Rightarrow> bool" where
  "serializable st \<longleftrightarrow> st = USCXML_IDLE \<or> st = USCXML_MACROSTEPPED \<or> st = USCXML_FINISHED"

abbreviation elementsNamed :: "string \<Rightarrow> node \<Rightarrow> node list" where
  "elementsNamed name scxml \<equiv> inDocumentOrder [XML_PREFIX scxml @ name] scxml"

definition serializeM :: "string \<Rightarrow> string \<Rightarrow> nat \<Rightarrow> 'w plugins \<Rightarrow> 'w Interpreter \<Rightarrow> ('w, data) act" where
  "serializeM digest url junk pl I =
    (if \<not> serializable (I_state I)
     then raiseM pl (\<lambda>u. ERROR_PLATFORM u (IMPL_CPP, 230) ''Cannot serialize an unstable interpreter'')
     else case I_micro I of
       None \<Rightarrow> throwM Abort
     | Some (t, m) \<Rightarrow>
         bindM (saveDatas pl (isInState t (m_configuration m)) (elementsNamed ''data'' (I_scxml I))
           (put ''microstepper'' (ms_serialize m)
             (put ''url'' (Data_string url) (put ''md5'' (Data_string digest) Data_empty)))) (\<lambda>d1.
         bindM (saveInvokers pl (I_scxml I) (elementsNamed ''invoke'' (I_scxml I)) d1) (\<lambda>d2 s.
           (case dq_serialize junk (i_delayQueue s) of (dq, q) \<Rightarrow>
              (Inr (put ''delayQueue'' dq (put ''externalQueue'' (bq_serialize (i_externalQueue s)) d2)),
               s\<lparr>i_delayQueue := q\<rparr>)))))"

definition session_serialize ::
  "string \<Rightarrow> string \<Rightarrow> nat \<Rightarrow> 'w plugins \<Rightarrow> 'w Interpreter \<Rightarrow> (exc + data) \<times> 'w Interpreter" where
  "session_serialize digest url junk pl I =
    (case serializeM digest url junk pl I (I_env I) of (r, e) \<Rightarrow> (r, I\<lparr>I_env := e\<rparr>))"

subsection \<open>deserialize\<close>

definition requireKey :: "'w plugins \<Rightarrow> data \<Rightarrow> string \<Rightarrow> nat \<Rightarrow> string \<Rightarrow> ('w, unit) act" where
  "requireKey pl state key line message =
    (if hasKey state key then returnM () else raiseM pl (\<lambda>u. ERROR_PLATFORM u (IMPL_CPP, line) message))"

definition restoreExternal :: "'w plugins \<Rightarrow> data \<Rightarrow> ('w, unit) act" where
  "restoreExternal pl state =
    (if hasKey state ''externalQueue''
     then bindM (uuidM pl) (\<lambda>u. modifyM (\<lambda>s.
       s\<lparr>i_externalQueue := bq_deserialize u (data_at state ''externalQueue'') (i_externalQueue s)\<rparr>))
     else returnM ())"

definition restoreDelayed :: "'w plugins \<Rightarrow> (int \<Rightarrow> nat \<times> nat) \<Rightarrow> data \<Rightarrow> ('w, unit) act" where
  "restoreDelayed pl clock state =
    (if hasKey state ''delayQueue''
     then bindM (uuidM pl) (\<lambda>u s.
       case dq_deserialize u clock (data_at state ''delayQueue'') (i_delayQueue s) of
         None \<Rightarrow> (Inl Abort, s)
       | Some q \<Rightarrow> (Inr (), s\<lparr>i_delayQueue := q\<rparr>))
     else returnM ())"

fun restoreDatas :: "'w plugins \<Rightarrow> data \<Rightarrow> node list \<Rightarrow> ('w, unit) act" where
  "restoreDatas pl model [] = returnM ()"
| "restoreDatas pl model (n # ns) =
    (if HAS_ATTR n ''id'' \<and> hasKey model (ATTR n ''id'')
     then bindM (pluginM (w_init pl (ATTR n ''id'') (data_at model (ATTR n ''id'')) [])) (\<lambda>_. restoreDatas pl model ns)
     else restoreDatas pl model ns)"

fun restoreInvokers :: "'w plugins \<Rightarrow> node \<Rightarrow> data \<Rightarrow> node list \<Rightarrow> 'w interp \<Rightarrow> 'w interp" where
  "restoreInvokers pl doc state [] s = s"
| "restoreInvokers pl doc state (n # ns) s = restoreInvokers pl doc state ns
    (case invokerOf s n of
       None \<Rightarrow> s
     | Some h \<Rightarrow>
         if hasKey state ''invoker'' \<and> hasKey (data_at state ''invoker'') (xPathForNode doc n [])
         then s\<lparr>i_world := w_deserializeInvoker pl h (data_at (data_at state ''invoker'') (xPathForNode doc n [])) (i_world s)\<rparr>
         else s)"

text \<open>What happens before the micro stepper is restored.\<close>

definition restoreM ::
  "string \<Rightarrow> (int \<Rightarrow> nat \<times> nat) \<Rightarrow> 'w plugins \<Rightarrow> node \<Rightarrow> data \<Rightarrow> ('w, unit) act" where
  "restoreM digest clock pl scxml state =
     bindM (requireKey pl state ''microstepper'' 173 ''No microstepper information in serialized state'') (\<lambda>_.
     bindM (requireKey pl state ''url'' 177 ''No url information in serialized state'') (\<lambda>_.
     bindM (requireKey pl state ''md5'' 181 ''No MD5 hash in serialized state'') (\<lambda>_.
     bindM (restoreExternal pl state) (\<lambda>_.
     bindM (restoreDelayed pl clock state) (\<lambda>_.
     if atom (data_at state ''md5'') \<noteq> digest
     then raiseM pl (\<lambda>u. ERROR_PLATFORM u (IMPL_CPP, 200) ''MD5 hash mismatch in serialized state'')
     else restoreDatas pl (data_at state ''datamodel'') (elementsNamed ''data'' scxml))))))"

text \<open>The whole of \<open>deserialize\<close>; \<open>None\<close> is a failed assertion of \<open>init\<close> or of the micro stepper.\<close>

definition session_deserialize ::
  "(string \<times> ioproc \<times> string list) list \<Rightarrow> string \<Rightarrow> (int \<Rightarrow> nat \<times> nat) \<Rightarrow> 'w plugins \<Rightarrow> data \<Rightarrow> 'w Interpreter \<Rightarrow>
   ((exc + unit) \<times> 'w Interpreter) option" where
  "session_deserialize factory digest clock pl state I0 =
     Option.bind (interp_init factory I0) (\<lambda>I.
     Option.bind (I_micro I) (\<lambda>(t, m).
     case restoreM digest clock pl (I_scxml I) state (I_env I) of
       (Inl x, e) \<Rightarrow> Some (Inl x, I\<lparr>I_env := e\<rparr>)
     | (Inr _, e) \<Rightarrow>
         (case w_getUUID pl (i_world e) of (u, w) \<Rightarrow>
          map_option (\<lambda>r. case r of
              Inl x \<Rightarrow> (Inl (ErrorExc x), I\<lparr>I_env := e\<lparr>i_world := w\<rparr>\<rparr>)
            | Inr (m', e') \<Rightarrow> (Inr (), I\<lparr>I_micro := Some (t, m'),
                I_env := restoreInvokers pl (I_scxml I) state (elementsNamed ''invoke'' (I_scxml I)) e'\<rparr>))
            (ms_deserialize u t (interp_cb pl (I_scxml I)) (data_at state ''microstepper'') (m, e)))))"

subsection \<open>A saved session can be restored\<close>

lemma put2_other [simp]: "k \<noteq> k1 \<Longrightarrow> map_of (compound (put2 k1 k' v d)) k = map_of (compound d) k"
  by (simp add: put2_def)

lemma saveDatas_other:
  "saveDatas pl f ns d s = (Inr d', s') \<Longrightarrow> k \<noteq> ''datamodel'' \<Longrightarrow> map_of (compound d') k = map_of (compound d) k"
  by (induction ns arbitrary: d s) (auto simp: returnM_def bindM_def split: if_splits prod.splits sum.splits)

lemma saveInvokers_other:
  "saveInvokers pl doc ns d s = (Inr d', s') \<Longrightarrow> k \<noteq> ''invoker'' \<Longrightarrow> map_of (compound d') k = map_of (compound d) k"
  by (induction ns arbitrary: d s) (auto simp: returnM_def split: option.splits prod.splits)

lemma keeps_sends_save: "keeps_sends (saveDatas pl f ns d)" "keeps_sends (saveInvokers pl doc ns d)"
proof -
  show "keeps_sends (saveDatas pl f ns d)" by (induction ns arbitrary: d) (auto intro!: keeps_intros)
  show "keeps_sends (saveInvokers pl doc ns d)"
  proof (induction ns arbitrary: d)
    case (Cons n ns)
    then show ?case by (fastforce simp: keeps_sends_def split: option.splits prod.splits)
  qed (simp add: keeps_intros)
qed

text \<open>What a saved session holds.\<close>

lemma serialized_session:
  assumes "session_serialize digest url junk pl I = (Inr d, I')" and "I_micro I = Some (t, m)"
    and "bq_queue (i_delayQueue (I_env I)) = []"
  shows "hasKey d ''microstepper'' \<and> hasKey d ''url'' \<and> hasKey d ''md5'' \<and>
    data_at d ''microstepper'' = ms_serialize m \<and> atom (data_at d ''md5'') = digest \<and>
    \<not> hasKey (data_at d ''delayQueue'') ''BasicDelayedEventQueue''"
proof -
  obtain d1 s1 d2 s2 where d1: "saveDatas pl (isInState t (m_configuration m)) (elementsNamed ''data'' (I_scxml I))
      (put ''microstepper'' (ms_serialize m) (put ''url'' (Data_string url) (put ''md5'' (Data_string digest) Data_empty)))
      (I_env I) = (Inr d1, s1)"
    and d2: "saveInvokers pl (I_scxml I) (elementsNamed ''invoke'' (I_scxml I)) d1 s1 = (Inr d2, s2)"
    and d: "d = put ''delayQueue'' (fst (dq_serialize junk (i_delayQueue s2)))
      (put ''externalQueue'' (bq_serialize (i_externalQueue s2)) d2)"
    using assms(1,2)
    by (auto simp: session_serialize_def serializeM_def raiseM_def throwM_def bindM_def uuidM_def
        split: if_splits prod.splits sum.splits)
  have k: "map_of (compound d2) x = map_of (compound (put ''microstepper'' (ms_serialize m)
      (put ''url'' (Data_string url) (put ''md5'' (Data_string digest) Data_empty)))) x"
    if "x \<noteq> ''datamodel''" "x \<noteq> ''invoker''" for x
    using saveDatas_other [OF d1 that(1)] saveInvokers_other [OF d2 that(2)] by simp
  have "i_delayQueue s2 = i_delayQueue (I_env I)"
    using keeps_sendsD [OF keeps_sends_save(1) d1] keeps_sendsD [OF keeps_sends_save(2) d2] by simp
  then have "fst (dq_serialize junk (i_delayQueue s2)) = Data_empty"
    using assms(3) by (simp add: dq_serialize_def Let_def)
  then show ?thesis using d k by (simp add: hasKey_iff data_at_def)
qed

definition quiet :: "('w, 'a) eff \<Rightarrow> bool" where
  "quiet m \<longleftrightarrow> throws (\<lambda>_. False) m"

lemma quiet_result: "quiet m \<Longrightarrow> \<exists>a s'. m s = (Inr a, s')"
  by (cases "m s", cases "fst (m s)") (auto simp: quiet_def throws_def)

lemma restoreDatas_quiet:
  assumes "\<And>x v a. quiet (w_init pl x v a)" shows "\<exists>s'. restoreDatas pl model ns s = (Inr (), s')"
proof (induction ns arbitrary: s)
  case (Cons n ns)
  obtain u w where "w_init pl (ATTR n ''id'') (data_at model (ATTR n ''id'')) [] (i_world s) = (Inr u, w)"
    using quiet_result [OF assms] by blast
  then show ?case using Cons by (simp add: bindM_def pluginM_def)
qed (simp add: returnM_def)

lemma restoreM_ok:
  assumes "hasKey d ''microstepper''" "hasKey d ''url''" "hasKey d ''md5''" "atom (data_at d ''md5'') = digest"
    and "\<not> hasKey (data_at d ''delayQueue'') ''BasicDelayedEventQueue''" and "\<And>x v a. quiet (w_init pl x v a)"
  shows "\<exists>s'. restoreM digest clock pl scxml d s = (Inr (), s')"
proof -
  obtain s1 where "restoreExternal pl d s = (Inr (), s1)"
    by (fastforce simp: restoreExternal_def returnM_def bindM_def uuidM_def modifyM_def split: prod.split)
  moreover obtain s2 where "restoreDelayed pl clock d s1 = (Inr (), s2)"
    using assms(5)
    by (fastforce simp: restoreDelayed_def returnM_def bindM_def uuidM_def dq_deserialize_def split: prod.split)
  moreover obtain s3 where "restoreDatas pl (data_at d ''datamodel'') (elementsNamed ''data'' scxml) s2 = (Inr (), s3)"
    using restoreDatas_quiet [OF assms(6)] by blast
  ultimately show ?thesis
    using assms(1-4) by (simp add: restoreM_def requireKey_def bindM_def returnM_def)
qed


text \<open>
  A state that was saved for another document is refused, but only after the queues have been restored:
  the events of the refused state stay in the external queue.
\<close>

theorem refused_state_keeps_events:
  assumes "I_isInitialized J" and "I_micro J = Some (t, m0)"
    and "hasKey d ''microstepper''" and "hasKey d ''url''" and "hasKey d ''md5''" and "atom (data_at d ''md5'') \<noteq> digest"
    and "hasKey d ''externalQueue''" and "hasKey (data_at d ''externalQueue'') ''BasicEventQueue''"
    and "\<not> hasKey (data_at d ''delayQueue'') ''BasicDelayedEventQueue''"
  shows "\<exists>x J'. session_deserialize factory digest clock pl d J = Some (Inl (ErrorExc x), J') \<and>
    ename x = ''error.platform'' \<and> I_micro J' = I_micro J \<and>
    length (bq_queue (i_externalQueue (I_env J'))) = length (bq_queue (i_externalQueue (I_env J))) +
      length (array_of (data_at (data_at d ''externalQueue'') ''BasicEventQueue''))"
  using assms
  by (simp add: session_deserialize_def interp_init_def restoreM_def requireKey_def returnM_def bindM_def
      restoreExternal_def uuidM_def modifyM_def restoreDelayed_def raiseM_def throwM_def bq_deserialize_def
      dq_deserialize_def ERROR_PLATFORM_def error_event_def split: prod.split)

definition sample_saved :: "ms \<Rightarrow> nat Interpreter" where
  "sample_saved m = \<lparr>I_isInitialized = True, I_state = USCXML_IDLE, I_scxml = sample_doc, I_micro = Some (sample_tables, m),
     I_env = sample_session\<rparr>"

lemma sample_saved_data:
  "\<exists>d I'. session_serialize ''x'' ''u'' 0 sample_plugins (sample_saved m) = (Inr d, I')"
proof -
  have "elementsNamed ''data'' sample_doc = []" "elementsNamed ''invoke'' sample_doc = []" by code_simp+
  then show ?thesis
    by (simp add: session_serialize_def serializeM_def sample_saved_def serializable_def bindM_def returnM_def split: prod.split)
qed


definition sample_refused :: data where
  "sample_refused = put ''externalQueue'' (put ''BasicEventQueue'' (put_item 0 Data_empty Data_empty) Data_empty)
     (put ''md5'' (Data_string ''y'') (put ''url'' Data_empty (put ''microstepper'' Data_empty Data_empty)))"

theorem refused_state_keeps_events_witness:
  "\<exists>x J'. session_deserialize [] ''x'' (\<lambda>_. (0, 0)) sample_plugins sample_refused (sample_saved (ms_initial sample_tables)) =
      Some (Inl (ErrorExc x), J') \<and> length (bq_queue (i_externalQueue (I_env J'))) = 1"
  using refused_state_keeps_events [of "sample_saved (ms_initial sample_tables)" sample_tables "ms_initial sample_tables"
      sample_refused "''x''" "[]" "\<lambda>_. (0, 0)" sample_plugins]
  by (auto simp: sample_refused_def sample_saved_def sample_session_def bq_create_def array_put_item)

end
