(* ===== verification/Debugger.thy ===== *)
theory Debugger
  imports Interpreter_Frame
begin

text \<open>
  The debugger: breakpoints (\<open>src/src/uscxml/debug/Breakpoint.cpp\<close>), the monitor that turns notifications of the
  interpreter into qualified breakpoints (\<open>Debugger.cpp\<close>) and the session that decides whether to stop
  (\<open>DebugSession.cpp\<close>). The lemmas show that a breakpoint survives its encoding as data, exactly when
  execution stops, and how the set of breakpoints follows the commands of the client. The threads, the
  HTTP front end and attaching to other interpreters are left out.
\<close>

subsection \<open>Breakpoints\<close>

datatype When = UNDEF_WHEN | AFTER | BEFORE | ON
datatype Subject = UNDEF_SUBJECT | STATE | TRANSITION | STABLE | MICROSTEP | EVENT | INVOKER | EXECUTABLE
datatype Action = UNDEF_ACTION | ENTER | EXIT | INVOKE | UNINVOKE

record Breakpoint =
  bp_enabled :: bool
  bp_when :: When
  bp_subject :: Subject
  bp_action :: Action
  bp_element :: "node option"
  bp_invokeId :: string
  bp_invokeType :: string
  bp_eventName :: string
  bp_executableName :: string
  bp_executableXPath :: string
  bp_stateId :: string
  bp_transSourceId :: string
  bp_transTargetId :: string
  bp_condition :: string

definition Breakpoint_new :: Breakpoint where
  "Breakpoint_new = \<lparr>bp_enabled = True, bp_when = UNDEF_WHEN, bp_subject = UNDEF_SUBJECT, bp_action = UNDEF_ACTION,
     bp_element = None, bp_invokeId = [], bp_invokeType = [], bp_eventName = [], bp_executableName = [],
     bp_executableXPath = [], bp_stateId = [], bp_transSourceId = [], bp_transTargetId = [], bp_condition = []\<rparr>"

definition when_of :: "string \<Rightarrow> When" where
  "when_of s = (if s = ''before'' then BEFORE else if s = ''after'' then AFTER else if s = ''on'' then ON else UNDEF_WHEN)"

definition action_of :: "string \<Rightarrow> Action" where
  "action_of s = (if s = ''enter'' then ENTER else if s = ''exit'' then EXIT else if s = ''invoke'' then INVOKE
     else if s = ''cancel'' then UNINVOKE else UNDEF_ACTION)"

definition subject_of :: "string \<Rightarrow> Subject" where
  "subject_of s = (if s = ''state'' then STATE else if s = ''transition'' then TRANSITION
     else if s = ''stable'' then STABLE else if s = ''microstep'' then MICROSTEP else if s = ''event'' then EVENT
     else if s = ''invoker'' then INVOKER else if s = ''executable'' then EXECUTABLE else UNDEF_SUBJECT)"

definition text_at :: "data \<Rightarrow> string \<Rightarrow> string" where
  "text_at d key = (if hasKey d key then atom (data_at d key) else [])"

definition Breakpoint_of :: "data \<Rightarrow> Breakpoint" where
  "Breakpoint_of d = \<lparr>bp_enabled = True, bp_when = when_of (text_at d ''when''),
     bp_subject = subject_of (text_at d ''subject''), bp_action = action_of (text_at d ''action''), bp_element = None,
     bp_invokeId = text_at d ''invokeId'', bp_invokeType = text_at d ''invokeType'',
     bp_eventName = text_at d ''eventName'', bp_executableName = text_at d ''execName'',
     bp_executableXPath = text_at d ''execXPath'', bp_stateId = text_at d ''stateId'',
     bp_transSourceId = text_at d ''source'', bp_transTargetId = text_at d ''target'',
     bp_condition = text_at d ''condition''\<rparr>"

fun subject_name :: "Subject \<Rightarrow> string" where
  "subject_name STATE = ''state''"
| "subject_name TRANSITION = ''transition''"
| "subject_name STABLE = ''stable''"
| "subject_name MICROSTEP = ''microstep''"
| "subject_name EVENT = ''event''"
| "subject_name INVOKER = ''invoker''"
| "subject_name EXECUTABLE = ''executable''"
| "subject_name UNDEF_SUBJECT = []"

fun when_name :: "When \<Rightarrow> string" where
  "when_name AFTER = ''after''"
| "when_name BEFORE = ''before''"
| "when_name ON = ''on''"
| "when_name UNDEF_WHEN = []"

fun action_name :: "Action \<Rightarrow> string" where
  "action_name ENTER = ''enter''"
| "action_name EXIT = ''exit''"
| "action_name INVOKE = ''invoke''"
| "action_name UNINVOKE = ''cancel''"
| "action_name UNDEF_ACTION = []"

text \<open>An assignment to a key of the compound, made only for a non-empty string.\<close>

definition put_text :: "string \<Rightarrow> string \<Rightarrow> data \<Rightarrow> data" where
  "put_text key s d = (if s = [] then d else put key (Data_atom s VERBATIM) d)"

definition bp_toData :: "node \<Rightarrow> Breakpoint \<Rightarrow> data" where
  "bp_toData doc b =
     put_text ''condition'' (bp_condition b)
    (put_text ''target'' (bp_transTargetId b)
    (put_text ''source'' (bp_transSourceId b)
    (put_text ''stateId'' (bp_stateId b)
    ((case bp_element b of None \<Rightarrow> (\<lambda>d. d) | Some n \<Rightarrow> put ''xpath'' (Data_atom (xPathForNode doc n ''*'') VERBATIM))
    (put_text ''execXPath'' (bp_executableXPath b)
    (put_text ''execName'' (bp_executableName b)
    (put_text ''eventName'' (bp_eventName b)
    (put_text ''invokeType'' (bp_invokeType b)
    (put_text ''invokeId'' (bp_invokeId b)
    (put_text ''action'' (action_name (bp_action b))
    (put_text ''when'' (when_name (bp_when b))
    (put_text ''subject'' (subject_name (bp_subject b)) Data_empty))))))))))))"

text \<open>\<open>matches\<close>: the value of the condition is not used, only whether evaluating it throws.\<close>

definition qualifies :: "Breakpoint \<Rightarrow> Breakpoint \<Rightarrow> bool" where
  "qualifies b other \<longleftrightarrow>
     \<not> (bp_subject b \<noteq> UNDEF_SUBJECT \<and> bp_subject other \<noteq> bp_subject b) \<and>
     \<not> (bp_when b \<noteq> UNDEF_WHEN \<and> bp_when other \<noteq> bp_when b) \<and>
     \<not> (bp_action b \<noteq> UNDEF_ACTION \<and> bp_action other \<noteq> bp_action b) \<and>
     \<not> (bp_invokeId b \<noteq> [] \<and> bp_invokeId b \<noteq> bp_invokeId other) \<and>
     \<not> (bp_invokeType b \<noteq> [] \<and> bp_invokeType b \<noteq> bp_invokeType other) \<and>
     \<not> (bp_stateId b \<noteq> [] \<and> bp_stateId b \<noteq> bp_stateId other) \<and>
     \<not> (bp_eventName b \<noteq> [] \<and> \<not> nameMatch (bp_eventName b) (bp_eventName other)) \<and>
     \<not> (bp_executableName b \<noteq> [] \<and> bp_executableName b \<noteq> bp_executableName other) \<and>
     \<not> (bp_transSourceId b \<noteq> [] \<and> bp_transSourceId b \<noteq> bp_transSourceId other) \<and>
     \<not> (bp_transTargetId b \<noteq> [] \<and> bp_transTargetId b \<noteq> bp_transTargetId other)"

definition matches :: "'w plugins \<Rightarrow> (string \<Rightarrow> bool) \<Rightarrow> Breakpoint \<Rightarrow> Breakpoint \<Rightarrow> ('w, bool) act" where
  "matches pl inState b other s =
    (if \<not> qualifies b other then (Inr False, s)
     else if bp_condition b = [] then (Inr True, s)
     else case isTrue pl inState (bp_condition b) s of
       (Inl Abort, s') \<Rightarrow> (Inl Abort, s')
     | (Inl _, s') \<Rightarrow> (Inr False, s')
     | (Inr _, s') \<Rightarrow> (Inr True, s'))"

text \<open>\<open>operator bool\<close>.\<close>

definition is_set :: "Breakpoint \<Rightarrow> bool" where
  "is_set b \<longleftrightarrow> bp_subject b \<noteq> UNDEF_SUBJECT \<or> bp_when b \<noteq> UNDEF_WHEN \<or> bp_action b \<noteq> UNDEF_ACTION"

text \<open>
  The order of \<open>std::set<Breakpoint>\<close> is \<open>Data::operator<\<close> on their data, which compares atoms, arrays and
  compounds the other way round; breakpoints hold neither nodes nor binaries.
\<close>

function (sequential) Data_less :: "data \<Rightarrow> data \<Rightarrow> bool"
  and items_less :: "(int \<times> data) list \<Rightarrow> (int \<times> data) list \<Rightarrow> bool"
  and entries_less :: "(string \<times> data) list \<Rightarrow> (string \<times> data) list \<Rightarrow> bool" where
  "Data_less (Data n c a at b t) (Data n' c' a' at' b' t') =
    (if at' \<noteq> at then str_less at' at
     else if a' \<noteq> a then items_less a' a
     else if c' \<noteq> c then entries_less c' c
     else t' = VERBATIM \<and> t = INTERPRETED)"
| "items_less [] [] = False"
| "items_less [] (_ # _) = True"
| "items_less (_ # _) [] = False"
| "items_less ((k, v) # r) ((k', v') # r') =
     (k < k' \<or> k = k' \<and> (Data_less v v' \<or> v = v' \<and> items_less r r'))"
| "entries_less [] [] = False"
| "entries_less [] (_ # _) = True"
| "entries_less (_ # _) [] = False"
| "entries_less ((k, v) # r) ((k', v') # r') =
     (str_less k k' \<or> k = k' \<and> (Data_less v v' \<or> v = v' \<and> entries_less r r'))"
  by pat_completeness auto
termination
  by (relation "measure (case_sum (\<lambda>(d, e). size d + size e)
      (case_sum (\<lambda>(a, b). size_list (size_prod (\<lambda>_. 0) size) a + size_list (size_prod (\<lambda>_. 0) size) b)
        (\<lambda>(a, b). size_list (size_prod (\<lambda>_. 0) size) a + size_list (size_prod (\<lambda>_. 0) size) b)))") auto

subsection \<open>Debug sessions\<close>

text \<open>
  The set of breakpoints is kept with the data it is ordered by, in the order of iteration. \<open>ds_pushed\<close> are
  the messages handed to the client; \<open>ds_hasInterpreter\<close> tells whether \<open>_interpreter\<close> is set.
\<close>

record DebugSession =
  ds_isRunning :: bool
  ds_isStepping :: bool
  ds_isAttached :: bool
  ds_hasInterpreter :: bool
  ds_breakpointsEnabled :: bool
  ds_breakPoints :: "(data \<times> Breakpoint) list"
  ds_skipTo :: Breakpoint
  ds_pushed :: "data list"

definition DebugSession_new :: DebugSession where
  "DebugSession_new = \<lparr>ds_isRunning = False, ds_isStepping = False, ds_isAttached = False, ds_hasInterpreter = False,
     ds_breakpointsEnabled = True, ds_breakPoints = [], ds_skipTo = Breakpoint_new, ds_pushed = []\<rparr>"

text \<open>The active states in the reply of a break; the two arrays share the running index.\<close>

fun reply_states :: "node list \<Rightarrow> int \<Rightarrow> data \<Rightarrow> data" where
  "reply_states [] i d = d"
| "reply_states (n # ns) i d =
    (if HAS_ATTR n ''id'' then
       (let v = Data_atom (ATTR n ''id'') VERBATIM;
            d1 = put ''activeStates'' (put_item i v (data_at d ''activeStates'')) d
        in if isAtomic n
           then reply_states ns (i + 2) (put ''basicStates'' (put_item (i + 1) v (data_at d1 ''basicStates'')) d1)
           else reply_states ns (i + 1) d1)
     else reply_states ns i d)"

text \<open>
  \<open>breakExecution\<close>: the message is pushed and the interpreter waits; \<open>client\<close> is what the commands of the
  client have made of the session when it is woken up.
\<close>

definition breakExecution :: "(DebugSession \<Rightarrow> DebugSession) \<Rightarrow> node list \<Rightarrow> data \<Rightarrow> DebugSession \<Rightarrow> DebugSession" where
  "breakExecution client conf reply ds = client (ds\<lparr>ds_pushed := ds_pushed ds @
     [put ''replyType'' (Data_atom ''breakpoint'' VERBATIM) (reply_states conf 0 reply)]\<rparr>)"

definition reply_for :: "node \<Rightarrow> Breakpoint \<Rightarrow> Breakpoint \<Rightarrow> data \<Rightarrow> data" where
  "reply_for doc b q reply = put ''qualified'' (bp_toData doc q) (put ''breakpoint'' (bp_toData doc b) reply)"

text \<open>
  The loop over the user's breakpoints for one qualified breakpoint. It runs over the breakpoints as they
  were when it started: the client must not remove the one the iterator has reached.
\<close>

fun check_user ::
  "(DebugSession \<Rightarrow> DebugSession) \<Rightarrow> 'w plugins \<Rightarrow> node \<Rightarrow> (string \<Rightarrow> bool) \<Rightarrow> node list \<Rightarrow> Breakpoint \<Rightarrow>
   (data \<times> Breakpoint) list \<Rightarrow> bool \<Rightarrow> data \<Rightarrow> DebugSession \<Rightarrow> ('w, bool \<times> data \<times> DebugSession) act" where
  "check_user client pl doc inState conf q [] matched reply ds = returnM (matched, reply, ds)"
| "check_user client pl doc inState conf q ((_, b) # bs) matched reply ds =
    (if \<not> bp_enabled b then check_user client pl doc inState conf q bs matched reply ds
     else bindM (matches pl inState b q) (\<lambda>m.
       if m then (let reply' = reply_for doc b q reply
                  in check_user client pl doc inState conf q bs True reply' (breakExecution client conf reply' ds))
       else check_user client pl doc inState conf q bs matched reply ds))"

fun check_qualified ::
  "(DebugSession \<Rightarrow> DebugSession) \<Rightarrow> 'w plugins \<Rightarrow> node \<Rightarrow> (string \<Rightarrow> bool) \<Rightarrow> node list \<Rightarrow> Breakpoint list \<Rightarrow>
   DebugSession \<Rightarrow> ('w, DebugSession) act" where
  "check_qualified client pl doc inState conf [] ds = returnM ds"
| "check_qualified client pl doc inState conf (q # qs) ds =
    (if is_set (ds_skipTo ds) then
       bindM (matches pl inState (ds_skipTo ds) q) (\<lambda>m. check_qualified client pl doc inState conf qs
         (if m then (breakExecution client conf (reply_for doc (ds_skipTo ds) q Data_empty) ds)\<lparr>ds_skipTo := Breakpoint_new\<rparr>
          else ds))
     else bindM (check_user client pl doc inState conf q (ds_breakPoints ds) False Data_empty ds) (\<lambda>(matched, reply, ds').
       check_qualified client pl doc inState conf qs
         (if ds_isStepping ds' \<and> \<not> matched
          then breakExecution client conf (put ''qualified'' (bp_toData doc q) reply) ds' else ds')))"

definition checkBreakpoints ::
  "(DebugSession \<Rightarrow> DebugSession) \<Rightarrow> 'w plugins \<Rightarrow> node \<Rightarrow> (string \<Rightarrow> bool) \<Rightarrow> node list \<Rightarrow> Breakpoint list \<Rightarrow>
   DebugSession \<Rightarrow> ('w, DebugSession) act" where
  "checkBreakpoints client pl doc inState conf qs ds =
    (if \<not> ds_breakpointsEnabled ds then returnM ds else check_qualified client pl doc inState conf qs ds)"

subsection \<open>Commands\<close>

definition success :: data where
  "success = put ''status'' (Data_atom ''success'' VERBATIM) Data_empty"

definition failure :: "string \<Rightarrow> data" where
  "failure reason = put ''status'' (Data_atom ''failure'' VERBATIM) (put_text ''reason'' reason Data_empty)"

definition stored :: "node \<Rightarrow> data \<Rightarrow> DebugSession \<Rightarrow> Breakpoint option" where
  "stored doc d ds = map_of (ds_breakPoints ds) (bp_toData doc (Breakpoint_of d))"

definition addBreakPoint :: "node \<Rightarrow> data \<Rightarrow> DebugSession \<Rightarrow> data \<times> DebugSession" where
  "addBreakPoint doc d ds =
    (case stored doc d ds of
       None \<Rightarrow> (success, ds\<lparr>ds_breakPoints :=
         alist_put Data_less (bp_toData doc (Breakpoint_of d)) (Breakpoint_of d) (ds_breakPoints ds)\<rparr>)
     | Some _ \<Rightarrow> (failure ''Breakpoint already exists'', ds))"

definition removeBreakPoint :: "node \<Rightarrow> data \<Rightarrow> DebugSession \<Rightarrow> data \<times> DebugSession" where
  "removeBreakPoint doc d ds =
    (case stored doc d ds of
       Some _ \<Rightarrow> (success, ds\<lparr>ds_breakPoints := alist_erase (bp_toData doc (Breakpoint_of d)) (ds_breakPoints ds)\<rparr>)
     | None \<Rightarrow> (failure ''No such breakpoint'', ds))"

definition setEnabled :: "bool \<Rightarrow> node \<Rightarrow> data \<Rightarrow> DebugSession \<Rightarrow> data \<times> DebugSession" where
  "setEnabled e doc d ds =
    (case stored doc d ds of
       Some b \<Rightarrow> (success, ds\<lparr>ds_breakPoints :=
         alist_put Data_less (bp_toData doc (Breakpoint_of d)) (b\<lparr>bp_enabled := e\<rparr>) (ds_breakPoints ds)\<rparr>)
     | None \<Rightarrow> (failure ''No such breakpoint'', ds))"

definition enableBreakPoint :: "node \<Rightarrow> data \<Rightarrow> DebugSession \<Rightarrow> data \<times> DebugSession" where
  "enableBreakPoint = setEnabled True"

definition disableBreakPoint :: "node \<Rightarrow> data \<Rightarrow> DebugSession \<Rightarrow> data \<times> DebugSession" where
  "disableBreakPoint = setEnabled False"

definition enableAllBreakPoints :: "DebugSession \<Rightarrow> data \<times> DebugSession" where
  "enableAllBreakPoints ds = (success, ds\<lparr>ds_breakpointsEnabled := True\<rparr>)"

definition disableAllBreakPoints :: "DebugSession \<Rightarrow> data \<times> DebugSession" where
  "disableAllBreakPoints ds = (success, ds\<lparr>ds_breakpointsEnabled := False\<rparr>)"

definition debugStart :: "DebugSession \<Rightarrow> data \<times> DebugSession" where
  "debugStart ds =
    (if ds_isAttached ds then (failure ''Already started when attached'', ds)
     else if \<not> ds_hasInterpreter ds then (failure ''No interpreter attached or loaded'', ds)
     else (success, ds\<lparr>ds_isRunning := True\<rparr>))"

text \<open>\<open>debugStep\<close> and \<open>skipToBreakPoint\<close> start the interpreter when it does not run.\<close>

definition start_if_loaded :: "DebugSession \<Rightarrow> data \<times> DebugSession" where
  "start_if_loaded ds = (if ds_hasInterpreter ds then (success, ds\<lparr>ds_isRunning := True\<rparr>) else (failure [], ds))"

definition debugStep :: "DebugSession \<Rightarrow> data \<times> DebugSession" where
  "debugStep ds = start_if_loaded (ds\<lparr>ds_isStepping := True\<rparr>)"

definition debugResume :: "DebugSession \<Rightarrow> data \<times> DebugSession" where
  "debugResume ds = (success, ds\<lparr>ds_isStepping := False\<rparr>)"

definition debugPause :: "DebugSession \<Rightarrow> data \<times> DebugSession" where
  "debugPause ds = (success, ds\<lparr>ds_skipTo := Breakpoint_new, ds_isStepping := True\<rparr>)"

definition skipToBreakPoint :: "data \<Rightarrow> DebugSession \<Rightarrow> data \<times> DebugSession" where
  "skipToBreakPoint d ds = start_if_loaded (ds\<lparr>ds_skipTo := Breakpoint_of d\<rparr>)"

text \<open>\<open>debugStop\<close>; the flag is cleared only if the session had started a thread (\<open>thread\<close>).\<close>

definition debugStop :: "bool \<Rightarrow> DebugSession \<Rightarrow> data \<times> DebugSession" where
  "debugStop thread ds = (success, ds\<lparr>ds_isRunning := (if thread then False else ds_isRunning ds),
     ds_skipTo := Breakpoint_new, ds_hasInterpreter := False\<rparr>)"

subsection \<open>Notifications\<close>

definition for_state :: "node \<Rightarrow> Breakpoint \<Rightarrow> Breakpoint list" where
  "for_state state template =
     [template\<lparr>bp_stateId := ATTR state ''id'', bp_element := Some state, bp_subject := STATE\<rparr>]"

text \<open>A transition without a source element dereferences a null pointer.\<close>

definition for_transition :: "node \<Rightarrow> node \<Rightarrow> Breakpoint \<Rightarrow> ('w, Breakpoint list) act" where
  "for_transition scxml transition template =
    (case (getSourceState scxml transition, getTargetStates transition scxml) of
       (_, []) \<Rightarrow> returnM []
     | (None, _) \<Rightarrow> throwM Abort
     | (Some source, targets) \<Rightarrow> returnM (map (\<lambda>target. template\<lparr>bp_element := Some transition,
         bp_transSourceId := ATTR source ''id'', bp_transTargetId := ATTR target ''id'', bp_subject := TRANSITION\<rparr>) targets))"

definition for_invoke :: "'w plugins \<Rightarrow> (string \<Rightarrow> bool) \<Rightarrow> node \<Rightarrow> string \<Rightarrow> Breakpoint \<Rightarrow> ('w, Breakpoint list) act" where
  "for_invoke pl inState invokeElem invId template =
    (let bp = template\<lparr>bp_subject := INVOKER, bp_element := Some invokeElem, bp_invokeId := invId\<rparr> in
     if HAS_ATTR invokeElem ''type'' then returnM [bp\<lparr>bp_invokeType := ATTR invokeElem ''type''\<rparr>]
     else if HAS_ATTR invokeElem ''typeexpr''
     then bindM (pluginM (w_evalAsData pl inState (ATTR invokeElem ''typeexpr''))) (\<lambda>d.
       returnM [bp\<lparr>bp_invokeType := atom d\<rparr>])
     else returnM [bp])"

definition bp_at :: "When \<Rightarrow> Breakpoint" where
  "bp_at w = Breakpoint_new\<lparr>bp_when := w\<rparr>"

definition bp_at_do :: "When \<Rightarrow> Action \<Rightarrow> Breakpoint" where
  "bp_at_do w a = (bp_at w)\<lparr>bp_action := a\<rparr>"

definition for_executable :: "node \<Rightarrow> When \<Rightarrow> Breakpoint list" where
  "for_executable n w = [(bp_at w)\<lparr>bp_element := Some n, bp_executableName := LOCALNAME n, bp_subject := EXECUTABLE\<rparr>]"

text \<open>The breakpoints for which a notification of the micro stepper or of the content executor qualifies.\<close>

fun qualifiedFor :: "node \<Rightarrow> notification \<Rightarrow> ('w, Breakpoint list) act" where
  "qualifiedFor scxml (beforeTakingTransition tr) = for_transition scxml tr (bp_at BEFORE)"
| "qualifiedFor scxml (afterTakingTransition tr) = for_transition scxml tr (bp_at AFTER)"
| "qualifiedFor scxml (beforeExitingState st) = returnM (for_state st (bp_at_do BEFORE EXIT))"
| "qualifiedFor scxml (afterExitingState st) = returnM (for_state st (bp_at_do AFTER EXIT))"
| "qualifiedFor scxml (beforeEnteringState st) = returnM (for_state st (bp_at_do BEFORE ENTER))"
| "qualifiedFor scxml (afterEnteringState st) = returnM (for_state st (bp_at_do AFTER ENTER))"
| "qualifiedFor scxml onStableConfiguration = returnM [(bp_at ON)\<lparr>bp_subject := STABLE\<rparr>]"
| "qualifiedFor scxml beforeMicroStep = returnM [(bp_at BEFORE)\<lparr>bp_subject := MICROSTEP\<rparr>]"
| "qualifiedFor scxml afterMicroStep = returnM [(bp_at AFTER)\<lparr>bp_subject := MICROSTEP\<rparr>]"
| "qualifiedFor scxml (beforeProcessingEvent ev) = returnM [(bp_at BEFORE)\<lparr>bp_eventName := ename ev, bp_subject := EVENT\<rparr>]"
| "qualifiedFor scxml _ = returnM []"

fun qualified_exec :: "'w plugins \<Rightarrow> (string \<Rightarrow> bool) \<Rightarrow> exec_note \<Rightarrow> ('w, Breakpoint list) act" where
  "qualified_exec pl inState (BeforeExec n) = returnM (for_executable n BEFORE)"
| "qualified_exec pl inState (AfterExec n) = returnM (for_executable n AFTER)"
| "qualified_exec pl inState (BeforeInvoking n i) = for_invoke pl inState n i (bp_at_do BEFORE INVOKE)"
| "qualified_exec pl inState (AfterInvoking n i) = for_invoke pl inState n i (bp_at_do AFTER INVOKE)"
| "qualified_exec pl inState (BeforeUninvoking n i) = for_invoke pl inState n i (bp_at_do BEFORE UNINVOKE)"
| "qualified_exec pl inState (AfterUninvoking n i) = for_invoke pl inState n i (bp_at_do AFTER UNINVOKE)"

definition debugger_note ::
  "(DebugSession \<Rightarrow> DebugSession) \<Rightarrow> 'w plugins \<Rightarrow> node \<Rightarrow> (string \<Rightarrow> bool) \<Rightarrow> node list \<Rightarrow> notification \<Rightarrow>
   DebugSession \<Rightarrow> ('w, DebugSession) act" where
  "debugger_note client pl scxml inState conf note ds =
    (if note = afterCompletion
     then returnM (ds\<lparr>ds_pushed := ds_pushed ds @ [put ''replyType'' (Data_atom ''finished'' VERBATIM) Data_empty]\<rparr>)
     else if \<not> ds_isRunning ds then returnM ds
     else bindM (qualifiedFor scxml note) (\<lambda>qs. checkBreakpoints client pl scxml inState conf qs ds))"

definition debugger_exec_note ::
  "(DebugSession \<Rightarrow> DebugSession) \<Rightarrow> 'w plugins \<Rightarrow> node \<Rightarrow> (string \<Rightarrow> bool) \<Rightarrow> node list \<Rightarrow> exec_note \<Rightarrow>
   DebugSession \<Rightarrow> ('w, DebugSession) act" where
  "debugger_exec_note client pl scxml inState conf note ds =
    (if \<not> ds_isRunning ds then returnM ds
     else bindM (qualified_exec pl inState note) (\<lambda>qs. checkBreakpoints client pl scxml inState conf qs ds))"

subsection \<open>Breakpoints as data\<close>

lemma text_at_put_text [simp]:
  "text_at (put_text k v d) k' = (if k = k' \<and> v \<noteq> [] then v else text_at d k')"
  by (simp add: text_at_def put_text_def)

lemma text_at_put [simp]: "text_at (put k v d) k' = (if k = k' then atom v else text_at d k')"
  by (simp add: text_at_def)

lemma text_at_empty [simp]: "text_at Data_empty k = []"
  by (simp add: text_at_def)

lemma names_inverse [simp]:
  "when_of (when_name w) = w" "action_of (action_name a) = a" "subject_of (subject_name s) = s"
  "when_of [] = UNDEF_WHEN" "action_of [] = UNDEF_ACTION" "subject_of [] = UNDEF_SUBJECT"
proof -
  show "when_of (when_name w) = w" by (cases w) (simp_all add: when_of_def)
  show "action_of (action_name a) = a" by (cases a) (simp_all add: action_of_def)
  show "subject_of (subject_name s) = s" by (cases s) (simp_all add: subject_of_def)
qed (simp_all add: when_of_def action_of_def subject_of_def)

lemma text_at_toData:
  "text_at (bp_toData doc b) ''when'' = when_name (bp_when b)" "text_at (bp_toData doc b) ''subject'' = subject_name (bp_subject b)"
  "text_at (bp_toData doc b) ''action'' = action_name (bp_action b)" "text_at (bp_toData doc b) ''invokeId'' = bp_invokeId b"
  "text_at (bp_toData doc b) ''invokeType'' = bp_invokeType b" "text_at (bp_toData doc b) ''eventName'' = bp_eventName b"
  "text_at (bp_toData doc b) ''execName'' = bp_executableName b" "text_at (bp_toData doc b) ''execXPath'' = bp_executableXPath b"
  "text_at (bp_toData doc b) ''stateId'' = bp_stateId b" "text_at (bp_toData doc b) ''source'' = bp_transSourceId b"
  "text_at (bp_toData doc b) ''target'' = bp_transTargetId b" "text_at (bp_toData doc b) ''condition'' = bp_condition b"
  by (simp_all add: bp_toData_def split: option.split)

text \<open>Reading back what \<open>toData\<close> wrote gives the same breakpoint, enabled and without the element, which only the
  qualified breakpoints of the debugger itself carry.\<close>

lemma Breakpoint_of_toData: "Breakpoint_of (bp_toData doc b) = b\<lparr>bp_enabled := True, bp_element := None\<rparr>"
  by (simp add: Breakpoint_of_def text_at_toData)

subsection \<open>The set of breakpoints\<close>

lemma Breakpoint_of_plain: "(Breakpoint_of d)\<lparr>bp_enabled := True, bp_element := None\<rparr> = Breakpoint_of d"
  by (simp add: Breakpoint_of_def)

lemma Breakpoint_of_enabled: "bp_enabled (Breakpoint_of d)"
  by (simp add: Breakpoint_of_def)

lemma same_key [simp]: "bp_toData doc (Breakpoint_of d) = bp_toData doc (Breakpoint_of d') \<longleftrightarrow> Breakpoint_of d = Breakpoint_of d'"
proof
  assume "bp_toData doc (Breakpoint_of d) = bp_toData doc (Breakpoint_of d')"
  then have "Breakpoint_of (bp_toData doc (Breakpoint_of d)) = Breakpoint_of (bp_toData doc (Breakpoint_of d'))" by simp
  then show "Breakpoint_of d = Breakpoint_of d'" by (simp add: Breakpoint_of_toData Breakpoint_of_plain)
qed simp

definition enabledness :: "node \<Rightarrow> DebugSession \<Rightarrow> data \<Rightarrow> bool option" where
  "enabledness doc ds d = map_option bp_enabled (stored doc d ds)"

text \<open>
  C23. The commands on breakpoints refine operations on a finite map that tells for each breakpoint whether it is
  enabled: adding inserts an enabled breakpoint unless it is there, removing deletes it, enabling and
  disabling change a breakpoint that is there. Two descriptions denote the same breakpoint exactly when
  they are read as the same one, whatever other keys they have.
\<close>

theorem breakpoint_commands:
  "enabledness doc (snd (addBreakPoint doc d ds)) = (\<lambda>d'. if Breakpoint_of d' = Breakpoint_of d \<and> enabledness doc ds d = None
     then Some True else enabledness doc ds d') \<and>
   enabledness doc (snd (removeBreakPoint doc d ds)) = (\<lambda>d'. if Breakpoint_of d' = Breakpoint_of d
     then None else enabledness doc ds d') \<and>
   enabledness doc (snd (setEnabled e doc d ds)) = (\<lambda>d'. if Breakpoint_of d' = Breakpoint_of d \<and> enabledness doc ds d \<noteq> None
     then Some e else enabledness doc ds d')"
proof (intro conjI ext)
  fix d'
  show "enabledness doc (snd (addBreakPoint doc d ds)) d' = (if Breakpoint_of d' = Breakpoint_of d \<and> enabledness doc ds d = None
     then Some True else enabledness doc ds d')"
    by (simp add: addBreakPoint_def enabledness_def stored_def Breakpoint_of_enabled split: option.split)
  show "enabledness doc (snd (removeBreakPoint doc d ds)) d' = (if Breakpoint_of d' = Breakpoint_of d
     then None else enabledness doc ds d')"
    by (auto simp: removeBreakPoint_def enabledness_def stored_def split: option.split)
  show "enabledness doc (snd (setEnabled e doc d ds)) d' = (if Breakpoint_of d' = Breakpoint_of d \<and> enabledness doc ds d \<noteq> None
     then Some e else enabledness doc ds d')"
    by (auto simp: setEnabled_def enabledness_def stored_def split: option.split)
qed

subsection \<open>When execution stops\<close>

definition stop_message :: "node list \<Rightarrow> data \<Rightarrow> data" where
  "stop_message conf reply = put ''replyType'' (Data_atom ''breakpoint'' VERBATIM) (reply_states conf 0 reply)"

definition user_matches :: "DebugSession \<Rightarrow> Breakpoint \<Rightarrow> Breakpoint list" where
  "user_matches ds q = filter (\<lambda>b. bp_enabled b \<and> qualifies b q) (map snd (ds_breakPoints ds))"

definition stops :: "node \<Rightarrow> node list \<Rightarrow> DebugSession \<Rightarrow> Breakpoint \<Rightarrow> data list" where
  "stops doc conf ds q =
    (if user_matches ds q \<noteq> [] then map (\<lambda>b. stop_message conf (reply_for doc b q Data_empty)) (user_matches ds q)
     else if ds_isStepping ds then [stop_message conf (put ''qualified'' (bp_toData doc q) Data_empty)] else [])"

text \<open>A client that only lets the interpreter go on.\<close>

definition resumes :: "(DebugSession \<Rightarrow> DebugSession) \<Rightarrow> bool" where
  "resumes client \<longleftrightarrow> (\<forall>ds. ds_breakPoints (client ds) = ds_breakPoints ds \<and> ds_isStepping (client ds) = ds_isStepping ds \<and>
     ds_skipTo (client ds) = ds_skipTo ds \<and> ds_pushed (client ds) = ds_pushed ds)"

lemma matches_plain: "bp_condition b = [] \<Longrightarrow> matches pl f b q s = (Inr (qualifies b q), s)"
  by (simp add: matches_def)

lemma reply_for_again: "reply_for doc b q (reply_for doc b' q Data_empty) = reply_for doc b q Data_empty"
  by (simp add: reply_for_def Data_empty_def)

lemma breakExecution_resumed:
  assumes "resumes client"
  shows "ds_breakPoints (breakExecution client conf r ds) = ds_breakPoints ds"
    "ds_isStepping (breakExecution client conf r ds) = ds_isStepping ds"
    "ds_skipTo (breakExecution client conf r ds) = ds_skipTo ds"
    "ds_pushed (breakExecution client conf r ds) = ds_pushed ds @ [stop_message conf r]"
  using assms by (simp_all add: resumes_def breakExecution_def stop_message_def)

abbreviation same_session :: "DebugSession \<Rightarrow> DebugSession \<Rightarrow> bool" where
  "same_session ds ds' \<equiv> ds_breakPoints ds' = ds_breakPoints ds \<and> ds_isStepping ds' = ds_isStepping ds \<and>
     ds_skipTo ds' = ds_skipTo ds"

lemma check_user_stops:
  assumes "resumes client" and "\<forall>b \<in> snd ` set bs. bp_condition b = []"
    and "reply = Data_empty \<or> (\<exists>b. reply = reply_for doc b q Data_empty)"
  shows "\<exists>ds' reply'. check_user client pl doc f conf q bs matched reply ds s =
      (Inr (matched \<or> filter (\<lambda>b. bp_enabled b \<and> qualifies b q) (map snd bs) \<noteq> [], reply', ds'), s) \<and>
    same_session ds ds' \<and>
    (filter (\<lambda>b. bp_enabled b \<and> qualifies b q) (map snd bs) = [] \<longrightarrow> reply' = reply) \<and>
    ds_pushed ds' = ds_pushed ds @ map (\<lambda>b. stop_message conf (reply_for doc b q Data_empty))
      (filter (\<lambda>b. bp_enabled b \<and> qualifies b q) (map snd bs))"
  using assms(2,3)
proof (induction bs arbitrary: matched reply ds)
  case (Cons a bs)
  obtain k b where a: "a = (k, b)" by fastforce
  have c: "bp_condition b = []" using Cons.prems a by simp
  show ?case
  proof (cases "bp_enabled b \<and> qualifies b q")
    case True
    have r: "reply_for doc b q reply = reply_for doc b q Data_empty" using Cons.prems(2) reply_for_again by auto
    obtain ds' reply' where "check_user client pl doc f conf q bs True (reply_for doc b q Data_empty)
        (breakExecution client conf (reply_for doc b q Data_empty) ds) s = (Inr (True, reply', ds'), s)"
      "same_session ds ds'" "ds_pushed ds' = ds_pushed ds @ stop_message conf (reply_for doc b q Data_empty) #
        map (\<lambda>b. stop_message conf (reply_for doc b q Data_empty)) (filter (\<lambda>b. bp_enabled b \<and> qualifies b q) (map snd bs))"
      using Cons.IH [of "reply_for doc b q Data_empty" True "breakExecution client conf (reply_for doc b q Data_empty) ds"]
        Cons.prems(1) by (auto simp: breakExecution_resumed [OF assms(1)])
    then show ?thesis using a True by (simp add: bindM_def matches_plain [OF c] Let_def r)
  next
    case False
    then show ?thesis
      using a Cons.IH [of reply matched ds] Cons.prems by (auto simp: bindM_def matches_plain [OF c])
  qed
qed (simp add: returnM_def)

text \<open>A condition that evaluates to false does not keep a breakpoint from matching.\<close>

lemma condition_value_ignored:
  "qualifies b q \<Longrightarrow> isTrue pl f (bp_condition b) s = (Inr v, s') \<Longrightarrow> fst (matches pl f b q s) = Inr True"
  by (simp add: matches_def)

text \<open>
  While breakpoints are enabled and none is being skipped to, execution stops for a notification exactly once for
  every enabled breakpoint without a condition that qualifies, in the order of the set, and once if none
  does and the session is stepping. Nothing else about the session or the interpreter changes.
\<close>

theorem debugger_stops:
  assumes "resumes client" and "ds_breakpointsEnabled ds" and "\<not> is_set (ds_skipTo ds)"
    and "\<forall>b \<in> snd ` set (ds_breakPoints ds). bp_condition b = []"
  shows "\<exists>ds'. checkBreakpoints client pl doc f conf qs ds s = (Inr ds', s) \<and> same_session ds ds' \<and>
    ds_pushed ds' = ds_pushed ds @ concat (map (stops doc conf ds) qs)"
proof -
  have "\<exists>ds'. check_qualified client pl doc f conf qs ds s = (Inr ds', s) \<and> same_session ds ds' \<and>
      ds_pushed ds' = ds_pushed ds @ concat (map (stops doc conf ds) qs)"
    using assms(3,4)
  proof (induction qs arbitrary: ds)
    case (Cons q qs)
    obtain ds1 reply where c: "check_user client pl doc f conf q (ds_breakPoints ds) False Data_empty ds s =
        (Inr (user_matches ds q \<noteq> [], reply, ds1), s)" "same_session ds ds1"
      "user_matches ds q = [] \<longrightarrow> reply = Data_empty"
      "ds_pushed ds1 = ds_pushed ds @ map (\<lambda>b. stop_message conf (reply_for doc b q Data_empty)) (user_matches ds q)"
      using check_user_stops [OF assms(1) Cons.prems(2), of Data_empty doc q pl f conf False ds s]
      by (auto simp: user_matches_def)
    let ?ds2 = "if ds_isStepping ds1 \<and> user_matches ds q = []
      then breakExecution client conf (put ''qualified'' (bp_toData doc q) reply) ds1 else ds1"
    have s: "same_session ds ?ds2" "ds_pushed ?ds2 = ds_pushed ds @ stops doc conf ds q"
      using c by (auto simp: breakExecution_resumed [OF assms(1)] stops_def)
    have "stops doc conf ?ds2 = stops doc conf ds"
      using s(1) by (intro ext) (simp add: stops_def user_matches_def)
    then obtain ds' where "check_qualified client pl doc f conf qs ?ds2 s = (Inr ds', s)" "same_session ds ds'"
      "ds_pushed ds' = ds_pushed ds @ stops doc conf ds q @ concat (map (stops doc conf ds) qs)"
      using Cons.IH [of ?ds2] s Cons.prems by auto
    then show ?case using c(1) Cons.prems(1) by (auto simp: bindM_def)
  qed (simp add: returnM_def)
  then show ?thesis using assms(2) by (simp add: checkBreakpoints_def)
qed

definition sample_debug :: DebugSession where
  "sample_debug = snd (addBreakPoint sample_doc (put_text ''when'' ''after'' (put_text ''subject'' ''event'' Data_empty))
     (snd (addBreakPoint sample_doc (put_text ''eventName'' ''go'' (put_text ''subject'' ''event'' Data_empty))
       DebugSession_new)))"

theorem debugger_stops_witness:
  "\<exists>ds'. checkBreakpoints (\<lambda>ds. ds) sample_plugins sample_doc (\<lambda>_. False) [] [(bp_at BEFORE)\<lparr>bp_eventName := ''go.on'', bp_subject := EVENT\<rparr>]
      sample_debug sample_session = (Inr ds', sample_session) \<and> length (ds_pushed ds') = 1"
proof -
  let ?q = "(bp_at BEFORE)\<lparr>bp_eventName := ''go.on'', bp_subject := EVENT\<rparr>"
  have u: "length (user_matches sample_debug ?q) = 1" by code_simp
  have "resumes (\<lambda>ds. ds)" by (simp add: resumes_def)
  moreover have "ds_breakpointsEnabled sample_debug" "\<not> is_set (ds_skipTo sample_debug)"
    "\<forall>b \<in> snd ` set (ds_breakPoints sample_debug). bp_condition b = []" "ds_pushed sample_debug = []" by code_simp+
  ultimately show ?thesis
    using debugger_stops [of "\<lambda>ds. ds" sample_debug sample_plugins sample_doc "\<lambda>_. False" "[]" "[?q]" sample_session] u
    by (auto simp: stops_def)
qed

end
