(* ===== verification/Reachability.thy ===== *)
theory Reachability
  imports MicroStep_Init
begin

text \<open>
  \<open>getReachableStates\<close> of \<open>src/src/uscxml/util/Predicates.cpp\<close>, with which the issue checker finds states that no
  transition leads to. A worklist collects the states that the last ones lead to by their
  initial states, their transitions and, for atomic states, their ancestors. The loop is a partial
  function, since nothing in the code bounds it; the lemmas show that it always ends and computes
  the reflexive transitive closure of the one-step relation.
\<close>

subsection \<open>Children of several states\<close>

text \<open>
  The list form of \<open>getChildStates\<close> uses \<open>std::list::merge\<close>, which compares the pointers: \<open>addr\<close> is the address of a
  node. No child is lost, but the order depends on the addresses.
\<close>

fun list_merge :: "(node \<Rightarrow> nat) \<Rightarrow> node list \<Rightarrow> node list \<Rightarrow> node list" where
  "list_merge addr [] ys = ys"
| "list_merge addr (x # xs) [] = x # xs"
| "list_merge addr (x # xs) (y # ys) =
    (if addr y < addr x then y # list_merge addr (x # xs) ys else x # list_merge addr xs (y # ys))"

definition getChildStatesOf :: "(node \<Rightarrow> nat) \<Rightarrow> node list \<Rightarrow> bool \<Rightarrow> node list" where
  "getChildStatesOf addr states properOnly =
     foldl (\<lambda>children s. list_merge addr children (getChildStates s properOnly)) [] states"

lemma mset_list_merge: "mset (list_merge addr xs ys) = mset xs + mset ys"
  by (induction addr xs ys rule: list_merge.induct) auto

lemma mset_getChildStatesOf:
  "mset (getChildStatesOf addr states properOnly) = mset (concat (map (\<lambda>s. getChildStates s properOnly) states))"
proof -
  have "mset (foldl (\<lambda>children s. list_merge addr children (getChildStates s properOnly)) cs states) =
      mset cs + mset (concat (map (\<lambda>s. getChildStates s properOnly) states))" for cs
    by (induction states arbitrary: cs) (simp_all add: mset_list_merge)
  then show ?thesis by (simp add: getChildStatesOf_def)
qed

subsection \<open>The worklist\<close>

definition known :: "node list \<Rightarrow> node list \<Rightarrow> node \<Rightarrow> bool" where
  "known additions reachable n \<longleftrightarrow> isMember n additions \<or> isMember n reachable"

text \<open>The three sources of new states. A null pointer among the initial states is never a member of a list.\<close>

definition via_initial :: "node \<Rightarrow> node \<Rightarrow> node option list" where
  "via_initial root state = getInitialStates state root"

definition via_targets :: "node \<Rightarrow> node \<Rightarrow> node list" where
  "via_targets root state = concat (map (\<lambda>t. getTargetStates t root)
     (filterChildElements (XML_PREFIX state @ ''transition'') state False))"

definition via_parents :: "node \<Rightarrow> node \<Rightarrow> node list" where
  "via_parents doc state = (if isAtomic state then takeWhile (\<lambda>p. isElement p \<and> isState p True) (parents doc state) else [])"

definition found :: "node \<Rightarrow> node \<Rightarrow> node list \<Rightarrow> node list \<Rightarrow> node option list" where
  "found doc root additions reachable =
    (let new = (\<lambda>n. case n of None \<Rightarrow> True | Some x \<Rightarrow> \<not> known additions reachable x) in
     filter new (concat (map (via_initial root) additions)) @
     filter new (map Some (concat (map (via_targets root) additions))) @
     filter new (map Some (concat (map (via_parents doc) additions))))"

text \<open>
  The outer option is termination, the inner one tells that no null pointer was followed: a state list
  that holds one is dereferenced in the next round.
\<close>

partial_function (option) reach_loop :: "node \<Rightarrow> node \<Rightarrow> node option list \<Rightarrow> node list \<Rightarrow> node list option option" where
  "reach_loop doc root additions reachable =
    (if additions = [] then Some (Some reachable)
     else if None \<in> set additions then Some None
     else reach_loop doc root (found doc root (map the additions) reachable) (reachable @ map the additions))"

declare reach_loop.simps [code]

definition getReachableStates :: "node \<Rightarrow> node \<Rightarrow> node list option option" where
  "getReachableStates doc root = reach_loop doc root [Some root] []"

subsection \<open>One step\<close>

definition leads_to :: "node \<Rightarrow> node \<Rightarrow> node \<Rightarrow> node \<Rightarrow> bool" where
  "leads_to doc root s n \<longleftrightarrow> Some n \<in> set (via_initial root s) \<or> n \<in> set (via_targets root s) \<or> n \<in> set (via_parents doc s)"

lemma child_nodes: "c \<in> set (childNodes n) \<Longrightarrow> c \<in> set (nodes n)"
  by (cases n) (auto intro: bexI [of _ c])

lemma getState_sub:
  assumes "getState i root = Some s" shows "s \<in> set (nodes root)"
proof -
  have "getState_loop i st = Some s \<Longrightarrow> set st \<subseteq> set (nodes root) \<Longrightarrow> s \<in> set (nodes root)" for st
  proof (induction i st rule: getState_loop.induct)
    case (2 i c st)
    have "set (getChildStates c False) \<subseteq> set (nodes root)"
      using 2(3) nodes_trans [of c root] child_nodes by (fastforce simp: getChildStates_def elementChildren_def)
    then show ?case using 2 by (auto split: if_splits)
  qed simp
  from this [of "[root]"] show ?thesis using assms by (simp add: getState_def del: getState_loop.simps)
qed

lemma targets_sub: "s \<in> set (getTargetStates t root) \<Longrightarrow> s \<in> set (nodes root)"
  by (auto simp: getTargetStates_def split: option.splits intro: getState_sub)

lemma initial_sub:
  assumes "Some s \<in> set (getInitialStates n root)" shows "s \<in> set (nodes root) \<or> s \<in> set (nodes n)"
proof -
  have "set (getChildStates n True) \<subseteq> set (nodes n)"
    by (auto simp: getChildStates_def elementChildren_def intro: child_nodes)
  moreover have "List.find (\<lambda>c. isState c True) (elementChildren n) = Some c \<Longrightarrow> c \<in> set (nodes n)" for c
    by (auto simp: find_Some_iff elementChildren_def intro!: child_nodes dest: nth_mem)
  ultimately show ?thesis
    using assms getState_sub
    by (auto simp: getInitialStates_def getStates_def split: if_splits list.splits option.splits dest: targets_sub)
qed

lemma leads_to_sub:
  assumes "distinct (nids doc)" and "root \<in> set (nodes doc)" and "s \<in> set (nodes doc)" and "leads_to doc root s n"
  shows "n \<in> set (nodes doc)"
proof -
  have "x \<in> set (nodes doc)" if "x \<in> set (nodes root) \<or> x \<in> set (nodes s)" for x
    using that nodes_trans assms(2,3) by blast
  then show ?thesis
    using assms(4) initial_sub targets_sub parents_sub [OF assms(1)]
    by (fastforce simp: leads_to_def via_initial_def via_targets_def via_parents_def dest: set_takeWhileD split: if_splits)
qed

lemma found_iff:
  "Some n \<in> set (found doc root additions reachable) \<longleftrightarrow>
     (\<exists>s \<in> set additions. leads_to doc root s n) \<and> \<not> known additions reachable n"
  by (auto simp: found_def leads_to_def Let_def)

lemma found_None: "None \<in> set (found doc root additions reachable) \<longleftrightarrow> (\<exists>s \<in> set additions. None \<in> set (via_initial root s))"
  by (auto simp: found_def Let_def)

subsection \<open>The loop ends with the closure\<close>

abbreviation reaches :: "node \<Rightarrow> node \<Rightarrow> node \<Rightarrow> bool" where
  "reaches doc root \<equiv> (leads_to doc root)\<^sup>*\<^sup>* root"

abbreviation dangling :: "node \<Rightarrow> node \<Rightarrow> bool" where
  "dangling root s \<equiv> None \<in> set (via_initial root s)"

definition loop_inv :: "node \<Rightarrow> node \<Rightarrow> node option list \<Rightarrow> node list \<Rightarrow> bool" where
  "loop_inv doc root additions reachable \<longleftrightarrow>
     (\<forall>x. Some x \<in> set additions \<or> x \<in> set reachable \<longrightarrow> x \<in> set (nodes doc) \<and> reaches doc root x) \<and>
     (\<forall>x. Some x \<in> set additions \<longrightarrow> x \<notin> set reachable) \<and>
     (\<forall>s \<in> set reachable. \<forall>n. leads_to doc root s n \<longrightarrow> n \<in> set reachable \<or> Some n \<in> set additions) \<and>
     (\<forall>s \<in> set reachable. dangling root s \<longrightarrow> None \<in> set additions) \<and>
     (root \<in> set reachable \<or> Some root \<in> set additions) \<and>
     (None \<in> set additions \<longrightarrow> (\<exists>s. reaches doc root s \<and> dangling root s))"

lemma isMember_iff:
  "distinct (nids doc) \<Longrightarrow> n \<in> set (nodes doc) \<Longrightarrow> set xs \<subseteq> set (nodes doc) \<Longrightarrow> isMember n xs \<longleftrightarrow> n \<in> set xs"
  using same_node [of doc n] by (auto simp: isMember_def same_def list_ex_iff)

lemma map_the_iff: "None \<notin> set xs \<Longrightarrow> x \<in> set (map the xs) \<longleftrightarrow> Some x \<in> set xs"
  by (induction xs) auto

lemma loop_inv_step:
  assumes d: "distinct (nids doc)" and root: "root \<in> set (nodes doc)"
    and inv: "loop_inv doc root additions reachable" and none: "None \<notin> set additions"
  shows "loop_inv doc root (found doc root (map the additions) reachable) (reachable @ map the additions)"
proof -
  let ?a = "map the additions"
  have a: "Some x \<in> set additions \<longleftrightarrow> x \<in> set ?a" for x by (rule map_the_iff [OF none, symmetric])
  have sub: "set ?a \<subseteq> set (nodes doc)" "set reachable \<subseteq> set (nodes doc)" using inv a by (auto simp: loop_inv_def)
  have next_in: "n \<in> set (nodes doc)" if "s \<in> set ?a" "leads_to doc root s n" for s n
    using leads_to_sub [OF d root] that sub by blast
  have k: "known ?a reachable n \<longleftrightarrow> n \<in> set ?a \<or> n \<in> set reachable" if "n \<in> set (nodes doc)" for n
    using that isMember_iff [OF d] sub by (simp add: known_def)
  have r: "reaches doc root x" if "x \<in> set ?a \<or> x \<in> set reachable" for x using inv that a by (auto simp: loop_inv_def)
  have r': "reaches doc root n" if "s \<in> set ?a" "leads_to doc root s n" for s n
    using rtranclp.rtrancl_into_rtrancl [OF r that(2)] that(1) by blast
  have f: "Some n \<in> set (found doc root ?a reachable) \<longleftrightarrow>
      (\<exists>s \<in> set ?a. leads_to doc root s n) \<and> n \<notin> set ?a \<and> n \<notin> set reachable" for n
    using found_iff k next_in by blast
  have inv': "\<forall>s \<in> set reachable. \<forall>n. leads_to doc root s n \<longrightarrow> n \<in> set reachable \<or> n \<in> set ?a"
    "\<forall>s \<in> set reachable. \<not> dangling root s" "root \<in> set reachable \<or> root \<in> set ?a"
    using inv none a by (auto simp: loop_inv_def)
  have "\<exists>s. reaches doc root s \<and> dangling root s" if "s \<in> set ?a" "dangling root s" for s
    using r that by blast
  then show ?thesis
    unfolding loop_inv_def found_None f
    using inv' next_in r r' sub by (auto simp del: set_map)
qed

lemma reach_loop_result:
  assumes d: "distinct (nids doc)" and root: "root \<in> set (nodes doc)" and "loop_inv doc root additions reachable"
  shows "\<exists>r. reach_loop doc root additions reachable = Some r \<and>
    (case r of None \<Rightarrow> \<exists>s. reaches doc root s \<and> dangling root s
     | Some xs \<Rightarrow> set xs = Collect (reaches doc root) \<and> (\<forall>s. reaches doc root s \<longrightarrow> \<not> dangling root s))"
  using assms(3)
proof (induction "card (set (nodes doc) - set reachable)" arbitrary: additions reachable rule: less_induct)
  case less
  show ?case
  proof (cases "additions = [] \<or> None \<in> set additions")
    case True
    have "reaches doc root s \<Longrightarrow> s \<in> set reachable" if "additions = []" for s
      by (induction rule: rtranclp_induct) (use less.prems that in \<open>auto simp: loop_inv_def\<close>)
    then show ?thesis using True less.prems by (subst reach_loop.simps) (auto simp: loop_inv_def)
  next
    case False
    then have "hd additions \<in> set additions" "hd additions \<noteq> None" by (metis hd_in_set)+
    then obtain x where x: "Some x \<in> set additions" by (metis option.collapse)
    then have xa: "x \<in> set (map the additions)" using map_the_iff [of additions x] False by simp
    have "x \<in> set (nodes doc)" "x \<notin> set reachable" using less.prems x by (auto simp: loop_inv_def)
    then have "card (set (nodes doc) - set (reachable @ map the additions)) < card (set (nodes doc) - set reachable)"
      using xa by (intro psubset_card_mono) auto
    from less.hyps [OF this loop_inv_step [OF d root less.prems]] False show ?thesis
      by (subst reach_loop.simps) simp
  qed
qed

lemma getReachableStates_result:
  assumes "distinct (nids doc)" and "root \<in> set (nodes doc)"
  shows "\<exists>r. getReachableStates doc root = Some r \<and>
    (if \<exists>s. (leads_to doc root)\<^sup>*\<^sup>* root s \<and> None \<in> set (getInitialStates s root) then r = None
     else \<exists>xs. r = Some xs \<and> set xs = {s. (leads_to doc root)\<^sup>*\<^sup>* root s})"
proof -
  have "loop_inv doc root [Some root] []" using assms(2) by (simp add: loop_inv_def)
  from reach_loop_result [OF assms this] obtain r where "getReachableStates doc root = Some r"
    "case r of None \<Rightarrow> \<exists>s. reaches doc root s \<and> dangling root s
     | Some xs \<Rightarrow> set xs = Collect (reaches doc root) \<and> (\<forall>s. reaches doc root s \<longrightarrow> \<not> dangling root s)"
    by (auto simp: getReachableStates_def)
  then show ?thesis by (intro exI [of _ r]) (auto simp: via_initial_def split: option.splits)
qed

text \<open>
  C17. The search for reachable states always ends. When every \<open>initial\<close> attribute of a reachable state names existing
  states, it returns exactly the states in the reflexive transitive closure of \<open>leads to\<close>, and otherwise
  it follows a null pointer.
\<close>

theorem reachable_states_closure:
  assumes "distinct (nids doc)" and "root \<in> set (nodes doc)"
  shows "\<exists>r. getReachableStates doc root = Some r \<and>
    (if \<exists>s. (leads_to doc root)\<^sup>*\<^sup>* root s \<and> None \<in> set (getInitialStates s root) then r = None
     else \<exists>xs. r = Some xs \<and> set xs = {s. (leads_to doc root)\<^sup>*\<^sup>* root s})"
  by (rule getReachableStates_result [OF assms])

theorem reachable_states_closure_witness: "\<exists>r. getReachableStates sample_doc sample_doc = Some r"
proof -
  have "distinct (nids sample_doc)" by code_simp
  from reachable_states_closure [OF this, of sample_doc] show ?thesis by auto
qed

end
