(* ===== verification/Factory.thy ===== *)
theory Factory
  imports Events
begin

text \<open>
  The plugin factory of \<open>src/src/uscxml/plugins/Factory.cpp\<close>: prototypes of data models, I/O
  processors, invokers and executable content are registered under their names, looked up in a
  factory and then in its parents, and asked to create instances. The maps of the class are
  association lists; a prototype is its list of names and its \<open>create\<close> method, whose argument
  stands for the callbacks (the interpreter). The lemmas show that what a factory claims to have it can
  create, and which prototype a name stands for after a registration.
\<close>

subsection \<open>State\<close>

record ('c, 'i) prototype =
  getNames :: "string list"
  create :: "'c \<Rightarrow> 'i"

record ('c, 'x) content_prototype =
  getLocalName :: string
  getNamespace :: string
  createContent :: "'c \<Rightarrow> 'x"

type_synonym ('c, 'i) protos = "(string \<times> ('c, 'i) prototype) list"
type_synonym aliases = "(string \<times> string) list"

record ('c, 'd, 'i, 'v, 'x) plugin_tables =
  dataModels :: "('c, 'd) protos"
  dataModelAliases :: aliases
  ioProcessors :: "('c, 'i) protos"
  ioProcessorAliases :: aliases
  invokers :: "('c, 'v) protos"
  invokerAliases :: aliases
  executableContent :: "((string \<times> string) \<times> ('c, 'x) content_prototype) list"

datatype ('c, 'd, 'i, 'v, 'x) factory =
  Factory (own: "('c, 'd, 'i, 'v, 'x) plugin_tables") (parentFactory: "('c, 'd, 'i, 'v, 'x) factory option")

definition no_tables :: "('c, 'd, 'i, 'v, 'x) plugin_tables" where
  "no_tables = \<lparr>dataModels = [], dataModelAliases = [], ioProcessors = [], ioProcessorAliases = [],
     invokers = [], invokerAliases = [], executableContent = []\<rparr>"

definition Factory_new :: "('c, 'd, 'i, 'v, 'x) factory option \<Rightarrow> ('c, 'd, 'i, 'v, 'x) factory" where
  "Factory_new parent = Factory no_tables parent"

fun update_own ::
  "(('c, 'd, 'i, 'v, 'x) plugin_tables \<Rightarrow> ('c, 'd, 'i, 'v, 'x) plugin_tables) \<Rightarrow>
   ('c, 'd, 'i, 'v, 'x) factory \<Rightarrow> ('c, 'd, 'i, 'v, 'x) factory" where
  "update_own g (Factory t p) = Factory (g t) p"

subsection \<open>Registration\<close>

text \<open>The loop over the names: each becomes an alias of the first one.\<close>

definition put_aliases :: "string list \<Rightarrow> string \<Rightarrow> aliases \<Rightarrow> aliases" where
  "put_aliases names canonicalName as = foldl (\<lambda>a n. alist_put str_less n canonicalName a) as names"

definition registerIOProcessor ::
  "('c, 'i) prototype \<Rightarrow> ('c, 'd, 'i, 'v, 'x) factory \<Rightarrow> ('c, 'd, 'i, 'v, 'x) factory" where
  "registerIOProcessor ioProcessor f =
    (case getNames ioProcessor of
       [] \<Rightarrow> f
     | canonicalName # _ \<Rightarrow> update_own (\<lambda>t. t\<lparr>
         ioProcessors := alist_put str_less canonicalName ioProcessor (ioProcessors t),
         ioProcessorAliases := put_aliases (getNames ioProcessor) canonicalName (ioProcessorAliases t)\<rparr>) f)"

definition registerDataModel ::
  "('c, 'd) prototype \<Rightarrow> ('c, 'd, 'i, 'v, 'x) factory \<Rightarrow> ('c, 'd, 'i, 'v, 'x) factory" where
  "registerDataModel dataModel f =
    (case getNames dataModel of
       [] \<Rightarrow> f
     | canonicalName # _ \<Rightarrow> update_own (\<lambda>t. t\<lparr>
         dataModels := alist_put str_less canonicalName dataModel (dataModels t),
         dataModelAliases := put_aliases (getNames dataModel) canonicalName (dataModelAliases t)\<rparr>) f)"

definition registerInvoker ::
  "('c, 'v) prototype \<Rightarrow> ('c, 'd, 'i, 'v, 'x) factory \<Rightarrow> ('c, 'd, 'i, 'v, 'x) factory" where
  "registerInvoker invoker f =
    (case getNames invoker of
       [] \<Rightarrow> f
     | canonicalName # _ \<Rightarrow> update_own (\<lambda>t. t\<lparr>
         invokers := alist_put str_less canonicalName invoker (invokers t),
         invokerAliases := put_aliases (getNames invoker) canonicalName (invokerAliases t)\<rparr>) f)"

definition pair_less :: "string \<times> string \<Rightarrow> string \<times> string \<Rightarrow> bool" where
  "pair_less a b = (str_less (fst a) (fst b) \<or> fst a = fst b \<and> str_less (snd a) (snd b))"

definition registerExecutableContent ::
  "('c, 'x) content_prototype \<Rightarrow> ('c, 'd, 'i, 'v, 'x) factory \<Rightarrow> ('c, 'd, 'i, 'v, 'x) factory" where
  "registerExecutableContent ec f = update_own (\<lambda>t. t\<lparr>executableContent :=
     alist_put pair_less (getLocalName ec, getNamespace ec) ec (executableContent t)\<rparr>) f"

text \<open>
  The built-in plugins. Which of them exist is decided when the library is compiled: \<open>builtin\<close>
  maps each plugin type to its prototype, or to \<open>None\<close> when its \<open>WITH_\<close> macro is not set.
\<close>

datatype PluginType = ptSCXMLIOProcessor | ptBasicHTTPIOProcessor | ptV8DataModel | ptJSCDataModel
  | ptLuaDataModel | ptC89DataModel | ptPromelaDataModel | ptNullDataModel | ptUSCXMLInvoker
  | ptDirMonInvoker | ptALL

datatype ('c, 'd, 'i, 'v) plugin =
  IOProcessorPlugin "('c, 'i) prototype" | DataModelPlugin "('c, 'd) prototype" | InvokerPlugin "('c, 'v) prototype"

definition plugin_types :: "PluginType list" where
  "plugin_types = [ptSCXMLIOProcessor, ptBasicHTTPIOProcessor, ptV8DataModel, ptJSCDataModel, ptLuaDataModel,
     ptC89DataModel, ptPromelaDataModel, ptNullDataModel, ptUSCXMLInvoker, ptDirMonInvoker]"

definition registerPlugin ::
  "('c, 'd, 'i, 'v) plugin option \<Rightarrow> ('c, 'd, 'i, 'v, 'x) factory \<Rightarrow> ('c, 'd, 'i, 'v, 'x) factory" where
  "registerPlugin pl f =
    (case pl of
       None \<Rightarrow> f
     | Some (IOProcessorPlugin p) \<Rightarrow> registerIOProcessor p f
     | Some (DataModelPlugin p) \<Rightarrow> registerDataModel p f
     | Some (InvokerPlugin p) \<Rightarrow> registerInvoker p f)"

definition registerPlugins ::
  "(PluginType \<Rightarrow> ('c, 'd, 'i, 'v) plugin option) \<Rightarrow> ('c, 'd, 'i, 'v, 'x) factory \<Rightarrow> ('c, 'd, 'i, 'v, 'x) factory" where
  "registerPlugins builtin f = foldl (\<lambda>g t. registerPlugin (builtin t) g) f plugin_types"

definition registerCustomPlugins ::
  "(PluginType \<Rightarrow> ('c, 'd, 'i, 'v) plugin option) \<Rightarrow> PluginType set \<Rightarrow>
   ('c, 'd, 'i, 'v, 'x) factory \<Rightarrow> ('c, 'd, 'i, 'v, 'x) factory" where
  "registerCustomPlugins builtin pluginTypes f =
     foldl (\<lambda>g t. if t \<in> pluginTypes \<or> ptALL \<in> pluginTypes then registerPlugin (builtin t) g else g) f plugin_types"

subsection \<open>Lookup\<close>

fun hasInvoker :: "('c, 'd, 'i, 'v, 'x) factory \<Rightarrow> string \<Rightarrow> bool" where
  "hasInvoker (Factory t p) type =
    (if map_of (invokerAliases t) type \<noteq> None then True
     else case p of Some f \<Rightarrow> hasInvoker f type | None \<Rightarrow> False)"

fun hasDataModel :: "('c, 'd, 'i, 'v, 'x) factory \<Rightarrow> string \<Rightarrow> bool" where
  "hasDataModel (Factory t p) type =
    (if map_of (dataModelAliases t) type \<noteq> None then True
     else case p of Some f \<Rightarrow> hasDataModel f type | None \<Rightarrow> False)"

fun hasIOProcessor :: "('c, 'd, 'i, 'v, 'x) factory \<Rightarrow> string \<Rightarrow> bool" where
  "hasIOProcessor (Factory t p) type =
    (if map_of (ioProcessorAliases t) type \<noteq> None then True
     else case p of Some f \<Rightarrow> hasIOProcessor f type | None \<Rightarrow> False)"

definition actualNameSpace :: "string \<Rightarrow> string" where
  "actualNameSpace ns = (if length ns = 0 then ''http://www.w3.org/2005/07/scxml'' else ns)"

fun hasExecutableContent :: "('c, 'd, 'i, 'v, 'x) factory \<Rightarrow> string \<Rightarrow> string \<Rightarrow> bool" where
  "hasExecutableContent (Factory t p) localName nameSpace =
    (if map_of (executableContent t) (localName, actualNameSpace nameSpace) \<noteq> None then True
     else case p of Some f \<Rightarrow> hasExecutableContent f localName nameSpace | None \<Rightarrow> False)"

text \<open>
  The result of a creation is the instance or the error event that is thrown; \<open>uid\<close> is the identifier of a
  new event. \<open>proto_of\<close> is the step that all of them share: the name is looked up as an alias, the alias among the prototypes.
\<close>

definition proto_of :: "aliases \<Rightarrow> ('c, 'i) protos \<Rightarrow> string \<Rightarrow> ('c, 'i) prototype option" where
  "proto_of as ps type =
    (case map_of as type of None \<Rightarrow> None | Some canonicalName \<Rightarrow> map_of ps canonicalName)"

abbreviation unknown_plugin :: "string \<Rightarrow> nat \<Rightarrow> string \<Rightarrow> string \<Rightarrow> Event" where
  "unknown_plugin uid line kind type \<equiv>
     ERROR_EXECUTION uid (''Factory.cpp'', line) (''No '' @ kind @ '' '' @ [CHR 0x27] @ type @ [CHR 0x27] @ '' known'')"

fun createInvoker :: "string \<Rightarrow> ('c, 'd, 'i, 'v, 'x) factory \<Rightarrow> string \<Rightarrow> 'c \<Rightarrow> Event + 'v" where
  "createInvoker uid (Factory t p) type callbacks =
    (case proto_of (invokerAliases t) (invokers t) type of
       Some invoker \<Rightarrow> Inr (create invoker callbacks)
     | None \<Rightarrow> (case p of
         Some f \<Rightarrow> createInvoker uid f type callbacks
       | None \<Rightarrow> Inl (unknown_plugin uid 431 ''Invoker named'' type)))"

fun createDataModel :: "string \<Rightarrow> ('c, 'd, 'i, 'v, 'x) factory \<Rightarrow> string \<Rightarrow> 'c \<Rightarrow> Event + 'd" where
  "createDataModel uid (Factory t p) type callbacks =
    (case proto_of (dataModelAliases t) (dataModels t) type of
       Some dataModel \<Rightarrow> Inr (create dataModel callbacks)
     | None \<Rightarrow> (case p of
         Some f \<Rightarrow> createDataModel uid f type callbacks
       | None \<Rightarrow> Inl (unknown_plugin uid 462 ''Datamodel name'' type)))"

fun createIOProcessor :: "string \<Rightarrow> ('c, 'd, 'i, 'v, 'x) factory \<Rightarrow> string \<Rightarrow> 'c \<Rightarrow> Event + 'i" where
  "createIOProcessor uid (Factory t p) type callbacks =
    (case proto_of (ioProcessorAliases t) (ioProcessors t) type of
       Some ioProc \<Rightarrow> Inr (create ioProc callbacks)
     | None \<Rightarrow> (case p of
         Some f \<Rightarrow> createIOProcessor uid f type callbacks
       | None \<Rightarrow> Inl (unknown_plugin uid 493 ''IOProcessor named'' type)))"

fun createExecutableContent ::
  "string \<Rightarrow> ('c, 'd, 'i, 'v, 'x) factory \<Rightarrow> string \<Rightarrow> string \<Rightarrow> 'c \<Rightarrow> Event + 'x" where
  "createExecutableContent uid (Factory t p) localName nameSpace interpreter =
    (case map_of (executableContent t) (localName, actualNameSpace nameSpace) of
       Some execContent \<Rightarrow> Inr (createContent execContent interpreter)
     | None \<Rightarrow> (case p of
         Some f \<Rightarrow> createExecutableContent uid f localName nameSpace interpreter
       | None \<Rightarrow> Inl (ERROR_EXECUTION uid (''Factory.cpp'', 522)
           (''No Executable content name '' @ [CHR 0x27] @ localName @ [CHR 0x27] @ '' in namespace '' @
            [CHR 0x27] @ actualNameSpace nameSpace @ [CHR 0x27] @ '' known''))))"

text \<open>\<open>map::insert\<close> keeps an entry that is present, so the prototypes of the parents come first.\<close>

definition insert_absent :: "(string \<times> 'v) list \<Rightarrow> (string \<times> 'v) list \<Rightarrow> (string \<times> 'v) list" where
  "insert_absent m new = foldl (\<lambda>a (k, v). if map_of a k = None then alist_put str_less k v a else a) m new"

fun getIOProcessors :: "('c, 'd, 'i, 'v, 'x) factory \<Rightarrow> ('c, 'i) protos" where
  "getIOProcessors (Factory t p) =
     insert_absent (case p of Some f \<Rightarrow> getIOProcessors f | None \<Rightarrow> []) (ioProcessors t)"

subsection \<open>One kind of plugin\<close>

text \<open>
  Data models, I/O processors and invokers are kept in the same way. The locale states what is common to a
  kind: \<open>als\<close> and \<open>prs\<close> are its two maps, \<open>reg\<close>, \<open>has\<close> and \<open>mk\<close> its operations.
\<close>

fun aliases_ok ::
  "(('c, 'd, 'i, 'v, 'x) plugin_tables \<Rightarrow> aliases) \<Rightarrow> (('c, 'd, 'i, 'v, 'x) plugin_tables \<Rightarrow> ('c, 'p) protos) \<Rightarrow>
   ('c, 'd, 'i, 'v, 'x) factory \<Rightarrow> bool" where
  "aliases_ok als prs (Factory t p) \<longleftrightarrow>
     (\<forall>n c. map_of (als t) n = Some c \<longrightarrow> map_of (prs t) c \<noteq> None) \<and>
     (case p of None \<Rightarrow> True | Some g \<Rightarrow> aliases_ok als prs g)"

locale plugin_kind =
  fixes als :: "('c, 'd, 'i, 'v, 'x) plugin_tables \<Rightarrow> aliases"
    and prs :: "('c, 'd, 'i, 'v, 'x) plugin_tables \<Rightarrow> ('c, 'p) protos"
    and reg :: "('c, 'p) prototype \<Rightarrow> ('c, 'd, 'i, 'v, 'x) factory \<Rightarrow> ('c, 'd, 'i, 'v, 'x) factory"
    and has :: "('c, 'd, 'i, 'v, 'x) factory \<Rightarrow> string \<Rightarrow> bool"
    and mk :: "string \<Rightarrow> ('c, 'd, 'i, 'v, 'x) factory \<Rightarrow> string \<Rightarrow> 'c \<Rightarrow> Event + 'p"
    and err :: "string \<Rightarrow> string \<Rightarrow> Event"
  assumes reg_nameless: "getNames p = [] \<Longrightarrow> reg p f = f"
    and reg_aliases: "getNames p = c # ns \<Longrightarrow>
      map_of (als (own (reg p f))) n = (if n \<in> set (getNames p) then Some c else map_of (als (own f)) n)"
    and reg_protos: "getNames p = c # ns \<Longrightarrow> map_of (prs (own (reg p f))) = (map_of (prs (own f)))(c \<mapsto> p)"
    and reg_parent: "parentFactory (reg p f) = parentFactory f"
    and has_rec: "has f n \<longleftrightarrow> map_of (als (own f)) n \<noteq> None \<or> (\<exists>g. parentFactory f = Some g \<and> has g n)"
    and mk_rec: "mk uid f n cb =
      (case proto_of (als (own f)) (prs (own f)) n of
         Some p \<Rightarrow> Inr (create p cb)
       | None \<Rightarrow> (case parentFactory f of Some g \<Rightarrow> mk uid g n cb | None \<Rightarrow> Inl (err uid n)))"
begin

lemma ok_iff: "aliases_ok als prs f \<longleftrightarrow>
    (\<forall>n c. map_of (als (own f)) n = Some c \<longrightarrow> map_of (prs (own f)) c \<noteq> None) \<and>
    (\<forall>g. parentFactory f = Some g \<longrightarrow> aliases_ok als prs g)"
  by (cases f) (auto split: option.splits)

lemma ok_reg: "aliases_ok als prs f \<Longrightarrow> aliases_ok als prs (reg p f)"
proof (cases "getNames p")
  case (Cons c ns)
  assume "aliases_ok als prs f"
  then show ?thesis
    unfolding ok_iff [of f] ok_iff [of "reg p f"] reg_aliases [OF Cons] reg_protos [OF Cons] reg_parent by auto
qed (simp add: reg_nameless)

lemma has_reg: "has (reg p f) n \<longleftrightarrow> n \<in> set (getNames p) \<or> has f n"
proof (cases "getNames p")
  case (Cons c ns)
  show ?thesis
    unfolding has_rec [of f] has_rec [of "reg p f"] reg_aliases [OF Cons] reg_parent by auto
qed (simp add: reg_nameless)

lemma mk_reg:
  assumes "n \<in> set (getNames p)"
  shows "mk uid (reg p f) n cb = Inr (create p cb)"
proof -
  obtain c ns where Cons: "getNames p = c # ns" using assms by (cases "getNames p") auto
  show ?thesis
    using assms by (simp add: mk_rec [of _ "reg p f"] proto_of_def reg_aliases [OF Cons] reg_protos [OF Cons])
qed

text \<open>Names of other plugins keep their meaning, unless they are aliases of the new canonical name.\<close>

lemma mk_other:
  assumes "n \<notin> set (getNames p)" and "map_of (als (own f)) n \<noteq> Some (hd (getNames p))"
  shows "mk uid (reg p f) n cb = mk uid f n cb"
proof (cases "getNames p")
  case (Cons c ns)
  have "proto_of (als (own (reg p f))) (prs (own (reg p f))) n = proto_of (als (own f)) (prs (own f)) n"
    using assms Cons unfolding proto_of_def reg_aliases [OF Cons] reg_protos [OF Cons]
    by (auto split: option.splits)
  then show ?thesis unfolding mk_rec [of _ "reg p f"] mk_rec [of _ f] reg_parent by simp
qed (simp add: reg_nameless)

lemma mk_alias:
  assumes "getNames p \<noteq> []" and "map_of (als (own f)) n = Some (hd (getNames p))"
  shows "mk uid (reg p f) n cb = Inr (create p cb)"
proof -
  obtain c ns where Cons: "getNames p = c # ns" using assms(1) by (cases "getNames p") auto
  show ?thesis
    using assms Cons by (simp add: mk_rec [of _ "reg p f"] proto_of_def reg_aliases [OF Cons] reg_protos [OF Cons])
qed

lemma mk_effect: "mk uid (reg p f) n cb =
    (if n \<in> set (getNames p) \<or> getNames p \<noteq> [] \<and> map_of (als (own f)) n = Some (hd (getNames p))
     then Inr (create p cb) else mk uid f n cb)"
proof (cases "getNames p = []")
  case False
  then show ?thesis
    using mk_reg [of n p uid f cb] mk_alias [of p f n uid cb] mk_other [of n p f uid cb] by argo
qed (simp add: reg_nameless)

lemma has_iff_mk: "aliases_ok als prs f \<Longrightarrow> has f n \<longleftrightarrow> (\<exists>i. mk uid f n cb = Inr i)"
proof (induction f)
  case (Factory t p)
  have own: "map_of (als t) n \<noteq> None \<longleftrightarrow> proto_of (als t) (prs t) n \<noteq> None"
    using Factory.prems by (auto simp: proto_of_def split: option.splits)
  show ?case
  proof (cases p)
    case None
    then show ?thesis
      using own by (auto simp: has_rec [of "Factory t q" for q] mk_rec [of _ "Factory t q" for q] split: option.splits)
  next
    case (Some g)
    then have "has g n \<longleftrightarrow> (\<exists>i. mk uid g n cb = Inr i)" using Factory by simp
    then show ?thesis
      using own Some by (auto simp: has_rec [of "Factory t q" for q] mk_rec [of _ "Factory t q" for q] split: option.splits)
  qed
qed

lemma mk_fails: "aliases_ok als prs f \<Longrightarrow> \<not> has f n \<Longrightarrow> mk uid f n cb = Inl (err uid n)"
proof (induction f)
  case (Factory t p)
  then show ?case
    by (auto simp: has_rec [of "Factory t q" for q] mk_rec [of _ "Factory t q" for q] proto_of_def split: option.splits)
qed

end

lemma map_of_put_aliases: "map_of (put_aliases names c as) n = (if n \<in> set names then Some c else map_of as n)"
proof (induction names arbitrary: as)
  case (Cons a names)
  then show ?case by (simp add: put_aliases_def)
qed (simp add: put_aliases_def)

lemma own_update [simp]: "own (update_own g f) = g (own f)" "parentFactory (update_own g f) = parentFactory f"
  by (cases f; simp)+

lemma hasInvoker_rec: "hasInvoker f n \<longleftrightarrow>
    map_of (invokerAliases (own f)) n \<noteq> None \<or> (\<exists>g. parentFactory f = Some g \<and> hasInvoker g n)"
  by (cases f) (auto split: option.splits)

interpretation inv: plugin_kind invokerAliases invokers registerInvoker hasInvoker createInvoker
  "\<lambda>uid n. unknown_plugin uid 431 ''Invoker named'' n"
proof (unfold_locales, goal_cases)
  case (6 uid f n cb)
  show ?case by (cases f) (simp split: option.split)
next
  case (5 f n)
  show ?case by (rule hasInvoker_rec)
qed (auto simp: registerInvoker_def map_of_put_aliases split: list.splits)

lemma hasDataModel_rec: "hasDataModel f n \<longleftrightarrow>
    map_of (dataModelAliases (own f)) n \<noteq> None \<or> (\<exists>g. parentFactory f = Some g \<and> hasDataModel g n)"
  by (cases f) (auto split: option.splits)

interpretation dms: plugin_kind dataModelAliases dataModels registerDataModel hasDataModel createDataModel
  "\<lambda>uid n. unknown_plugin uid 462 ''Datamodel name'' n"
proof (unfold_locales, goal_cases)
  case (6 uid f n cb)
  show ?case by (cases f) (simp split: option.split)
next
  case (5 f n)
  show ?case by (rule hasDataModel_rec)
qed (auto simp: registerDataModel_def map_of_put_aliases split: list.splits)

lemma hasIOProcessor_rec: "hasIOProcessor f n \<longleftrightarrow>
    map_of (ioProcessorAliases (own f)) n \<noteq> None \<or> (\<exists>g. parentFactory f = Some g \<and> hasIOProcessor g n)"
  by (cases f) (auto split: option.splits)

interpretation iop: plugin_kind ioProcessorAliases ioProcessors registerIOProcessor hasIOProcessor createIOProcessor
  "\<lambda>uid n. unknown_plugin uid 493 ''IOProcessor named'' n"
proof (unfold_locales, goal_cases)
  case (6 uid f n cb)
  show ?case by (cases f) (simp split: option.split)
next
  case (5 f n)
  show ?case by (rule hasIOProcessor_rec)
qed (auto simp: registerIOProcessor_def map_of_put_aliases split: list.splits)

subsection \<open>Factories that are built by registrations\<close>

inductive built :: "('c, 'd, 'i, 'v, 'x) factory \<Rightarrow> bool" where
  root: "built (Factory_new None)"
| child: "built f \<Longrightarrow> built (Factory_new (Some f))"
| dataModel: "built f \<Longrightarrow> built (registerDataModel d f)"
| ioProcessor: "built f \<Longrightarrow> built (registerIOProcessor i f)"
| invoker: "built f \<Longrightarrow> built (registerInvoker v f)"
| content: "built f \<Longrightarrow> built (registerExecutableContent x f)"

lemma aliases_ok_other:
  assumes "als (own f') = als (own f)" and "prs (own f') = prs (own f)" and "parentFactory f' = parentFactory f"
  shows "aliases_ok als prs f' = aliases_ok als prs f"
  using assms by (cases f; cases f') simp

lemma register_frame:
  "invokerAliases (own (registerDataModel d f)) = invokerAliases (own f)"
  "invokers (own (registerDataModel d f)) = invokers (own f)"
  "ioProcessorAliases (own (registerDataModel d f)) = ioProcessorAliases (own f)"
  "ioProcessors (own (registerDataModel d f)) = ioProcessors (own f)"
  "invokerAliases (own (registerIOProcessor i f)) = invokerAliases (own f)"
  "invokers (own (registerIOProcessor i f)) = invokers (own f)"
  "dataModelAliases (own (registerIOProcessor i f)) = dataModelAliases (own f)"
  "dataModels (own (registerIOProcessor i f)) = dataModels (own f)"
  "dataModelAliases (own (registerInvoker v f)) = dataModelAliases (own f)"
  "dataModels (own (registerInvoker v f)) = dataModels (own f)"
  "ioProcessorAliases (own (registerInvoker v f)) = ioProcessorAliases (own f)"
  "ioProcessors (own (registerInvoker v f)) = ioProcessors (own f)"
  by (simp_all add: registerDataModel_def registerIOProcessor_def registerInvoker_def split: list.splits)

lemma built_ok:
  assumes "built f"
  shows "aliases_ok invokerAliases invokers f \<and> aliases_ok dataModelAliases dataModels f \<and>
    aliases_ok ioProcessorAliases ioProcessors f"
  using assms
proof (induction rule: built.induct)
  case (dataModel f d)
  then show ?case
    using dms.ok_reg aliases_ok_other [of _ "registerDataModel d f" f]
    by (metis register_frame(1-4) dms.reg_parent)
next
  case (ioProcessor f i)
  then show ?case
    using iop.ok_reg aliases_ok_other [of _ "registerIOProcessor i f" f]
    by (metis register_frame(5-8) iop.reg_parent)
next
  case (invoker f v)
  then show ?case
    using inv.ok_reg aliases_ok_other [of _ "registerInvoker v f" f]
    by (metis register_frame(9-12) inv.reg_parent)
next
  case (content f x)
  then show ?case by (simp add: registerExecutableContent_def aliases_ok_other [of _ "update_own g f" f for g])
qed (simp_all add: Factory_new_def no_tables_def)

lemma content_has_iff_create:
  "hasExecutableContent f l ns \<longleftrightarrow> (\<exists>x. createExecutableContent uid f l ns cb = Inr x)"
  by (induction f) (auto split: option.splits)

lemma built_foldl: "built f \<Longrightarrow> (\<And>g t. built g \<Longrightarrow> built (h g t)) \<Longrightarrow> built (foldl h f ts)"
  by (induction ts arbitrary: f) auto

lemma built_custom: "built f \<Longrightarrow> built (registerCustomPlugins builtin types f)"
  unfolding registerCustomPlugins_def
  by (rule built_foldl) (auto simp: registerPlugin_def intro: built.intros split: option.splits plugin.splits)

lemma built_creates:
  assumes "built f"
  shows "(hasInvoker f n \<longleftrightarrow> (\<exists>i. createInvoker uid f n cb = Inr i)) \<and>
    (hasDataModel f n \<longleftrightarrow> (\<exists>i. createDataModel uid f n cb = Inr i)) \<and>
    (hasIOProcessor f n \<longleftrightarrow> (\<exists>i. createIOProcessor uid f n cb = Inr i)) \<and>
    (hasExecutableContent f n ns \<longleftrightarrow> (\<exists>i. createExecutableContent uid f n ns cb = Inr i))"
  using built_ok [OF assms] inv.has_iff_mk [of f n uid cb] dms.has_iff_mk [of f n uid cb] iop.has_iff_mk [of f n uid cb]
    content_has_iff_create [of f n ns uid cb] by argo

text \<open>
  In every factory that is built by registrations, whatever its parents, \<open>has\<close> and \<open>create\<close> agree for the
  four kinds of plugins: a creation succeeds exactly for the names the factory claims to know, so
  that a document that passes the checks for unknown types does not fail when its plugins are created.
\<close>

theorem factory_has_creates:
  assumes "built f"
  shows "(hasInvoker f n \<longleftrightarrow> (\<exists>i. createInvoker uid f n cb = Inr i)) \<and>
    (hasDataModel f n \<longleftrightarrow> (\<exists>i. createDataModel uid f n cb = Inr i)) \<and>
    (hasIOProcessor f n \<longleftrightarrow> (\<exists>i. createIOProcessor uid f n cb = Inr i)) \<and>
    (hasExecutableContent f n ns \<longleftrightarrow> (\<exists>i. createExecutableContent uid f n ns cb = Inr i))"
  by (rule built_creates [OF assms])

definition sample_factory :: "(unit, string, string, string, string) factory" where
  "sample_factory = registerInvoker \<lparr>getNames = [''scxml'', ''uscxml''], create = (\<lambda>_. ''inv'')\<rparr>
     (Factory_new (Some (registerDataModel \<lparr>getNames = [''null''], create = (\<lambda>_. ''dm'')\<rparr> (Factory_new None))))"

theorem factory_has_creates_witness:
  "hasInvoker sample_factory ''uscxml'' \<and> \<not> hasInvoker sample_factory ''null'' \<and>
   (\<exists>i. createDataModel [] sample_factory ''null'' () = Inr i)"
proof -
  have "built sample_factory" by (simp add: sample_factory_def built.intros)
  moreover have "hasInvoker sample_factory ''uscxml''" "\<not> hasInvoker sample_factory ''null''"
    "hasDataModel sample_factory ''null''" by code_simp+
  ultimately show ?thesis
    using factory_has_creates [of sample_factory "''null''" "[]" "()" "[]"] by blast
qed

text \<open>
  After an invoker is registered all its names create it, also those that stood for other plugins;
  a name of none of its own keeps its meaning unless it was an alias of the new canonical name.
\<close>

theorem register_invoker_effect:
  "createInvoker uid (registerInvoker p f) n cb =
    (if n \<in> set (getNames p) \<or> getNames p \<noteq> [] \<and> map_of (invokerAliases (own f)) n = Some (hd (getNames p))
     then Inr (create p cb) else createInvoker uid f n cb)"
  by (rule inv.mk_effect)

text \<open>All plugins at once is the same as the plugin type for all of them.\<close>

theorem custom_plugins_all: "registerCustomPlugins builtin {ptALL} f = registerPlugins builtin f"
  by (simp add: registerCustomPlugins_def registerPlugins_def)

end
