(* ===== verification/Issues.thy ===== *)
theory Issues
  imports Reachability Factory
begin

text \<open>
  The issue checker, \<open>InterpreterIssue::forInterpreter\<close> of
  \<open>src/src/uscxml/debug/InterpreterIssue.cpp\<close>, with \<open>setupDOM\<close> of \<open>InterpreterImpl.cpp\<close>, which it calls first.
  The function only appends to its list of issues, so each of its sections is a definition that returns the
  issues it appends; the loop over the states also returns the map \<open>seenStates\<close> that the
  later sections read. A section that dereferences a null pointer makes the whole result \<open>Null_Pointer\<close>.
\<close>

subsection \<open>Issues\<close>

datatype IssueSeverity = USCXML_ISSUE_FATAL | USCXML_ISSUE_WARNING | USCXML_ISSUE_INFO

record InterpreterIssue =
  xPath :: string
  message :: string
  issue_node :: "node option"
  severity :: IssueSeverity
  specRef :: string

definition InterpreterIssue_new :: "node \<Rightarrow> string \<Rightarrow> node option \<Rightarrow> IssueSeverity \<Rightarrow> InterpreterIssue" where
  "InterpreterIssue_new doc msg n sev =
     \<lparr>xPath = (case n of None \<Rightarrow> [] | Some x \<Rightarrow> xPathForNode doc x []), message = msg, issue_node = n,
      severity = sev, specRef = []\<rparr>"

definition show_issue :: "InterpreterIssue \<Rightarrow> string" where
  "show_issue issue =
    (case severity issue of
       USCXML_ISSUE_FATAL \<Rightarrow> ''Issue (FATAL) ''
     | USCXML_ISSUE_WARNING \<Rightarrow> ''Issue (WARNING) ''
     | USCXML_ISSUE_INFO \<Rightarrow> ''Issue (INFO) '') @
    (if length (xPath issue) > 0 then ''at '' @ xPath issue @ '': '' else '': '') @ message issue"

text \<open>The pattern \<open>if (c) issues.push_back(...)\<close> for the three severities, and a quoted name.\<close>

definition issue_if :: "node \<Rightarrow> IssueSeverity \<Rightarrow> node \<Rightarrow> bool \<Rightarrow> string \<Rightarrow> InterpreterIssue list" where
  "issue_if doc sev n c msg = (if c then [InterpreterIssue_new doc msg (Some n) sev] else [])"

abbreviation fatal_if :: "node \<Rightarrow> node \<Rightarrow> bool \<Rightarrow> string \<Rightarrow> InterpreterIssue list" where
  "fatal_if doc \<equiv> issue_if doc USCXML_ISSUE_FATAL"

abbreviation warn_if :: "node \<Rightarrow> node \<Rightarrow> bool \<Rightarrow> string \<Rightarrow> InterpreterIssue list" where
  "warn_if doc \<equiv> issue_if doc USCXML_ISSUE_WARNING"

abbreviation info_if :: "node \<Rightarrow> node \<Rightarrow> bool \<Rightarrow> string \<Rightarrow> InterpreterIssue list" where
  "info_if doc \<equiv> issue_if doc USCXML_ISSUE_INFO"

definition quote :: "string \<Rightarrow> string" where
  "quote s = [CHR 0x27] @ s @ [CHR 0x27]"

subsection \<open>Node sets\<close>

type_synonym node_sets = "string \<Rightarrow> node list"

fun assembleNodeSets :: "string \<Rightarrow> node \<Rightarrow> node_sets \<Rightarrow> node_sets" where
  "assembleNodeSets nsPrefix (Element i p l ns as cs) sets =
     foldl (\<lambda>sets childElem.
       if isElement childElem then
         assembleNodeSets nsPrefix childElem
           (if prefix nsPrefix (TAGNAME childElem)
            then sets(LOCALNAME childElem := sets (LOCALNAME childElem) @ [childElem]) else sets)
       else sets) sets cs"
| "assembleNodeSets nsPrefix _ sets = sets"

definition scxmls_of :: "node \<Rightarrow> node_sets \<Rightarrow> node list" where
  "scxmls_of scxml sets = sets ''scxml'' @ [scxml]"

definition allStates :: "node_sets \<Rightarrow> node list" where
  "allStates sets = sets ''state'' @ sets ''parallel'' @ sets ''history'' @ sets ''final''"

definition allExecContents :: "node_sets \<Rightarrow> node list" where
  "allExecContents sets = sets ''raise'' @ sets ''if'' @ sets ''elseif'' @ sets ''else'' @ sets ''foreach'' @
     sets ''log'' @ sets ''send'' @ sets ''assign'' @ sets ''script'' @ sets ''cancel''"

definition allElements :: "node \<Rightarrow> node_sets \<Rightarrow> node list" where
  "allElements scxml sets = scxmls_of scxml sets @ allStates sets @ allExecContents sets @ sets ''transition'' @
     sets ''initial'' @ sets ''onentry'' @ sets ''onexit'' @ sets ''datamodel'' @ sets ''data'' @
     sets ''donedata'' @ sets ''content'' @ sets ''param'' @ sets ''invoke'' @ sets ''finalize''"

definition execContentSet :: "string list" where
  "execContentSet = [''if'', ''elseif'', ''else'', ''foreach'', ''raise'', ''send'', ''cancel'', ''assign'', ''script'', ''log'']"

text \<open>Required attributes, in the order of \<open>std::set\<close>.\<close>

definition reqAttr :: "(string \<times> string list) list" where
  "reqAttr = [(''scxml'', [''version'', ''xmlns'']), (''raise'', [''event'']), (''if'', [''cond'']),
     (''elseif'', [''cond'']), (''foreach'', [''array'', ''item'']), (''data'', [''id'']),
     (''assign'', [''location'']), (''param'', [''name''])]"

definition validChildren :: "(string \<times> string list) list" where
  "validChildren =
    [(''scxml'', [''state'', ''parallel'', ''final'', ''datamodel'', ''script'']),
     (''state'', [''onentry'', ''onexit'', ''transition'', ''state'', ''parallel'', ''history'', ''datamodel'',
        ''invoke'', ''initial'', ''final'']),
     (''parallel'', [''onentry'', ''onexit'', ''transition'', ''state'', ''parallel'', ''history'', ''datamodel'', ''invoke'']),
     (''transition'', execContentSet), (''onentry'', execContentSet), (''onexit'', execContentSet),
     (''finalize'', execContentSet), (''if'', execContentSet), (''elseif'', execContentSet),
     (''else'', execContentSet), (''foreach'', execContentSet),
     (''initial'', [''transition'']), (''history'', [''transition'']),
     (''final'', [''onentry'', ''onexit'', ''donedata'']), (''datamodel'', [''data'']),
     (''donedata'', [''content'', ''param'']), (''send'', [''content'', ''param'']),
     (''invoke'', [''content'', ''param'', ''finalize''])]"

definition validParents :: "string \<Rightarrow> string list" where
  "validParents child = map fst (filter (\<lambda>(parent, children). child \<in> set children) validChildren)"

subsection \<open>Configurations\<close>

text \<open>
  \<open>getAllConfigurations\<close>: the prefix is used without a colon, and names of children are compared without
  regard to case. \<open>conf_child\<close> is the test for a nested state.
\<close>

definition conf_child :: "node \<Rightarrow> node \<Rightarrow> bool" where
  "conf_child root c =
    (let nsPrefix = (case prefix_of root of None \<Rightarrow> [] | Some p \<Rightarrow> p) in
     isElement c \<and> (iequals (TAGNAME c) (nsPrefix @ ''state'') \<or> iequals (TAGNAME c) (nsPrefix @ ''parallel'') \<or>
       iequals (TAGNAME c) (nsPrefix @ ''final'')))"

text \<open>One round of the loop, for a child with its configurations; the flag is \<open>isAtomic\<close>.\<close>

definition conf_step :: "node \<Rightarrow> node set list \<times> bool \<Rightarrow> node \<times> node set list \<Rightarrow> node set list \<times> bool" where
  "conf_step root = (\<lambda>(allConfigurations, atomic) (childElem, nestedConfigurations).
    (let localName = LOCALNAME root in
     if conf_child root childElem then
       (if localName = ''parallel'' \<and> length allConfigurations > 0
        then concat (map (\<lambda>existingConfig. map (\<lambda>newConfig. existingConfig \<union> newConfig) nestedConfigurations)
               allConfigurations)
        else allConfigurations @
          map (\<lambda>newConfig. if localName \<noteq> ''scxml'' then insert root newConfig else newConfig) nestedConfigurations,
        False)
     else (allConfigurations, atomic)))"

fun getAllConfigurations :: "node \<Rightarrow> node set list" where
  "getAllConfigurations (Element i p l ns as cs) =
    (let root = Element i p l ns as cs;
         (allConfigurations, atomic) = foldl (conf_step root) ([], True) (map (\<lambda>c. (c, getAllConfigurations c)) cs)
     in if atomic then allConfigurations @ [{root}] else allConfigurations)"
| "getAllConfigurations n = [{n}]"

text \<open>Two states of a target set are compatible when one contains the other or some common ancestor is parallel.\<close>

definition compatible :: "node \<Rightarrow> node \<Rightarrow> node \<Rightarrow> bool" where
  "compatible doc s1 s2 =
    (isDescendant doc (Some s1) (Some s2) \<or> isDescendant doc (Some s2) (Some s1) \<or>
     list_ex (\<lambda>parent. isDescendant doc (Some s2) (Some parent) \<and> isParallel parent)
       (takeWhile isElement (parents doc s1)))"

fun pairs_compatible :: "node \<Rightarrow> node list \<Rightarrow> bool" where
  "pairs_compatible doc [] = True"
| "pairs_compatible doc (s1 # rest) = (list_all (compatible doc s1) rest \<and> pairs_compatible doc rest)"

definition hasLegalCompletion :: "node \<Rightarrow> node list \<Rightarrow> bool" where
  "hasLegalCompletion doc states = (if length states < 2 then True else pairs_compatible doc states)"

subsection \<open>States\<close>

definition sInterpreter :: "node \<Rightarrow> node \<Rightarrow> string" where
  "sInterpreter doc n =
    (case getScxmlNode doc n of
       Some scxmlRoot \<Rightarrow> if HAS_ATTR scxmlRoot ''name'' then ''['' @ ATTR scxmlRoot ''name'' @ '']: '' else []
     | None \<Rightarrow> [])"

abbreviation transitions_in :: "node \<Rightarrow> bool \<Rightarrow> node list" where
  "transitions_in n recurse \<equiv> filterChildElements (XML_PREFIX n @ ''transition'') n recurse"

definition history_target_issues :: "node \<Rightarrow> node \<Rightarrow> string \<Rightarrow> node \<Rightarrow> node \<Rightarrow> InterpreterIssue list" where
  "history_target_issues doc scxml pre state transition =
     concat (map (\<lambda>target.
       if HAS_ATTR state ''type'' \<and> ATTR state ''type'' = ''deep''
       then fatal_if doc transition (\<not> isDescendant doc (Some target) (getParentNode doc state))
         (pre @ ''Transition in deep history pseudo-state '' @ quote (ATTR state ''id'') @ '' has illegal target state '' @ quote (ATTR target ''id''))
       else fatal_if doc transition (\<not> same_opt (getParentNode doc target) (getParentNode doc state))
         (pre @ ''Transition in shallow history pseudo-state '' @ quote (ATTR state ''id'') @ '' has illegal target state '' @ quote (ATTR target ''id'')))
       (getTargetStates transition scxml))"

definition history_issues :: "node \<Rightarrow> node \<Rightarrow> string \<Rightarrow> node \<Rightarrow> InterpreterIssue list" where
  "history_issues doc scxml pre state =
    (case transitions_in state False of
       [] \<Rightarrow> fatal_if doc state True (pre @ ''History pseudo-state with id '' @ quote (ATTR state ''id'') @ '' has no default transition'')
     | [transition] \<Rightarrow>
         fatal_if doc transition (HAS_ATTR transition ''cond'')
           (pre @ ''Transition in history pseudo-state '' @ quote (ATTR state ''id'') @ '' must not have a condition'') @
         fatal_if doc transition (HAS_ATTR transition ''event'')
           (pre @ ''Transition in history pseudo-state '' @ quote (ATTR state ''id'') @ '' must not have an event attribute'') @
         (if \<not> HAS_ATTR transition ''target''
          then fatal_if doc transition True
            (pre @ ''Transition in history pseudo-state '' @ quote (ATTR state ''id'') @ '' has no target'')
          else history_target_issues doc scxml pre state transition)
     | _ \<Rightarrow> fatal_if doc state True (pre @ ''History pseudo-state with id '' @ quote (ATTR state ''id'') @ '' has multiple transitions''))"

type_synonym seen_states = "string \<rightharpoonup> node"
type_synonym reach_map = "(node \<times> node list) list"

definition reach_find :: "reach_map \<Rightarrow> node option \<Rightarrow> node list option" where
  "reach_find reachable r =
    (case r of None \<Rightarrow> None | Some x \<Rightarrow> map_option snd (List.find (\<lambda>(n, _). same n x) (rev reachable)))"

definition unreachable_issues :: "node \<Rightarrow> reach_map \<Rightarrow> string \<Rightarrow> node \<Rightarrow> InterpreterIssue list" where
  "unreachable_issues doc reachable pre state =
    (case reach_find reachable (getScxmlNode doc state) of
       None \<Rightarrow> []
     | Some sameReachable \<Rightarrow> warn_if doc state (\<not> isMember state sameReachable)
         (pre @ ''State with id '' @ quote (ATTR state ''id'') @ '' is unreachable''))"

definition is_duplicate :: "node \<Rightarrow> seen_states \<Rightarrow> node \<Rightarrow> bool" where
  "is_duplicate doc seenStates state =
    (case seenStates (ATTR state ''id'') of None \<Rightarrow> False | Some other \<Rightarrow> areFromSameMachine doc other state)"

definition state_step ::
  "node \<Rightarrow> node \<Rightarrow> node_sets \<Rightarrow> reach_map \<Rightarrow> InterpreterIssue list \<times> seen_states \<Rightarrow> node \<Rightarrow> InterpreterIssue list \<times> seen_states" where
  "state_step doc scxml sets reachable = (\<lambda>(issues, seenStates) state.
    (let pre = sInterpreter doc state; stateId = ATTR state ''id'' in
     if isMember state (sets ''final'') \<and> \<not> HAS_ATTR state ''id'' then (issues, seenStates)
     else if \<not> HAS_ATTR state ''id''
     then (issues @ fatal_if doc state True (pre @ ''State has no 'id' attribute''), seenStates)
     else if length stateId = 0
     then (issues @ fatal_if doc state True (pre @ ''State has empty 'id' attribute''), seenStates)
     else
       (let issues1 = issues @ (if LOCALNAME state = ''history'' then history_issues doc scxml pre state else []) @
              unreachable_issues doc reachable pre state in
        if is_duplicate doc seenStates state
        then (issues1 @ fatal_if doc state True (pre @ ''Duplicate state with id '' @ quote stateId), seenStates)
        else (issues1, seenStates(stateId \<mapsto> state)))))"

definition check_states ::
  "node \<Rightarrow> node \<Rightarrow> node_sets \<Rightarrow> reach_map \<Rightarrow> InterpreterIssue list \<times> seen_states" where
  "check_states doc scxml sets reachable =
     foldl (state_step doc scxml sets reachable) ([], Map.empty) (allStates sets)"

subsection \<open>Transitions\<close>

definition transition_issues :: "node \<Rightarrow> seen_states \<Rightarrow> node \<Rightarrow> InterpreterIssue list" where
  "transition_issues doc seenStates transition =
    (let pre = sInterpreter doc transition; targetIds = tokens (ATTR transition ''target'') in
     if HAS_ATTR transition ''target'' then
       fatal_if doc transition (targetIds = []) (pre @ ''Transition has empty target state list'') @
       concat (map (\<lambda>i. fatal_if doc transition (seenStates i = None)
         (pre @ ''Transition has non-existant target state with id '' @ quote i)) targetIds)
     else [])"

text \<open>Will the earlier transition always be enabled when the later is?\<close>

definition always_before :: "node \<Rightarrow> node \<Rightarrow> bool" where
  "always_before earlierTransition transition =
    (\<not> HAS_ATTR earlierTransition ''cond'' \<and>
     (if \<not> HAS_ATTR earlierTransition ''event'' then True
      else if HAS_ATTR transition ''event''
      then list_all (\<lambda>e. nameMatch (ATTR earlierTransition ''event'') e) (tokens (ATTR transition ''event''))
      else False))"

text \<open>The inner loop over the earlier transitions stops at the first that is always enabled before.\<close>

fun redundant :: "node list \<Rightarrow> node list \<Rightarrow> node list" where
  "redundant earlier [] = []"
| "redundant earlier (t # ts) =
     (if list_ex (\<lambda>e. always_before e t) earlier then [t] else []) @ redundant (earlier @ [t]) ts"

definition redundancy_issues :: "node \<Rightarrow> node \<Rightarrow> InterpreterIssue list" where
  "redundancy_issues doc state =
     concat (map (\<lambda>t. info_if doc t True ''Transition can never be optimally enabled'')
       (redundant [] (transitions_in state False)))"

subsection \<open>History and initial states\<close>

definition useless_history_issues :: "node \<Rightarrow> node \<Rightarrow> InterpreterIssue list" where
  "useless_history_issues doc history =
    (case getParentNode doc history of
       None \<Rightarrow> []
     | Some parent \<Rightarrow>
         if \<not> isElement parent then []
         else if isAtomic parent
         then info_if doc history True (''Useless history '' @ quote (ATTR history ''id'') @ '' in atomic state'')
         else info_if doc history (length (getAllConfigurations parent) \<le> 1)
           (''Useless history '' @ quote (ATTR history ''id'') @ '' in state with single legal configuration''))"

definition nested_states :: "node \<Rightarrow> node list" where
  "nested_states state =
     filterChildElements (XML_PREFIX state @ ''state'') state True @
     filterChildElements (XML_PREFIX state @ ''parallel'') state True @
     filterChildElements (XML_PREFIX state @ ''final'') state True @
     filterChildElements (XML_PREFIX state @ ''history'') state True"

definition initial_attr_issues :: "node \<Rightarrow> seen_states \<Rightarrow> node \<Rightarrow> InterpreterIssue list" where
  "initial_attr_issues doc seenStates state =
    (if HAS_ATTR state ''initial'' then
       concat (map (\<lambda>i.
         case seenStates i of
           None \<Rightarrow> fatal_if doc state True (''Initial attribute has invalid target state with id '' @ quote i)
         | Some s \<Rightarrow> fatal_if doc state (\<not> isMember s (nested_states state))
             (''Initial attribute references non-child state '' @ quote i))
         (tokens (ATTR state ''initial'')))
     else [])"

text \<open>
  The target sets are kept in a map from element pointers, which is traversed in the order of the addresses \<open>addr\<close>.
\<close>

definition targetIdSets :: "(node \<Rightarrow> nat) \<Rightarrow> node_sets \<Rightarrow> (node \<times> string) list" where
  "targetIdSets addr sets = sort_key (addr \<circ> fst)
     (map (\<lambda>t. (t, ATTR t ''target'')) (filter (\<lambda>t. HAS_ATTR t ''target'') (sets ''transition'' @ sets ''initial'')) @
      map (\<lambda>s. (s, ATTR s ''initial'')) (filter (\<lambda>s. HAS_ATTR s ''initial'') (allStates sets)))"

definition target_set_issues :: "node \<Rightarrow> seen_states \<Rightarrow> node \<times> string \<Rightarrow> InterpreterIssue list" where
  "target_set_issues doc seenStates = (\<lambda>(element, ids).
    (let targetIds = tokens ids in
     if list_ex (\<lambda>i. seenStates i = None) targetIds then []
     else fatal_if doc element (\<not> hasLegalCompletion doc (map (\<lambda>i. the (seenStates i)) targetIds))
       ''Target states cause illegal configuration''))"

text \<open>
  For an unknown identifier \<open>seenStates[id]\<close> inserts a null pointer, which is no member of a list; the map is not
  read by later sections.
\<close>

definition initial_transition_issues :: "node \<Rightarrow> seen_states \<Rightarrow> node \<Rightarrow> InterpreterIssue list" where
  "initial_transition_issues doc seenStates transition =
     fatal_if doc transition (HAS_ATTR transition ''cond'') ''Initial transition cannot have a condition'' @
     fatal_if doc transition (HAS_ATTR transition ''event'') ''Initial transition cannot be eventful'' @
     (case parents doc transition of
        _ # state # _ \<Rightarrow>
          if isElement state \<and> isState state True then
            concat (map (\<lambda>i. fatal_if doc transition
              (case seenStates i of None \<Rightarrow> True | Some s \<Rightarrow> \<not> isMember s (nested_states state))
              (''Target of initial transition references non-child state '' @ quote i)) (tokens (ATTR transition ''target'')))
          else []
      | _ \<Rightarrow> [])"

definition initial_issues :: "node \<Rightarrow> seen_states \<Rightarrow> node_sets \<Rightarrow> InterpreterIssue list" where
  "initial_issues doc seenStates sets =
     concat (map (\<lambda>initial. fatal_if doc initial (length (transitions_in initial True) \<noteq> 1)
       ''Initial element must define exactly one transition'') (sets ''initial'')) @
     concat (map (initial_transition_issues doc seenStates)
       (concat (map (\<lambda>initial. transitions_in initial True) (sets ''initial''))))"

subsection \<open>Plugins\<close>

record syntax_checks =
  isValidScriptSyntax :: "string \<Rightarrow> bool"
  isValidExprSyntax :: "string \<Rightarrow> bool"

text \<open>What the checker reads of an interpreter. A data model is known to it by its syntax checks.\<close>

record ('c, 'i, 'v, 'x) checked =
  ic_factory :: "('c, syntax_checks, 'i, 'v, 'x) factory"
  ic_dataModel :: "syntax_checks option"
  invokerIds :: "string list"
  ioProcs :: "string list"
  ic_callbacks :: 'c

definition invoke_type_issues :: "node \<Rightarrow> ('c, 'i, 'v, 'x) checked \<Rightarrow> node \<Rightarrow> InterpreterIssue list" where
  "invoke_type_issues doc ic invoke =
    (if HAS_ATTR invoke ''type'' \<and> \<not> hasInvoker (ic_factory ic) (ATTR invoke ''type'') then
       (if HAS_ATTR invoke ''id'' \<and> ATTR invoke ''id'' \<in> set (invokerIds ic) then []
        else issue_if doc (if HAS_ATTR invoke ''idlocation'' then USCXML_ISSUE_WARNING else USCXML_ISSUE_FATAL) invoke True
          (''Invoke with unknown type '' @ quote (ATTR invoke ''type'')))
     else [])"

definition send_type_issues :: "node \<Rightarrow> ('c, 'i, 'v, 'x) checked \<Rightarrow> node \<Rightarrow> InterpreterIssue list" where
  "send_type_issues doc ic send =
    (if HAS_ATTR send ''type'' \<and> \<not> hasIOProcessor (ic_factory ic) (ATTR send ''type'')
     then fatal_if doc send (ATTR send ''type'' \<notin> set (ioProcs ic))
       (''Send to unknown IO Processor '' @ quote (ATTR send ''type''))
     else [])"

definition exec_content_issues :: "node \<Rightarrow> ('c, 'i, 'v, 'x) checked \<Rightarrow> node_sets \<Rightarrow> node \<Rightarrow> InterpreterIssue list" where
  "exec_content_issues doc ic sets block =
     concat (map (\<lambda>execContent.
       if isMember execContent (allExecContents sets) then []
       else fatal_if doc execContent
         (\<not> hasExecutableContent (ic_factory ic) (LOCALNAME execContent) (namespaceURI execContent))
         (''Executable content element '' @ quote (LOCALNAME execContent) @ '' in namespace '' @
          quote (namespaceURI execContent) @ '' unknown''))
       (filterChildType isElement block))"

definition plugin_issues :: "node \<Rightarrow> ('c, 'i, 'v, 'x) checked \<Rightarrow> node_sets \<Rightarrow> InterpreterIssue list" where
  "plugin_issues doc ic sets =
     concat (map (invoke_type_issues doc ic) (sets ''invoke'')) @
     concat (map (send_type_issues doc ic) (sets ''send'')) @
     concat (map (exec_content_issues doc ic sets)
       (sets ''onentry'' @ sets ''onexit'' @ sets ''transition'' @ sets ''finalize''))"

subsection \<open>Elements and attributes\<close>

definition element_issues :: "node \<Rightarrow> node \<Rightarrow> InterpreterIssue list" where
  "element_issues doc element =
    (let localName = LOCALNAME element in
     (case map_of reqAttr localName of
        None \<Rightarrow> []
      | Some attrs \<Rightarrow> concat (map (\<lambda>a.
          warn_if doc element (\<not> HAS_ATTR element a)
            (''Element '' @ localName @ '' is missing required attribute '' @ quote a) @
          warn_if doc element (HAS_ATTR element a \<and> length (ATTR element a) = 0)
            (''Required attribute '' @ quote a @ '' of element '' @ localName @ '' is empty'')) attrs)) @
     (if localName = ''scxml'' then []
      else
        (case getParentNode doc element of
           None \<Rightarrow> warn_if doc element True (''Parent of '' @ localName @ '' is no element'')
         | Some parent \<Rightarrow>
             if \<not> isElement parent then warn_if doc element True (''Parent of '' @ localName @ '' is no element'')
             else warn_if doc element (LOCALNAME parent \<notin> set (validParents localName))
               (''Element '' @ localName @ '' can be no child of '' @ LOCALNAME parent))))"

definition initial_child_issues :: "node \<Rightarrow> node \<Rightarrow> InterpreterIssue list" where
  "initial_child_issues doc initial =
    (case getParentNode doc initial of
       None \<Rightarrow> []
     | Some state \<Rightarrow>
         if isElement state then
           warn_if doc state (HAS_ATTR state ''initial'') ''State with initial attribute cannot have <initial> child '' @
           warn_if doc state (isAtomic state) ''Atomic state cannot have <initial> child ''
         else [])"

abbreviation child_elements :: "string \<Rightarrow> node \<Rightarrow> node list" where
  "child_elements name n \<equiv> filterChildElements (XML_PREFIX n @ name) n False"

abbreviation both :: "node \<Rightarrow> string \<Rightarrow> string \<Rightarrow> bool" where
  "both n a b \<equiv> HAS_ATTR n a \<and> HAS_ATTR n b"

definition send_attr_issues :: "node \<Rightarrow> node \<Rightarrow> InterpreterIssue list" where
  "send_attr_issues doc send =
     warn_if doc send (both send ''event'' ''eventexpr'') ''Send element cannot have both event and eventexpr attribute'' @
     warn_if doc send (both send ''target'' ''targetexpr'') ''Send element cannot have both target and targetexpr attribute'' @
     warn_if doc send (both send ''type'' ''typeexpr'') ''Send element cannot have both type and typeexpr attribute'' @
     warn_if doc send (both send ''id'' ''idlocation'') ''Send element cannot have both id and idlocation attribute'' @
     warn_if doc send (both send ''delay'' ''delayexpr'') ''Send element cannot have both delay and delayexpr attribute'' @
     warn_if doc send (HAS_ATTR send ''delay'' \<and> HAS_ATTR send ''target'' \<and> ATTR send ''target'' = ''_internal'')
       ''Send element cannot have delay with target _internal'' @
     warn_if doc send (HAS_ATTR send ''namelist'' \<and> child_elements ''content'' send \<noteq> [])
       ''Send element cannot have namelist attribute and content child'' @
     warn_if doc send (child_elements ''param'' send \<noteq> [] \<and> child_elements ''content'' send \<noteq> [])
       ''Send element cannot have param child and content child''"

definition invoke_attr_issues :: "node \<Rightarrow> node \<Rightarrow> InterpreterIssue list" where
  "invoke_attr_issues doc invoke =
     warn_if doc invoke (both invoke ''type'' ''typeexpr'') ''Invoke element cannot have both type and typeexpr attribute'' @
     warn_if doc invoke (both invoke ''src'' ''srcexpr'') ''Invoke element cannot have both src and srcexpr attribute'' @
     warn_if doc invoke (both invoke ''id'' ''idlocation'') ''Invoke element cannot have both id and idlocation attribute'' @
     warn_if doc invoke (HAS_ATTR invoke ''namelist'' \<and> child_elements ''param'' invoke \<noteq> [])
       ''Invoke element cannot have namelist attribute and param child'' @
     warn_if doc invoke (HAS_ATTR invoke ''src'' \<and> child_elements ''content'' invoke \<noteq> [])
       ''Invoke element cannot have src attribute and content child''"

definition script_attr_issues :: "node \<Rightarrow> node \<Rightarrow> InterpreterIssue list" where
  "script_attr_issues doc script =
     warn_if doc script (HAS_ATTR script ''src'' \<and> length (childNodes script) > 0)
       ''Script element cannot have src attribute and children''"

definition attribute_issues :: "node \<Rightarrow> node_sets \<Rightarrow> InterpreterIssue list" where
  "attribute_issues doc sets =
     concat (map (initial_child_issues doc) (sets ''initial'')) @
     concat (map (\<lambda>state. warn_if doc state (isAtomic state \<and> HAS_ATTR state ''initial'')
       ''Atomic state cannot have initial attribute '') (allStates sets)) @
     concat (map (\<lambda>assign. warn_if doc assign (HAS_ATTR assign ''expr'' \<and> length (childNodes assign) > 0)
       ''Assign element cannot have expr attribute and children'') (sets ''assign'')) @
     concat (map (\<lambda>content. warn_if doc content (HAS_ATTR content ''expr'' \<and> length (childNodes content) > 0)
       ''Content element cannot have expr attribute and children'') (sets ''content'')) @
     concat (map (\<lambda>param. warn_if doc param (both param ''expr'' ''location'')
       ''Param element cannot have both expr and location attribute'') (sets ''param'')) @
     concat (map (script_attr_issues doc) (sets ''script'')) @
     concat (map (send_attr_issues doc) (sets ''send'')) @
     concat (map (\<lambda>cancel. warn_if doc cancel (both cancel ''sendid'' ''sendidexpr'')
       ''Cancel element cannot have both sendid and eventexpr sendidexpr'') (sets ''cancel'')) @
     concat (map (invoke_attr_issues doc) (sets ''invoke'')) @
     concat (map (\<lambda>donedata. warn_if doc donedata
       (child_elements ''content'' donedata \<noteq> [] \<and> child_elements ''param'' donedata \<noteq> [])
       ''Donedata element cannot have param child and content child'') (sets ''donedata''))"

subsection \<open>Syntax of the data model\<close>

definition scriptContent :: "node \<Rightarrow> string" where
  "scriptContent script = concat (map nodeValue (filter isText (childNodes script)))"

definition script_syntax_issues :: "node \<Rightarrow> syntax_checks \<Rightarrow> node \<Rightarrow> InterpreterIssue list" where
  "script_syntax_issues doc dm script =
     warn_if doc script (childNodes script \<noteq> [] \<and> \<not> isValidScriptSyntax dm (scriptContent script)) ''Syntax error in script''"

definition bad_expr :: "syntax_checks \<Rightarrow> node \<Rightarrow> string \<Rightarrow> bool" where
  "bad_expr dm n a = (HAS_ATTR n a \<and> \<not> isValidExprSyntax dm (ATTR n a))"

definition expr_issue :: "node \<Rightarrow> syntax_checks \<Rightarrow> node \<Rightarrow> string \<Rightarrow> InterpreterIssue list" where
  "expr_issue doc dm n a = warn_if doc n (bad_expr dm n a) (''Syntax error in '' @ a @ '' attribute'')"

text \<open>The loop over the invocations leaves the round at the first bad attribute.\<close>

fun first_expr_issue :: "node \<Rightarrow> syntax_checks \<Rightarrow> node \<Rightarrow> string list \<Rightarrow> InterpreterIssue list" where
  "first_expr_issue doc dm n [] = []"
| "first_expr_issue doc dm n (a # as) =
     (if bad_expr dm n a then expr_issue doc dm n a else first_expr_issue doc dm n as)"

definition syntax_issues :: "node \<Rightarrow> syntax_checks \<Rightarrow> node_sets \<Rightarrow> InterpreterIssue list" where
  "syntax_issues doc dm sets =
     concat (map (script_syntax_issues doc dm) (sets ''script'')) @
     concat (map (\<lambda>n. expr_issue doc dm n ''cond'') (sets ''transition'' @ sets ''if'' @ sets ''elseif'')) @
     concat (map (\<lambda>n. expr_issue doc dm n ''expr'')
       (sets ''log'' @ sets ''data'' @ sets ''assign'' @ sets ''content'' @ sets ''param'')) @
     concat (map (\<lambda>n. concat (map (expr_issue doc dm n) [''array'', ''item'', ''index''])) (sets ''foreach'')) @
     concat (map (\<lambda>n. concat (map (expr_issue doc dm n)
       [''eventexpr'', ''targetexpr'', ''typeexpr'', ''idlocation'', ''delayexpr''])) (sets ''send'')) @
     concat (map (\<lambda>n. first_expr_issue doc dm n [''typeexpr'', ''srcexpr'', ''idlocation'']) (sets ''invoke'')) @
     concat (map (\<lambda>n. expr_issue doc dm n ''sendidexpr'') (sets ''cancel''))"

subsection \<open>The whole check\<close>

text \<open>
  The result: the list of issues with the data model the interpreter is left with, an event thrown on the way,
  or a null pointer that was followed. The search for reachable states comes first for every \<open>scxml\<close> element; its
  outer option is termination.
\<close>

datatype check_result =
    Checked "InterpreterIssue list" "syntax_checks option"
  | Thrown Event
  | Null_Pointer

fun reach_all :: "node \<Rightarrow> node list \<Rightarrow> reach_map option option" where
  "reach_all doc [] = Some (Some [])"
| "reach_all doc (it # its) =
    (case getReachableStates doc it of
       None \<Rightarrow> None
     | Some None \<Rightarrow> Some None
     | Some (Some r) \<Rightarrow> (case reach_all doc its of
         None \<Rightarrow> None
       | Some None \<Rightarrow> Some None
       | Some (Some m) \<Rightarrow> Some (Some ((it, r) # m))))"

text \<open>The checks that do not need a data model.\<close>

definition document_issues ::
  "(node \<Rightarrow> nat) \<Rightarrow> ('c, 'i, 'v, 'x) checked \<Rightarrow> node \<Rightarrow> node \<Rightarrow> node_sets \<Rightarrow> reach_map \<Rightarrow> InterpreterIssue list" where
  "document_issues addr ic doc scxml sets reachable =
    (let (issues, seenStates) = check_states doc scxml sets reachable in
     issues @
     concat (map (transition_issues doc seenStates) (sets ''transition'')) @
     concat (map (redundancy_issues doc) (allStates sets)) @
     concat (map (useless_history_issues doc) (sets ''history'')) @
     concat (map (initial_attr_issues doc seenStates) (allStates sets @ [scxml])) @
     concat (map (target_set_issues doc seenStates) (targetIdSets addr sets)) @
     initial_issues doc seenStates sets @
     plugin_issues doc ic sets @
     concat (map (element_issues doc) (allElements scxml sets)) @
     attribute_issues doc sets)"

text \<open>
  The data model: an unknown one ends the check, a missing one is created. It is dropped again only when the
  document names it: a document without the attribute leaves the interpreter with the null data model.
\<close>

definition datamodel_part ::
  "string \<Rightarrow> ('c, 'i, 'v, 'x) checked \<Rightarrow> node \<Rightarrow> node \<Rightarrow> node_sets \<Rightarrow> InterpreterIssue list \<Rightarrow> check_result" where
  "datamodel_part uid ic doc scxml sets issues =
    (case ic_dataModel ic of
       Some dm \<Rightarrow> Checked (issues @ syntax_issues doc dm sets) (Some dm)
     | None \<Rightarrow>
         (let type = ATTR scxml ''datamodel'' in
          if HAS_ATTR scxml ''datamodel'' then
            (if \<not> hasDataModel (ic_factory ic) type
             then Checked (issues @ fatal_if doc scxml True (''SCXML document requires unknown datamodel '' @ quote type)) None
             else (case createDataModel uid (ic_factory ic) type (ic_callbacks ic) of
                Inl e \<Rightarrow> Thrown e
              | Inr dm \<Rightarrow> Checked (issues @ syntax_issues doc dm sets) None))
          else (case createDataModel uid (ic_factory ic) ''null'' (ic_callbacks ic) of
                Inl e \<Rightarrow> Thrown e
              | Inr dm \<Rightarrow> Checked (issues @ syntax_issues doc dm sets) (Some dm))))"

definition check_document ::
  "string \<Rightarrow> (node \<Rightarrow> nat) \<Rightarrow> ('c, 'i, 'v, 'x) checked \<Rightarrow> node \<Rightarrow> node \<Rightarrow> string \<Rightarrow> check_result option" where
  "check_document uid addr ic doc scxml xmlPrefix =
    (let sets = assembleNodeSets xmlPrefix scxml (\<lambda>_. []) in
     case reach_all doc (scxmls_of scxml sets) of
       None \<Rightarrow> None
     | Some None \<Rightarrow> Some Null_Pointer
     | Some (Some reachable) \<Rightarrow>
         Some (datamodel_part uid ic doc scxml sets (document_issues addr ic doc scxml sets reachable)))"

subsection \<open>Preparing the document\<close>

text \<open>
  \<open>setupDOM\<close> finds the \<open>scxml\<close> element and appends to every script element with a \<open>src\<close> attribute a text
  node with the content of the source. \<open>fetch\<close> resolves an address and returns its content or the event
  that is thrown; \<open>baseName\<close> is the last path component of the base address.
\<close>

record dom_state =
  document :: "node option"
  scxml_element :: "node option"
  xmlPrefix :: string
  xmlNS :: string
  docName :: string
  lateBinding :: bool

definition SCXML_NS :: string where
  "SCXML_NS = ''http://www.w3.org/2005/07/scxml''"

definition find_scxml :: "node \<Rightarrow> node option" where
  "find_scxml doc =
    (case List.find (\<lambda>n. isElement n \<and> namespaceURI n = SCXML_NS \<and> LOCALNAME n = ''scxml'') (nodes doc) of
       Some s \<Rightarrow> Some s
     | None \<Rightarrow> List.find (\<lambda>n. isElement n \<and> TAGNAME n = ''scxml'') (nodes doc))"

fun appendChild :: "nat \<Rightarrow> node \<Rightarrow> node \<Rightarrow> node" where
  "appendChild i new (Element j p l ns as cs) =
     Element j p l ns as (map (appendChild i new) cs @ (if i = j then [new] else []))"
| "appendChild i new n = n"

definition fresh_nid :: "node \<Rightarrow> nat" where
  "fresh_nid doc = Suc (foldr max (nids doc) 0)"

fun download_scripts ::
  "string \<Rightarrow> (string \<Rightarrow> Event + string) \<Rightarrow> node list \<Rightarrow> node \<Rightarrow> Event + node" where
  "download_scripts uid fetch [] doc = Inr doc"
| "download_scripts uid fetch (script # scripts) doc =
    (if HAS_ATTR script ''src'' then
       (let src = ATTR script ''src'' in
        if length src > 0 then
          (case fetch src of
             Inl e \<Rightarrow> Inl e
           | Inr contents \<Rightarrow>
               download_scripts uid fetch scripts (appendChild (nid script) (Text (fresh_nid doc) contents) doc))
        else Inl (with_xpath (xPathForNode doc script [])
          (ERROR_COMMUNICATION uid (''InterpreterImpl.cpp'', 323) ''Empty source attribute'')))
     else download_scripts uid fetch scripts doc)"

definition setupDOM ::
  "string \<Rightarrow> (string \<Rightarrow> Event + string) \<Rightarrow> string \<Rightarrow> dom_state \<Rightarrow> Event + dom_state" where
  "setupDOM uid fetch baseName ds =
    (case document ds of
       None \<Rightarrow> Inl (ERROR_PLATFORM uid (''InterpreterImpl.cpp'', 274) ''Interpreter has no XML document'')
     | Some doc \<Rightarrow>
         (if scxml_element ds \<noteq> None then Inr ds
          else
            (case find_scxml doc of
               None \<Rightarrow> Inl (ERROR_PLATFORM uid (''InterpreterImpl.cpp'', 293) ''Cannot find SCXML element in DOM'')
             | Some s \<Rightarrow>
                 (let pre = XML_PREFIX s in
                  case download_scripts uid fetch (filterChildElements (pre @ ''script'') s True) doc of
                    Inl e \<Rightarrow> Inl e
                  | Inr doc' \<Rightarrow> Inr (ds\<lparr>document := Some doc',
                      scxml_element := List.find (same s) (nodes doc'), xmlPrefix := pre, xmlNS := namespaceURI s,
                      docName := (if HAS_ATTR s ''name'' then ATTR s ''name'' else baseName),
                      lateBinding := (HAS_ATTR s ''binding'' \<and> iequals (ATTR s ''binding'') ''late'')\<rparr>)))))"

definition forInterpreter ::
  "string \<Rightarrow> (node \<Rightarrow> nat) \<Rightarrow> (string \<Rightarrow> Event + string) \<Rightarrow> string \<Rightarrow> dom_state \<Rightarrow> ('c, 'i, 'v, 'x) checked \<Rightarrow>
   check_result option" where
  "forInterpreter uid addr fetch baseName ds ic =
    (case setupDOM uid fetch baseName ds of
       Inl e \<Rightarrow> Some (Thrown e)
     | Inr ds' \<Rightarrow>
         (case (document ds', scxml_element ds') of
            (Some doc, Some scxml) \<Rightarrow> check_document uid addr ic doc scxml (xmlPrefix ds')
          | _ \<Rightarrow> Some (Checked [\<lparr>xPath = [], message = ''No SCXML element to be found'', issue_node = None,
              severity = USCXML_ISSUE_FATAL, specRef = []\<rparr>] (ic_dataModel ic))))"

end
