(* ===== verification/Configurations.thy ===== *)
theory Configurations
  imports Issues
begin

text \<open>
  The configurations that \<open>getAllConfigurations\<close> of the issue checker enumerates. A legal configuration below
  a state contains the state, with every state its parent, all children of a parallel and exactly one child of every
  other state that has children. The enumeration is shown to be exact, and the check of target sets to accept every
  set of states that is part of a legal configuration.
\<close>

subsection \<open>Subtrees of a document with unique identities\<close>

lemma size_nodes: "x \<in> set (nodes n) \<Longrightarrow> size x \<le> size n"
proof (induction n)
  case (Element i p l ns as cs)
  have "size x \<le> size_list size cs" if "c \<in> set cs" "size x \<le> size c" for c
    using that by (induction cs) auto
  then show ?case using Element by fastforce
qed auto

lemma size_child: "c \<in> set (childNodes n) \<Longrightarrow> size c < size n"
proof (cases n)
  case (Element i p l ns as cs)
  assume "c \<in> set (childNodes n)"
  then have "size c \<le> size_list size cs" unfolding Element by (simp add: size_list_estimation')
  then show ?thesis unfolding Element by simp
qed auto

lemma nodes_cases: "x \<in> set (nodes n) \<Longrightarrow> x = n \<or> (\<exists>c \<in> set (childNodes n). x \<in> set (nodes c))"
  by (cases n) auto

lemma nodes_childI: "c \<in> set (childNodes n) \<Longrightarrow> x \<in> set (nodes c) \<Longrightarrow> x \<in> set (nodes n)"
  by (cases n) auto

lemma root_not_below: "c \<in> set (childNodes n) \<Longrightarrow> n \<notin> set (nodes c)"
  using size_nodes [of n c] size_child [of c n] by auto

lemma child_disjoint:
  assumes d: "distinct (nids n)" and c: "c \<in> set (childNodes n)" "c' \<in> set (childNodes n)"
    and x: "x \<in> set (nodes c)" "x \<in> set (nodes c')"
  shows "c = c'"
proof (rule ccontr)
  assume ne: "c \<noteq> c'"
  obtain i p l ns as cs where n: "n = Element i p l ns as cs" using c by (cases n) auto
  have "distinct (concat (map nids cs))" using d unfolding n by (simp add: map_concat comp_def)
  moreover have "c \<in> set cs" "c' \<in> set cs" using c unfolding n by auto
  ultimately have "set (nids c) \<inter> set (nids c') = {}"
    using ne
  proof (induction cs)
    case (Cons a cs)
    then show ?case by (fastforce simp: disjoint_iff)
  qed simp
  then show False using x by auto
qed

lemma distinct_child: "distinct (nids n) \<Longrightarrow> c \<in> set (childNodes n) \<Longrightarrow> distinct (nids c)"
  using distinct_sub [of n c] child_nodes by blast

lemma parent_unique:
  assumes "distinct (nids n)" and "p \<in> set (nodes n)" and "c \<in> set (childNodes p)" and "c \<in> set (childNodes n)"
  shows "p = n"
proof (rule ccontr)
  assume "p \<noteq> n"
  then obtain c' where c': "c' \<in> set (childNodes n)" "p \<in> set (nodes c')" using nodes_cases assms(2) by blast
  have "c \<in> set (nodes c')" using c'(2) assms(3) nodes_trans child_nodes by blast
  then have "c = c'" using child_disjoint [OF assms(1,4) c'(1), of c] by simp
  then show False using c'(2) assms(3) size_nodes [of p c] size_child [of c p] by simp
qed

subsection \<open>Legal configurations\<close>

definition kids :: "node \<Rightarrow> node list" where
  "kids n = filter (conf_child n) (childNodes n)"

definition settled :: "node set \<Rightarrow> node \<Rightarrow> bool" where
  "settled C s \<longleftrightarrow> (if LOCALNAME s = ''parallel'' then set (kids s) \<subseteq> C
     else kids s = [] \<or> (\<exists>!c. c \<in> set (kids s) \<and> c \<in> C))"

definition legal_config :: "node \<Rightarrow> node set \<Rightarrow> bool" where
  "legal_config root C \<longleftrightarrow> root \<in> C \<and> C \<subseteq> set (nodes root) \<and> (\<forall>s \<in> C. settled C s) \<and>
     (\<forall>s \<in> C. s \<noteq> root \<longrightarrow> (\<exists>p \<in> C. s \<in> set (kids p)))"

lemma settled_cong: "(\<And>c. c \<in> set (kids s) \<Longrightarrow> c \<in> C \<longleftrightarrow> c \<in> D) \<Longrightarrow> settled C s = settled D s"
  unfolding settled_def by (simp add: subset_iff cong: conj_cong)

lemma kids_children: "c \<in> set (kids n) \<Longrightarrow> c \<in> set (childNodes n)"
  by (simp add: kids_def)

lemma kids_nodes: "c \<in> set (kids s) \<Longrightarrow> s \<in> set (nodes n) \<Longrightarrow> c \<in> set (nodes n)"
  using nodes_trans child_nodes kids_children by blast

text \<open>Every state of a legal configuration lies below a child of the root that is in the configuration.\<close>

lemma branch_in_config:
  assumes d: "distinct (nids root)" and "legal_config root C" and "c \<in> set (childNodes root)"
  shows "s \<in> C \<Longrightarrow> s \<in> set (nodes c) \<Longrightarrow> c \<in> set (kids root) \<and> c \<in> C"
proof (induction "size root - size s" arbitrary: s rule: less_induct)
  case less
  have up: "\<exists>p \<in> C. s \<in> set (kids p)" if "s \<noteq> root" using assms(2) less.prems(1) that by (auto simp: legal_config_def)
  have "s \<noteq> root" using root_not_below [OF assms(3)] less.prems(2) by blast
  then obtain p where p: "p \<in> C" "s \<in> set (kids p)" using up by blast
  have pn: "p \<in> set (nodes root)" using assms(2) p(1) by (auto simp: legal_config_def)
  show ?case
  proof (cases "p = root")
    case True
    then have "s \<in> set (childNodes root)" using p(2) kids_children by blast
    then have "s = c" using child_disjoint [OF d _ assms(3), of s s] less.prems(2) by simp
    then show ?thesis using True p less.prems by simp
  next
    case False
    then obtain c' where c': "c' \<in> set (childNodes root)" "p \<in> set (nodes c')" using nodes_cases pn by blast
    have "s \<in> set (nodes c')" using kids_nodes [OF p(2) c'(2)] .
    then have "c' = c" using child_disjoint [OF d c'(1) assms(3)] less.prems(2) by blast
    moreover have "size s < size p" using size_child kids_children [OF p(2)] by blast
    then have "size root - size p < size root - size s" using size_nodes [OF pn] by simp
    ultimately show ?thesis using less.hyps [of p] p(1) c'(2) by blast
  qed
qed

text \<open>The part of a legal configuration below such a child is legal.\<close>

lemma legal_branch:
  assumes d: "distinct (nids root)" and l: "legal_config root C" and c: "c \<in> set (kids root)" "c \<in> C"
  shows "legal_config c (C \<inter> set (nodes c))"
proof -
  have cc: "c \<in> set (childNodes root)" by (rule kids_children [OF c(1)])
  have kid: "k \<in> set (nodes c)" if "k \<in> set (kids s)" "s \<in> set (nodes c)" for k s using kids_nodes that by blast
  have "settled (C \<inter> set (nodes c)) s" if "s \<in> C" "s \<in> set (nodes c)" for s
  proof -
    have "settled C s" using l that by (auto simp: legal_config_def)
    then show ?thesis using kid [of _ s] that(2) unfolding settled_def by (auto split: if_splits)
  qed
  moreover have "\<exists>p \<in> C \<inter> set (nodes c). s \<in> set (kids p)" if s: "s \<in> C" "s \<in> set (nodes c)" "s \<noteq> c" for s
  proof -
    have "s \<noteq> root" using root_not_below [OF cc] s by blast
    then obtain p where p: "p \<in> C" "s \<in> set (kids p)" using l s by (auto simp: legal_config_def)
    have pn: "p \<in> set (nodes root)" using l p by (auto simp: legal_config_def)
    have "p \<noteq> root" using child_disjoint [OF d _ cc, of s s] kids_children [OF p(2)] s by auto
    then obtain c' where c': "c' \<in> set (childNodes root)" "p \<in> set (nodes c')" using nodes_cases pn by blast
    then have "c' = c" using child_disjoint [OF d c'(1) cc] kids_nodes [OF p(2) c'(2)] s by blast
    then show ?thesis using p c' by blast
  qed
  ultimately show ?thesis using c by (auto simp: legal_config_def)
qed

text \<open>Legal parts below children of the root make a legal configuration.\<close>

lemma legal_assemble:
  assumes d: "distinct (nids root)" and K: "K \<subseteq> set (kids root)" and D: "\<And>k. k \<in> K \<Longrightarrow> legal_config k (D k)"
    and root: "settled (insert root (\<Union>k \<in> K. D k)) root"
  shows "legal_config root (insert root (\<Union>k \<in> K. D k))"
proof -
  let ?C = "insert root (\<Union>k \<in> K. D k)"
  have sub: "D k \<subseteq> set (nodes k)" "k \<in> D k" if "k \<in> K" for k using D [OF that] by (auto simp: legal_config_def)
  have child: "k \<in> set (childNodes root)" if "k \<in> K" for k using K that kids_children by blast
  have only: "x \<in> D k" if x: "k \<in> K" "x \<in> ?C" "x \<in> set (nodes k)" for x k
  proof -
    have "x \<noteq> root" using root_not_below [OF child [OF x(1)]] x(3) by blast
    then obtain k' where k': "k' \<in> K" "x \<in> D k'" using x(2) by blast
    then have "k' = k" using child_disjoint [OF d child child] x(1,3) sub by blast
    then show ?thesis using k' by simp
  qed
  have "settled ?C s" if "k \<in> K" "s \<in> D k" for k s
  proof -
    have "settled (D k) s" using D [OF that(1)] that(2) by (auto simp: legal_config_def)
    moreover have "c \<in> ?C \<longleftrightarrow> c \<in> D k" if "c \<in> set (kids s)" for c
    proof -
      have "c \<in> set (nodes k)" using kids_nodes that sub(1) [OF \<open>k \<in> K\<close>] \<open>s \<in> D k\<close> by blast
      then show ?thesis using only [OF \<open>k \<in> K\<close>, of c] \<open>k \<in> K\<close> by blast
    qed
    ultimately show ?thesis using settled_cong [of s ?C "D k"] by blast
  qed
  moreover have "\<exists>p \<in> ?C. s \<in> set (kids p)" if "k \<in> K" "s \<in> D k" for k s
  proof (cases "s = k")
    case True
    then show ?thesis using K that by blast
  next
    case False
    then show ?thesis using D [OF that(1)] that by (auto simp: legal_config_def)
  qed
  moreover have "?C \<subseteq> set (nodes root)" using sub child nodes_childI by fastforce
  ultimately show ?thesis using root by (auto simp: legal_config_def)
qed

lemma legal_leaf: "kids root = [] \<Longrightarrow> distinct (nids root) \<Longrightarrow> legal_config root C \<longleftrightarrow> C = {root}"
proof
  assume k: "kids root = []" and d: "distinct (nids root)" and l: "legal_config root C"
  have "s = root" if "s \<in> C" for s
    using branch_in_config [OF d l _ that] nodes_cases [of s root] k l that by (auto simp: legal_config_def)
  then show "C = {root}" using l by (auto simp: legal_config_def)
qed (simp add: legal_config_def settled_def)

text \<open>What a legal configuration contains besides its root.\<close>

lemma config_parts:
  assumes d: "distinct (nids root)" and l: "legal_config root C" and s: "s \<in> C"
  shows "s = root \<or> (\<exists>k \<in> set (kids root). k \<in> C \<and> s \<in> set (nodes k))"
proof (cases "s = root")
  case False
  have "s \<in> set (nodes root)" using l s by (auto simp: legal_config_def)
  then obtain c where c: "c \<in> set (childNodes root)" "s \<in> set (nodes c)" using nodes_cases False by blast
  then show ?thesis using branch_in_config [OF d l c(1) s c(2)] by blast
qed simp

lemma legal_compound:
  assumes d: "distinct (nids root)" and "LOCALNAME root \<noteq> ''parallel''" and "kids root \<noteq> []"
  shows "legal_config root C \<longleftrightarrow> (\<exists>k \<in> set (kids root). \<exists>D. legal_config k D \<and> C = insert root D)"
proof
  assume l: "legal_config root C"
  then have "settled C root" by (auto simp: legal_config_def)
  then obtain k where k: "k \<in> set (kids root)" "k \<in> C" "\<And>c. c \<in> set (kids root) \<Longrightarrow> c \<in> C \<Longrightarrow> c = k"
    using assms(2,3) by (auto simp: settled_def)
  have "root \<in> C" using l by (simp add: legal_config_def)
  then have "C = insert root (C \<inter> set (nodes k))" using config_parts [OF d l] k(3) by blast
  then show "\<exists>k \<in> set (kids root). \<exists>D. legal_config k D \<and> C = insert root D"
    using legal_branch [OF d l k(1,2)] k(1) by blast
next
  assume "\<exists>k \<in> set (kids root). \<exists>D. legal_config k D \<and> C = insert root D"
  then obtain k D where k: "k \<in> set (kids root)" "legal_config k D" "C = insert root D" by blast
  have "c = k" if "c \<in> set (kids root)" "c \<in> insert root D" for c
  proof -
    have "c \<noteq> root" using root_not_below [OF kids_children [OF that(1)]] by auto
    then have "c \<in> set (nodes k)" using that(2) k(2) by (auto simp: legal_config_def)
    then show ?thesis using child_disjoint [OF d kids_children [OF that(1)] kids_children [OF k(1)], of c] by simp
  qed
  moreover have "k \<in> insert root D" using k(2) by (simp add: legal_config_def)
  ultimately have "\<exists>!c. c \<in> set (kids root) \<and> c \<in> insert root D" using k(1) by blast
  then have "settled (insert root D) root" unfolding settled_def using assms(2) by simp
  then have "settled (insert root (\<Union>x \<in> {k}. D)) root" by simp
  then have "legal_config root (insert root (\<Union>x \<in> {k}. D))"
    by (rule legal_assemble [OF d, rotated 2]) (simp_all add: k(1,2))
  then show "legal_config root C" using k(3) by simp
qed

lemma legal_parallel:
  assumes d: "distinct (nids root)" and p: "LOCALNAME root = ''parallel''"
  shows "legal_config root C \<longleftrightarrow> (\<exists>D. (\<forall>k \<in> set (kids root). legal_config k (D k)) \<and> C = insert root (\<Union>k \<in> set (kids root). D k))"
proof
  assume l: "legal_config root C"
  then have "settled C root" by (auto simp: legal_config_def)
  then have sub: "set (kids root) \<subseteq> C" using p by (simp add: settled_def)
  have "root \<in> C" using l by (simp add: legal_config_def)
  then have "C = insert root (\<Union>k \<in> set (kids root). C \<inter> set (nodes k))" using config_parts [OF d l] by blast
  then show "\<exists>D. (\<forall>k \<in> set (kids root). legal_config k (D k)) \<and> C = insert root (\<Union>k \<in> set (kids root). D k)"
    using legal_branch [OF d l] sub by (intro exI [of _ "\<lambda>k. C \<inter> set (nodes k)"]) blast
next
  assume "\<exists>D. (\<forall>k \<in> set (kids root). legal_config k (D k)) \<and> C = insert root (\<Union>k \<in> set (kids root). D k)"
  then obtain D where D: "\<forall>k \<in> set (kids root). legal_config k (D k)" "C = insert root (\<Union>k \<in> set (kids root). D k)" by blast
  then have "settled C root" unfolding settled_def using p by (auto simp: legal_config_def)
  then show "legal_config root C" using legal_assemble [OF d subset_refl] D by blast
qed

subsection \<open>The enumeration\<close>

text \<open>Only the nested states among the children take part in the loop.\<close>

lemma conf_loop_kids:
  "foldl (conf_step root) acc (map (\<lambda>c. (c, F c)) cs) =
   foldl (conf_step root) acc (map (\<lambda>c. (c, F c)) (filter (conf_child root) cs))"
  by (induction cs arbitrary: acc) (auto simp: conf_step_def)

definition combine :: "node set list \<Rightarrow> node set list \<Rightarrow> node set list" where
  "combine A N = concat (map (\<lambda>e. map (\<lambda>n. e \<union> n) N) A)"

lemma set_combine: "set (combine A N) = {e \<union> n |e n. e \<in> set A \<and> n \<in> set N}"
  by (auto simp: combine_def)

lemma conf_loop_parallel:
  assumes "LOCALNAME root = ''parallel''" and "A \<noteq> []" and "\<And>k. k \<in> set ks \<Longrightarrow> conf_child root k \<and> F k \<noteq> []"
  shows "foldl (conf_step root) (A, False) (map (\<lambda>c. (c, F c)) ks) = (foldl (\<lambda>A k. combine A (F k)) A ks, False)"
  using assms(2,3)
proof (induction ks arbitrary: A)
  case (Cons k ks)
  then have "combine A (F k) \<noteq> []" by (cases A) (simp_all add: combine_def)
  with Cons show ?case by (simp add: conf_step_def Let_def assms(1) combine_def [symmetric])
qed simp

lemma conf_loop_compound:
  assumes "LOCALNAME root \<noteq> ''parallel''" and "LOCALNAME root \<noteq> ''scxml''" and "\<And>k. k \<in> set ks \<Longrightarrow> conf_child root k"
  shows "foldl (conf_step root) (A, at) (map (\<lambda>c. (c, F c)) ks) =
    (A @ concat (map (\<lambda>k. map (insert root) (F k)) ks), at \<and> ks = [])"
  using assms(3) by (induction ks arbitrary: A "at") (simp_all add: conf_step_def Let_def assms(1,2))

lemma set_combine_all:
  "distinct ks \<Longrightarrow> set (foldl (\<lambda>A k. combine A (F k)) A ks) =
     {e \<union> (\<Union>k \<in> set ks. D k) |e D. e \<in> set A \<and> (\<forall>k \<in> set ks. D k \<in> set (F k))}"
proof (induction ks arbitrary: A)
  case Nil
  show ?case by simp
next
  case (Cons k ks)
  have "{e \<union> (\<Union>k \<in> set ks. D k) |e D. e \<in> set (combine A (F k)) \<and> (\<forall>k \<in> set ks. D k \<in> set (F k))} =
    {e \<union> (\<Union>k \<in> set (k # ks). D k) |e D. e \<in> set A \<and> (\<forall>k \<in> set (k # ks). D k \<in> set (F k))}" (is "?L = ?R")
  proof
    show "?L \<subseteq> ?R"
    proof
      fix x assume "x \<in> ?L"
      then obtain e n D where "e \<in> set A" "n \<in> set (F k)" "\<forall>k \<in> set ks. D k \<in> set (F k)" "x = e \<union> n \<union> (\<Union>k \<in> set ks. D k)"
        by (auto simp: set_combine)
      moreover have "(\<Union>k' \<in> set (k # ks). (D(k := n)) k') = n \<union> (\<Union>k \<in> set ks. D k)" using Cons.prems by auto
      ultimately show "x \<in> ?R"
        using Cons.prems by (intro CollectI exI [of _ e] exI [of _ "D(k := n)"]) auto
    qed
    show "?R \<subseteq> ?L"
    proof
      fix x assume "x \<in> ?R"
      then obtain e D where "e \<in> set A" "\<forall>k \<in> set (k # ks). D k \<in> set (F k)" "x = e \<union> (\<Union>k \<in> set (k # ks). D k)" by blast
      then show "x \<in> ?L" by (intro CollectI exI [of _ "e \<union> D k"] exI [of _ D]) (auto simp: set_combine)
    qed
  qed
  with Cons show ?case by simp
qed

lemma conf_child_name: "conf_child root c \<Longrightarrow> isElement c \<and> LOCALNAME c \<noteq> ''scxml''"
proof -
  have "\<not> iequals (x @ ''scxml'') (y @ z)" if "z = ''state'' \<or> z = ''parallel'' \<or> z = ''final''" for x y z
  proof
    assume "iequals (x @ ''scxml'') (y @ z)"
    then have "take 2 (rev (map tolower (x @ ''scxml''))) = take 2 (rev (map tolower (y @ z)))" by (simp add: iequals_iff)
    then show False using that by (auto simp: tolower_def)
  qed
  then show "conf_child root c \<Longrightarrow> isElement c \<and> LOCALNAME c \<noteq> ''scxml''"
    by (auto simp: conf_child_def TAGNAME_def Let_def)
qed

lemma configurations_loop: "isElement root \<Longrightarrow> getAllConfigurations root =
    (let (A, atomic) = foldl (conf_step root) ([], True) (map (\<lambda>c. (c, getAllConfigurations c)) (kids root))
     in if atomic then A @ [{root}] else A)"
  using conf_loop_kids [of root "([], True)" getAllConfigurations "childNodes root"]
  by (cases root) (simp_all add: kids_def Let_def split: prod.split)

lemma configurations_nonempty: "getAllConfigurations n \<noteq> []"
proof (induction n rule: getAllConfigurations.induct)
  case (1 i p l ns as cs)
  let ?root = "Element i p l ns as cs"
  have "fst (foldl (conf_step ?root) (A, b) (map (\<lambda>c. (c, getAllConfigurations c)) ds)) \<noteq> [] \<or>
      snd (foldl (conf_step ?root) (A, b) (map (\<lambda>c. (c, getAllConfigurations c)) ds))"
    if "set ds \<subseteq> set cs" "A \<noteq> [] \<or> b" for ds A b
    using that
  proof (induction ds arbitrary: A b)
    case (Cons d ds)
    then have "getAllConfigurations d \<noteq> []" using "1" by simp
    then have "fst (conf_step ?root (A, b) (d, getAllConfigurations d)) \<noteq> [] \<or>
        snd (conf_step ?root (A, b) (d, getAllConfigurations d))"
      using Cons.prems(2) by (cases A) (auto simp: conf_step_def Let_def)
    then show ?case using Cons by (cases "conf_step ?root (A, b) (d, getAllConfigurations d)") auto
  qed simp
  from this [of cs "[]" True] show ?case by (auto simp: Let_def split: prod.splits)
qed simp_all

lemma distinct_childNodes: "distinct (nids n) \<Longrightarrow> distinct (childNodes n)"
proof -
  have "distinct cs" if "distinct (concat (map nids cs))" for cs
    using that
  proof (induction cs)
    case (Cons c cs)
    have "nid c \<in> set (concat (map nids cs))" if "c \<in> set cs"
    proof -
      have "nid c \<in> set (nids c)" by simp
      then show ?thesis using that by (auto intro!: bexI [of _ c])
    qed
    moreover have "nid c \<notin> set (concat (map nids cs))" using Cons.prems by (auto simp: disjoint_iff)
    ultimately show ?case using Cons by auto
  qed simp
  then show "distinct (nids n) \<Longrightarrow> distinct (childNodes n)" by (cases n) (simp_all add: map_concat comp_def)
qed

lemma distinct_kids: "distinct (nids n) \<Longrightarrow> distinct (kids n)"
  using distinct_childNodes by (simp add: kids_def)

lemma all_configurations:
  assumes "distinct (nids root)" and "isElement root" and "LOCALNAME root \<noteq> ''scxml''"
  shows "set (getAllConfigurations root) = {C. legal_config root C}"
  using assms
proof (induction "size root" arbitrary: root rule: less_induct)
  case less
  note d = less.prems(1)
  let ?F = getAllConfigurations
  have IH: "set (?F k) = {C. legal_config k C}" if "k \<in> set (kids root)" for k
  proof (rule less.hyps)
    show "size k < size root" using size_child kids_children that by blast
    show "distinct (nids k)" using distinct_child [OF d] kids_children that by blast
  qed (use that conf_child_name in \<open>auto simp: kids_def\<close>)
  have kc: "conf_child root k" if "k \<in> set (kids root)" for k using that by (simp add: kids_def)
  show ?case
  proof (cases "kids root")
    case Nil
    then show ?thesis using configurations_loop [OF less.prems(2)] legal_leaf [OF Nil d] Nil by auto
  next
    case (Cons k ks)
    show ?thesis
    proof (cases "LOCALNAME root = ''parallel''")
      case True
      let ?A = "map (insert root) (?F k)"
      have "?F root = foldl (\<lambda>A k. combine A (?F k)) ?A ks"
        using conf_loop_parallel [OF True, of ?A ks ?F] configurations_nonempty kc Cons
        by (simp add: configurations_loop [OF less.prems(2)] conf_step_def Let_def True)
      then have "set (?F root) = {e \<union> (\<Union>k \<in> set ks. D k) |e D. e \<in> insert root ` set (?F k) \<and> (\<forall>k \<in> set ks. D k \<in> set (?F k))}"
        using set_combine_all [of ks ?F ?A] distinct_kids [OF d] Cons by simp
      also have "\<dots> = {C. \<exists>D. (\<forall>k \<in> set (kids root). legal_config k (D k)) \<and> C = insert root (\<Union>k \<in> set (kids root). D k)}"
        (is "?L = ?R")
      proof
        show "?L \<subseteq> ?R"
        proof
          fix x assume "x \<in> ?L"
          then obtain n D where n: "n \<in> set (?F k)" "\<forall>k \<in> set ks. D k \<in> set (?F k)" "x = insert root n \<union> (\<Union>k \<in> set ks. D k)" by blast
          let ?D = "D(k := n)"
          have "(\<Union>k \<in> set (kids root). ?D k) = n \<union> (\<Union>k \<in> set ks. D k)" using distinct_kids [OF d] Cons by auto
          moreover have "\<forall>k \<in> set (kids root). legal_config k (?D k)" using n IH distinct_kids [OF d] Cons by auto
          ultimately show "x \<in> ?R" using n(3) by (intro CollectI exI [of _ ?D]) auto
        qed
        show "?R \<subseteq> ?L"
        proof
          fix x assume "x \<in> ?R"
          then obtain D where D: "\<forall>k \<in> set (kids root). legal_config k (D k)" "x = insert root (\<Union>k \<in> set (kids root). D k)" by blast
          then have "x = insert root (D k) \<union> (\<Union>k \<in> set ks. D k)" using Cons by auto
          moreover have "\<forall>k \<in> set (kids root). D k \<in> set (?F k)" using D(1) IH by auto
          ultimately show "x \<in> ?L" using Cons by (intro CollectI exI [of _ "insert root (D k)"] exI [of _ D]) auto
        qed
      qed
      finally show ?thesis unfolding legal_parallel [OF d True, symmetric] .
    next
      case False
      have "?F root = concat (map (\<lambda>k. map (insert root) (?F k)) (kids root))"
        using conf_loop_compound [OF False less.prems(3), of "kids root" "[]" True ?F] kc Cons
        by (simp add: configurations_loop [OF less.prems(2)])
      then have "set (?F root) = {C. \<exists>k \<in> set (kids root). \<exists>D. legal_config k D \<and> C = insert root D}" using IH by fastforce
      moreover have "kids root \<noteq> []" using Cons by simp
      ultimately show ?thesis using legal_compound [OF d False] by (simp add: set_eq_iff)
    qed
  qed
qed


text \<open>A parallel state with the regions \<open>r\<close>, which has the two states \<open>a\<close> and \<open>b\<close>, and \<open>q\<close>.\<close>

definition fork_a :: node where "fork_a = Element 3 None ''state'' [] [(''id'', ''a'')] []"
definition fork_b :: node where "fork_b = Element 4 None ''state'' [] [(''id'', ''b'')] []"
definition fork_r :: node where "fork_r = Element 2 None ''state'' [] [(''id'', ''r'')] [fork_a, fork_b]"
definition fork_q :: node where "fork_q = Element 5 None ''state'' [] [(''id'', ''q'')] []"
definition fork_p :: node where "fork_p = Element 1 None ''parallel'' [] [(''id'', ''p'')] [fork_r, fork_q]"
definition fork_doc :: node where "fork_doc = Element 0 None ''scxml'' [] [] [fork_p]"


text \<open>The history of a state is called useless exactly when there is only one configuration to remember.\<close>

lemma useless_history_single:
  assumes "distinct (nids parent)" and "isElement parent" and "LOCALNAME parent \<noteq> ''scxml''"
    and "length (getAllConfigurations parent) \<le> 1"
  shows "\<exists>!C. legal_config parent C"
proof -
  obtain C where "getAllConfigurations parent = [C]"
    using assms(4) configurations_nonempty [of parent] by (cases "getAllConfigurations parent") auto
  then have "{C'. legal_config parent C'} = {C}" using all_configurations [OF assms(1-3)] by simp
  then show ?thesis by (auto simp: set_eq_iff)
qed

text \<open>
  In a document with a name space prefix no child is recognised, because the colon is missing: every state
  has a single configuration for the checker and all histories are called useless.
\<close>

lemma prefixed_states_missed:
  assumes "prefix_of root = Some p" and "\<And>c. c \<in> set (childNodes root) \<Longrightarrow> prefix_of c = Some p"
    and "CHR '':'' \<notin> set p"
  shows "getAllConfigurations root = [{root}]"
proof -
  have "\<not> iequals (p @ '':'' @ l) (p @ z)" if "z = ''state'' \<or> z = ''parallel'' \<or> z = ''final''" for l z
    using that by (auto simp: iequals_iff tolower_def)
  then have "\<not> conf_child root c" if "c \<in> set (childNodes root)" for c
    using assms(1) assms(2) [OF that] by (auto simp: conf_child_def TAGNAME_def XML_PREFIX_def)
  then have "kids root = []" by (auto simp: kids_def filter_empty_conv)
  moreover have "isElement root" using assms(1) by (cases root) auto
  ultimately show ?thesis using configurations_loop [of root] by simp
qed

subsection \<open>Target sets\<close>

lemma parents_elements: "x \<in> set (tl (path_to i d)) \<Longrightarrow> isElement x"
proof (induction d)
  case (Element j p l ns as cs)
  let ?q = "first_path (map (path_to i) cs)"
  show ?case
  proof (cases "i = j \<or> ?q = []")
    case False
    then have q: "?q \<noteq> []" and x: "x \<in> set (tl ?q) \<or> x = Element j p l ns as cs"
      using Element.prems by (auto simp: Let_def tl_append2)
    obtain c where "c \<in> set cs" "?q = path_to i c" using first_path_mem [OF q] by auto
    then show ?thesis using x Element.IH [of c] by auto
  qed (use Element.prems in \<open>auto simp: Let_def split: if_splits\<close>)
qed (auto split: if_splits)

text \<open>Two states of a legal configuration of which none contains the other lie in different children of a parallel state.\<close>

lemma common_parallel:
  assumes "distinct (nids n)" and "legal_config n C" and "s1 \<in> C" and "s2 \<in> C"
    and "s1 \<notin> set (nodes s2)" and "s2 \<notin> set (nodes s1)"
  shows "\<exists>p \<in> set (nodes n). LOCALNAME p = ''parallel'' \<and> s1 \<in> set (nodes p) \<and> s2 \<in> set (nodes p)"
  using assms
proof (induction "size n" arbitrary: n C rule: less_induct)
  case less
  note l = less.prems(2)
  have sub: "s1 \<in> set (nodes n)" "s2 \<in> set (nodes n)" using l less.prems(3,4) by (auto simp: legal_config_def)
  then have "s1 \<noteq> n" "s2 \<noteq> n" using less.prems(5,6) by auto
  then obtain k1 k2 where k: "k1 \<in> set (kids n)" "k1 \<in> C" "s1 \<in> set (nodes k1)" "k2 \<in> set (kids n)" "k2 \<in> C" "s2 \<in> set (nodes k2)"
    using config_parts [OF less.prems(1) l] less.prems(3,4) by metis
  show ?case
  proof (cases "k1 = k2")
    case True
    have "size k1 < size n" using size_child kids_children k(1) by blast
    then have "\<exists>p \<in> set (nodes k1). LOCALNAME p = ''parallel'' \<and> s1 \<in> set (nodes p) \<and> s2 \<in> set (nodes p)"
      using less.hyps [of k1 "C \<inter> set (nodes k1)"] distinct_child [OF less.prems(1) kids_children [OF k(1)]]
        legal_branch [OF less.prems(1) l k(1,2)] less.prems k True by blast
    then show ?thesis using nodes_childI kids_children [OF k(1)] by blast
  next
    case False
    have "settled C n" using l by (auto simp: legal_config_def)
    then have "LOCALNAME n = ''parallel''" using False k by (auto simp: settled_def split: if_splits)
    then show ?thesis using sub nodes_self by blast
  qed
qed

lemma legal_compatible:
  assumes d: "distinct (nids doc)" and r: "root \<in> set (nodes doc)" and l: "legal_config root C"
    and s: "s1 \<in> C" "s2 \<in> C" "s1 \<noteq> s2"
  shows "compatible doc s1 s2"
proof (cases "s1 \<in> set (nodes s2) \<or> s2 \<in> set (nodes s1)")
  case True
  have "s1 \<in> set (nodes doc)" "s2 \<in> set (nodes doc)" using l s nodes_trans [OF r] by (auto simp: legal_config_def)
  then show ?thesis using isDescendant_iff [OF d] True s(3) by (auto simp: compatible_def)
next
  case False
  from common_parallel [OF distinct_sub [OF d r] l s(1,2)] False obtain p where p: "p \<in> set (nodes root)"
    "LOCALNAME p = ''parallel''" "s1 \<in> set (nodes p)" "s2 \<in> set (nodes p)" by blast
  have pd: "p \<in> set (nodes doc)" using nodes_trans [OF r p(1)] .
  have ne: "p \<noteq> s1" "p \<noteq> s2" using False p by auto
  have desc: "isDescendant doc (Some s) (Some p)" if "s \<in> set (nodes p)" "p \<noteq> s" for s
    using isDescendant_iff [OF d nodes_trans [OF pd that(1)] pd] that by auto
  have "p \<in> set (parents doc s1)" using desc [OF p(3) ne(1)] isDescendant_parents [OF d pd] by blast
  moreover have tw: "takeWhile isElement (parents doc s1) = parents doc s1"
    using parents_elements by (simp add: takeWhile_eq_all_conv parents_def)
  moreover have "isParallel p" using p(2) by (simp add: isParallel_def isState_def)
  ultimately show ?thesis using desc [OF p(4) ne(2)] unfolding compatible_def tw list_ex_iff by blast
qed

text \<open>
  The check of target sets never rejects states that can be active together: every list of distinct
  states of a legal configuration has a legal completion. The converse fails: two states of one region are accepted as targets when the region lies in a
  parallel state, because every common ancestor is asked and not only the least one.
\<close>

theorem legal_targets_accepted:
  assumes "distinct (nids doc)" and "root \<in> set (nodes doc)" and "legal_config root C"
    and "distinct states" and "set states \<subseteq> C"
  shows "hasLegalCompletion doc states \<and>
    hasLegalCompletion fork_doc [fork_a, fork_b] \<and> \<not> (\<exists>C. legal_config fork_p C \<and> {fork_a, fork_b} \<subseteq> C)"
proof -
  have "pairs_compatible doc states"
    using assms(4,5) legal_compatible [OF assms(1-3)]
    by (induction states) (auto simp: list_all_iff)
  moreover have "\<forall>C \<in> set (getAllConfigurations fork_p). \<not> {fork_a, fork_b} \<subseteq> C" by code_simp
  moreover have "set (getAllConfigurations fork_p) = {C. legal_config fork_p C}"
    by (rule all_configurations) code_simp+
  moreover have "hasLegalCompletion fork_doc [fork_a, fork_b]" by code_simp
  ultimately show ?thesis by (auto simp: hasLegalCompletion_def)
qed

theorem legal_targets_accepted_witness: "hasLegalCompletion fork_doc [fork_a, fork_q]"
proof -
  have "distinct (nids fork_doc)" "fork_p \<in> set (nodes fork_doc)" "distinct [fork_a, fork_q]" by code_simp+
  moreover have "legal_config fork_p {fork_p, fork_r, fork_a, fork_q}"
  proof -
    have "set (getAllConfigurations fork_p) = {C. legal_config fork_p C}"
      by (rule all_configurations) code_simp+
    moreover have "{fork_p, fork_r, fork_a, fork_q} \<in> set (getAllConfigurations fork_p)" by code_simp
    ultimately show ?thesis by blast
  qed
  ultimately show ?thesis using legal_targets_accepted [of fork_doc fork_p] by simp
qed

end
