(* ===== verification/Issue_Properties.thy ===== *)
theory Issue_Properties
  imports Configurations
begin

text \<open>
  What the issue checker guarantees. The node sets are the elements of the document by name; the check always
  returns, and follows a null pointer exactly when an \<open>initial\<close> attribute of a reachable state names no
  state; a document without fatal issues has unique state identifiers and no unknown targets, and the plugins
  it names can be created; a script with a source is always reported. What the
  checker computes of configurations and of redundant transitions is in other theories.
\<close>

subsection \<open>The node sets\<close>

definition set_elements :: "string \<Rightarrow> string \<Rightarrow> node \<Rightarrow> node list" where
  "set_elements pre name n = filter (\<lambda>e. isElement e \<and> prefix pre (TAGNAME e) \<and> LOCALNAME e = name) (tl (nodes n))"

lemma nodes_Cons: "nodes n = n # tl (nodes n)"
  by (cases n) simp_all

abbreviation in_set :: "string \<Rightarrow> string \<Rightarrow> node \<Rightarrow> bool" where
  "in_set pre name e \<equiv> isElement e \<and> prefix pre (TAGNAME e) \<and> LOCALNAME e = name"

lemma set_elements_nodes: "filter (in_set pre name) (nodes n) = (if in_set pre name n then [n] else []) @ set_elements pre name n"
  by (subst nodes_Cons) (simp add: set_elements_def)

lemma set_elements_leaf: "\<not> isElement n \<Longrightarrow> set_elements pre name n = []"
  by (cases n) (simp_all add: set_elements_def)

lemma assembleNodeSets_set: "assembleNodeSets pre n sets name = sets name @ set_elements pre name n"
proof (induction pre n sets arbitrary: name rule: assembleNodeSets.induct)
  case (1 pre i p l ns as cs sets)
  define add where "add sets c = (if isElement c then assembleNodeSets pre c
      (if prefix pre (TAGNAME c) then sets(LOCALNAME c := sets (LOCALNAME c) @ [c]) else sets) else sets)" for sets c
  have step: "add sets c name = sets name @ filter (in_set pre name) (nodes c)" if "c \<in> set cs" for c sets
    using "1.IH" [OF that] by (auto simp: add_def set_elements_nodes set_elements_leaf)
  have "foldl add sets ds name = sets name @ filter (in_set pre name) (concat (map nodes ds))"
    if "set ds \<subseteq> set cs" for ds sets
    using that by (induction ds arbitrary: sets) (simp_all add: step)
  from this [of cs sets] show ?case by (simp add: set_elements_def add_def [abs_def])
qed (simp_all add: set_elements_def)

lemma sets_of [simp]: "assembleNodeSets pre n (\<lambda>_. []) name = set_elements pre name n"
  by (simp add: assembleNodeSets_set)

lemma set_elements_sub: "e \<in> set (set_elements pre name n) \<Longrightarrow> e \<in> set (nodes n) \<and> isElement e \<and> LOCALNAME e = name"
  by (subst nodes_Cons) (auto simp: set_elements_def)

subsection \<open>The check returns\<close>

abbreviation machines :: "string \<Rightarrow> node \<Rightarrow> node list" where
  "machines pre scxml \<equiv> scxmls_of scxml (assembleNodeSets pre scxml (\<lambda>_. []))"

lemma machines_sub: "m \<in> set (machines pre scxml) \<Longrightarrow> m \<in> set (nodes scxml)"
  by (auto simp: scxmls_of_def dest: set_elements_sub)

lemma reach_all_result:
  assumes "distinct (nids doc)" and "set its \<subseteq> set (nodes doc)"
  shows "\<exists>r. reach_all doc its = Some r \<and>
    (if \<exists>it \<in> set its. \<exists>s. reaches doc it s \<and> dangling it s then r = None
     else \<exists>m. r = Some m \<and> map fst m = its \<and> (\<forall>(it, xs) \<in> set m. set xs = Collect (reaches doc it)))"
  using assms(2)
proof (induction its)
  case (Cons it its)
  have it: "it \<in> set (nodes doc)" using Cons.prems by simp
  obtain r where "getReachableStates doc it = Some r"
    and "if \<exists>s. reaches doc it s \<and> dangling it s then r = None else \<exists>xs. r = Some xs \<and> set xs = Collect (reaches doc it)"
    using getReachableStates_result [OF assms(1) it] by (auto simp: via_initial_def)
  moreover obtain r' where "reach_all doc its = Some r'"
    and "if \<exists>it \<in> set its. \<exists>s. reaches doc it s \<and> dangling it s then r' = None
     else \<exists>m. r' = Some m \<and> map fst m = its \<and> (\<forall>(it, xs) \<in> set m. set xs = Collect (reaches doc it))"
    using Cons by auto
  ultimately show ?case by (auto split: option.splits if_splits)
qed simp

text \<open>
  C25. The issue checker always returns. It follows a null pointer exactly when, in the document or in a document embedded in it, a
  state that can be reached has an \<open>initial\<close> attribute that names no state: the defect that the
  issue ``Initial attribute has invalid target state'' is there to report.
\<close>

theorem check_returns:
  assumes "distinct (nids doc)" and "scxml \<in> set (nodes doc)"
  shows "\<exists>r. check_document uid addr ic doc scxml pre = Some r \<and>
    (r = Null_Pointer \<longleftrightarrow> (\<exists>it \<in> set (machines pre scxml). \<exists>s. (leads_to doc it)\<^sup>*\<^sup>* it s \<and> None \<in> set (getInitialStates s it)))"
proof -
  have "set (machines pre scxml) \<subseteq> set (nodes doc)" using machines_sub nodes_trans [OF assms(2)] by blast
  from reach_all_result [OF assms(1) this] obtain r where r: "reach_all doc (machines pre scxml) = Some r"
    and c: "if \<exists>it \<in> set (machines pre scxml). \<exists>s. reaches doc it s \<and> dangling it s then r = None else r \<noteq> None"
    by (metis (no_types, lifting) option.distinct(1))
  have "datamodel_part uid ic doc scxml sets is \<noteq> Null_Pointer" for sets "is"
    by (simp add: datamodel_part_def Let_def split: option.splits sum.splits)
  then show ?thesis
    using r c by (auto simp: check_document_def Let_def via_initial_def split: option.splits if_splits)
qed

text \<open>An interpreter with the null data model and one invoker, and a document that uses them.\<close>

definition sample_checked :: "(unit, string, string, string) checked" where
  "sample_checked = \<lparr>ic_factory = registerInvoker \<lparr>getNames = [''scxml'', ''uscxml''], create = (\<lambda>_. ''inv'')\<rparr>
     (Factory_new (Some (registerDataModel
       \<lparr>getNames = [''null''], create = (\<lambda>_. \<lparr>isValidScriptSyntax = (\<lambda>_. True), isValidExprSyntax = (\<lambda>_. True)\<rparr>)\<rparr>
       (Factory_new None)))),
     ic_dataModel = None, invokerIds = [], ioProcs = [], ic_callbacks = ()\<rparr>"

lemma sample_checked_built: "built (ic_factory sample_checked)"
  by (simp add: sample_checked_def built.intros)

definition checked_doc :: node where
  "checked_doc = Element 0 None ''scxml'' [] []
     [Element 1 None ''state'' [] [(''id'', ''a'')]
        [Element 2 None ''invoke'' [] [(''type'', ''uscxml'')] [],
         Element 3 None ''transition'' [] [(''event'', ''go''), (''target'', ''b'')] []],
      Element 4 None ''final'' [] [(''id'', ''b'')] []]"

theorem check_returns_witness:
  "\<exists>r. check_document [] nid sample_checked sample_doc sample_doc [] = Some r \<and> r \<noteq> Null_Pointer"
proof -
  have d: "distinct (nids sample_doc)" by code_simp
  have n: "reach_all sample_doc (machines [] sample_doc) \<noteq> Some None" by code_simp
  from check_returns [OF d, of sample_doc "[]" nid sample_checked "[]"] n show ?thesis
    by (auto simp: check_document_def Let_def datamodel_part_def split: option.splits sum.splits)
qed

subsection \<open>Documents without fatal issues\<close>

definition no_fatal :: "InterpreterIssue list \<Rightarrow> bool" where
  "no_fatal issues \<longleftrightarrow> (\<forall>i \<in> set issues. severity i \<noteq> USCXML_ISSUE_FATAL)"

lemma no_fatal_append [simp]: "no_fatal (a @ b) \<longleftrightarrow> no_fatal a \<and> no_fatal b" "no_fatal []"
  by (auto simp: no_fatal_def)

lemma no_fatal_concat [simp]: "no_fatal (concat (map f xs)) \<longleftrightarrow> (\<forall>x \<in> set xs. no_fatal (f x))"
  by (auto simp: no_fatal_def)

lemma no_fatal_if [simp]: "no_fatal (fatal_if doc n c msg) \<longleftrightarrow> \<not> c" "no_fatal (warn_if doc n c msg)" "no_fatal (info_if doc n c msg)"
  by (auto simp: no_fatal_def issue_if_def InterpreterIssue_new_def)

lemma no_fatal_issue: "no_fatal (issue_if doc sev n c msg) \<longleftrightarrow> \<not> c \<or> sev \<noteq> USCXML_ISSUE_FATAL"
  by (auto simp: no_fatal_def issue_if_def InterpreterIssue_new_def)

text \<open>A state that passes its checks has an identifier, except for final states, and enters the map.\<close>

lemma state_step_ok:
  assumes "state_step doc scxml sets reachable (issues, seen) s = (issues', seen')" and "no_fatal issues'"
  shows "no_fatal issues \<and>
    (isMember s (sets ''final'') \<and> \<not> HAS_ATTR s ''id'' \<and> seen' = seen \<or>
     HAS_ATTR s ''id'' \<and> ATTR s ''id'' \<noteq> [] \<and> \<not> is_duplicate doc seen s \<and> seen' = seen(ATTR s ''id'' \<mapsto> s) \<and>
     (LOCALNAME s = ''history'' \<longrightarrow> no_fatal (history_issues doc scxml (sInterpreter doc s) s)))"
  using assms by (auto simp: state_step_def Let_def split: if_splits)

definition states_ok :: "node \<Rightarrow> node \<Rightarrow> node_sets \<Rightarrow> node list \<Rightarrow> seen_states \<Rightarrow> bool" where
  "states_ok doc scxml sets L seen \<longleftrightarrow>
     (\<forall>s \<in> set L. isMember s (sets ''final'') \<and> \<not> HAS_ATTR s ''id'' \<or>
        HAS_ATTR s ''id'' \<and> ATTR s ''id'' \<noteq> [] \<and> seen (ATTR s ''id'') = Some s \<and>
        (LOCALNAME s = ''history'' \<longrightarrow> no_fatal (history_issues doc scxml (sInterpreter doc s) s))) \<and>
     (\<forall>i s. seen i = Some s \<longrightarrow> s \<in> set L \<and> HAS_ATTR s ''id'' \<and> ATTR s ''id'' = i)"

lemma states_okD:
  assumes "states_ok doc scxml sets L seen"
  shows "s \<in> set L \<Longrightarrow> HAS_ATTR s ''id'' \<Longrightarrow> seen (ATTR s ''id'') = Some s"
    and "s \<in> set L \<Longrightarrow> HAS_ATTR s ''id'' \<and> ATTR s ''id'' \<noteq> [] \<or> isMember s (sets ''final'')"
    and "s \<in> set L \<Longrightarrow> \<not> isMember s (sets ''final'') \<Longrightarrow> LOCALNAME s = ''history'' \<Longrightarrow>
      no_fatal (history_issues doc scxml (sInterpreter doc s) s)"
    and "seen i = Some s \<Longrightarrow> s \<in> set L \<and> HAS_ATTR s ''id'' \<and> ATTR s ''id'' = i"
  using assms unfolding states_ok_def by blast+

lemma check_states_ok:
  assumes "\<forall>s \<in> set L. getScxmlNode doc s = Some scxml"
    and "foldl (state_step doc scxml sets reachable) ([], Map.empty) L = (issues, seen)" and "no_fatal issues"
  shows "states_ok doc scxml sets L seen"
  using assms
proof (induction L arbitrary: issues seen rule: rev_induct)
  case (snoc s L)
  obtain is1 seen1 where f: "foldl (state_step doc scxml sets reachable) ([], Map.empty) L = (is1, seen1)" by fastforce
  then have st: "state_step doc scxml sets reachable (is1, seen1) s = (issues, seen)" using snoc.prems(2) by simp
  note ok = state_step_ok [OF st snoc.prems(3)]
  have IH: "states_ok doc scxml sets L seen1" using snoc.IH [OF _ f] snoc.prems(1) ok by simp
  have dup: "seen1 (ATTR s ''id'') = None" if "\<not> is_duplicate doc seen1 s"
  proof (rule ccontr)
    assume "seen1 (ATTR s ''id'') \<noteq> None"
    then obtain x where x: "seen1 (ATTR s ''id'') = Some x" by blast
    then have "x \<in> set L" using IH by (auto simp: states_ok_def)
    then have "areFromSameMachine doc x s"
      using snoc.prems(1) by (simp add: areFromSameMachine_def same_opt_def same_def)
    then show False using that x by (simp add: is_duplicate_def)
  qed
  have old: "seen (ATTR x ''id'') = Some x" if "seen1 (ATTR x ''id'') = Some x" for x
    using ok dup that by auto
  have mem: "(\<forall>i x. seen i = Some x \<longrightarrow> x \<in> set (L @ [s]) \<and> HAS_ATTR x ''id'' \<and> ATTR x ''id'' = i)"
    using IH ok unfolding states_ok_def by (auto split: if_splits)
  have new: "isMember s (sets ''final'') \<and> \<not> HAS_ATTR s ''id'' \<or>
      HAS_ATTR s ''id'' \<and> ATTR s ''id'' \<noteq> [] \<and> seen (ATTR s ''id'') = Some s \<and>
      (LOCALNAME s = ''history'' \<longrightarrow> no_fatal (history_issues doc scxml (sInterpreter doc s) s))"
    using ok by auto
  show ?case unfolding states_ok_def
  proof (rule conjI [OF ballI mem])
    fix x assume "x \<in> set (L @ [s])"
    then consider "x = s" | "x \<in> set L" by auto
    then show "isMember x (sets ''final'') \<and> \<not> HAS_ATTR x ''id'' \<or>
      HAS_ATTR x ''id'' \<and> ATTR x ''id'' \<noteq> [] \<and> seen (ATTR x ''id'') = Some x \<and>
      (LOCALNAME x = ''history'' \<longrightarrow> no_fatal (history_issues doc scxml (sInterpreter doc x) x))"
      using new IH old unfolding states_ok_def by cases blast+
  qed
qed (simp add: states_ok_def)

lemma history_single: "no_fatal (history_issues doc scxml pre s) \<Longrightarrow> length (transitions_in s False) = 1"
  by (auto simp: history_issues_def split: list.splits)

lemma checked_no_fatal:
  assumes "check_document uid addr ic doc scxml pre = Some (Checked issues dm)"
    and "\<forall>i \<in> set issues. severity i \<noteq> USCXML_ISSUE_FATAL"
  obtains reachable where "no_fatal (document_issues addr ic doc scxml (assembleNodeSets pre scxml (\<lambda>_. [])) reachable)"
    and "datamodel_part uid ic doc scxml (assembleNodeSets pre scxml (\<lambda>_. []))
      (document_issues addr ic doc scxml (assembleNodeSets pre scxml (\<lambda>_. [])) reachable) = Checked issues dm"
proof -
  let ?sets = "assembleNodeSets pre scxml (\<lambda>_. [])"
  obtain reachable where d: "datamodel_part uid ic doc scxml ?sets (document_issues addr ic doc scxml ?sets reachable) = Checked issues dm"
    using assms(1) unfolding check_document_def Let_def by (auto split: option.splits)
  then have "\<exists>more. issues = document_issues addr ic doc scxml ?sets reachable @ more"
    unfolding datamodel_part_def Let_def by (auto split: option.splits sum.splits if_splits)
  then show thesis using that [OF _ d] assms(2) by (auto simp: no_fatal_def)
qed

lemma history_checked:
  assumes "states_ok doc scxml sets (allStates sets) seen" and "sets = assembleNodeSets pre scxml (\<lambda>_. [])"
    and "distinct (nids scxml)" and "h \<in> set (sets ''history'')"
  shows "length (transitions_in h False) = 1"
proof -
  have h: "h \<in> set (allStates sets)" "LOCALNAME h = ''history''"
    using assms(4) set_elements_sub [of h pre "''history''" scxml] unfolding assms(2) allStates_def sets_of by simp_all
  have "\<not> isMember h (sets ''final'')"
  proof
    assume "isMember h (sets ''final'')"
    then obtain x where "x \<in> set (sets ''final'')" "nid x = nid h" by (auto simp: isMember_def list_ex_iff same_def)
    then have "x = h" "LOCALNAME x = ''final''"
      using assms(4) same_node [OF assms(3)] set_elements_sub unfolding assms(2) sets_of by blast+
    then show False using h(2) by simp
  qed
  then show ?thesis using states_okD(3) [OF assms(1) h(1) _ h(2)] history_single by blast
qed

text \<open>
  C24. A document of a single machine for which the checker finds no fatal issue has identifiers on all its states but
  final ones, no two states share an identifier, every target of a transition names exactly one state, the states a transition targets are pairwise
  compatible, and every history state has exactly one transition.
\<close>

theorem no_fatal_sound:
  assumes "check_document uid addr ic doc scxml pre = Some (Checked issues dm)"
    and "\<forall>i \<in> set issues. severity i \<noteq> USCXML_ISSUE_FATAL"
    and "sets = assembleNodeSets pre scxml (\<lambda>_. [])" and "\<forall>s \<in> set (allStates sets). getScxmlNode doc s = Some scxml"
    and "distinct (nids scxml)"
  shows "(\<forall>s \<in> set (allStates sets). HAS_ATTR s ''id'' \<and> ATTR s ''id'' \<noteq> [] \<or> isMember s (sets ''final'')) \<and>
    inj_on (\<lambda>s. ATTR s ''id'') {s \<in> set (allStates sets). HAS_ATTR s ''id''} \<and>
    (\<forall>t \<in> set (sets ''transition''). HAS_ATTR t ''target'' \<longrightarrow> tokens (ATTR t ''target'') \<noteq> [] \<and>
       (\<exists>targets. list_all2 (\<lambda>i s. s \<in> set (allStates sets) \<and> HAS_ATTR s ''id'' \<and> ATTR s ''id'' = i)
          (tokens (ATTR t ''target'')) targets \<and> hasLegalCompletion doc targets)) \<and>
    (\<forall>h \<in> set (sets ''history''). length (transitions_in h False) = 1)"
proof -
  obtain reachable where nf: "no_fatal (document_issues addr ic doc scxml sets reachable)"
    using checked_no_fatal [OF assms(1,2)] assms(3) by blast
  obtain is1 seen where cs: "check_states doc scxml sets reachable = (is1, seen)" by fastforce
  have ok: "states_ok doc scxml sets (allStates sets) seen"
    by (rule check_states_ok [OF assms(4)]) (use nf cs in \<open>auto simp: document_issues_def check_states_def\<close>)
  have tr: "no_fatal (transition_issues doc seen t)" if "t \<in> set (sets ''transition'')" for t
    using nf cs that by (auto simp: document_issues_def)
  have ts: "no_fatal (target_set_issues doc seen e)" if "e \<in> set (targetIdSets addr sets)" for e
    using nf cs that by (auto simp: document_issues_def)
  have "\<exists>targets. list_all2 (\<lambda>i s. s \<in> set (allStates sets) \<and> HAS_ATTR s ''id'' \<and> ATTR s ''id'' = i)
      (tokens (ATTR t ''target'')) targets \<and> hasLegalCompletion doc targets"
    if t: "t \<in> set (sets ''transition'')" "HAS_ATTR t ''target''" for t
  proof (intro exI [of _ "map (\<lambda>i. the (seen i)) (tokens (ATTR t ''target''))"] conjI)
    have some: "seen i \<noteq> None" if "i \<in> set (tokens (ATTR t ''target''))" for i
      using tr [OF t(1)] t(2) that by (auto simp: transition_issues_def Let_def)
    then show "list_all2 (\<lambda>i s. s \<in> set (allStates sets) \<and> HAS_ATTR s ''id'' \<and> ATTR s ''id'' = i)
        (tokens (ATTR t ''target'')) (map (\<lambda>i. the (seen i)) (tokens (ATTR t ''target'')))"
      using states_okD(4) [OF ok] by (fastforce simp: list_all2_map2 list_all2_same)
    have "(t, ATTR t ''target'') \<in> set (targetIdSets addr sets)" using t by (auto simp: targetIdSets_def)
    from ts [OF this] show "hasLegalCompletion doc (map (\<lambda>i. the (seen i)) (tokens (ATTR t ''target'')))"
      using some by (auto simp: target_set_issues_def Let_def list_ex_iff split: if_splits)
  qed
  moreover have "tokens (ATTR t ''target'') \<noteq> []" if "t \<in> set (sets ''transition'')" "HAS_ATTR t ''target''" for t
    using tr [OF that(1)] that(2) by (auto simp: transition_issues_def Let_def)
  moreover have "inj_on (\<lambda>s. ATTR s ''id'') {s \<in> set (allStates sets). HAS_ATTR s ''id''}"
  proof (rule inj_onI)
    fix x y assume a: "x \<in> {s \<in> set (allStates sets). HAS_ATTR s ''id''}" "y \<in> {s \<in> set (allStates sets). HAS_ATTR s ''id''}"
      and e: "ATTR x ''id'' = ATTR y ''id''"
    have "seen (ATTR x ''id'') = Some x" "seen (ATTR y ''id'') = Some y" using states_okD(1) [OF ok] a by blast+
    then show "x = y" using e by (metis option.inject)
  qed
  moreover have "length (transitions_in h False) = 1" if "h \<in> set (sets ''history'')" for h
    using history_checked [OF ok assms(3,5) that] .
  ultimately show ?thesis using states_okD(2) [OF ok] by blast
qed

lemma checked_doc_clean:
  obtains issues dm where "check_document [] nid sample_checked checked_doc checked_doc [] = Some (Checked issues dm)"
    and "\<forall>i \<in> set issues. severity i \<noteq> USCXML_ISSUE_FATAL"
proof -
  have "case check_document [] nid sample_checked checked_doc checked_doc [] of
      Some (Checked issues dm) \<Rightarrow> list_all (\<lambda>i. severity i \<noteq> USCXML_ISSUE_FATAL) issues | _ \<Rightarrow> False"
    by code_simp
  then show thesis using that by (auto simp: list_all_iff split: option.splits check_result.splits)
qed

theorem no_fatal_sound_witness:
  "\<exists>targets. list_all2 (\<lambda>i s. s \<in> set (allStates (assembleNodeSets [] checked_doc (\<lambda>_. []))) \<and> HAS_ATTR s ''id'' \<and> ATTR s ''id'' = i)
     [''b''] targets"
proof -
  obtain issues dm where c: "check_document [] nid sample_checked checked_doc checked_doc [] = Some (Checked issues dm)"
    "\<forall>i \<in> set issues. severity i \<noteq> USCXML_ISSUE_FATAL" by (rule checked_doc_clean)
  let ?sets = "assembleNodeSets [] checked_doc (\<lambda>_. [])"
  let ?t = "Element 3 None ''transition'' [] [(''event'', ''go''), (''target'', ''b'')] []"
  have m: "list_all (\<lambda>s. getScxmlNode checked_doc s = Some checked_doc) (allStates ?sets)" by code_simp
  have d: "distinct (nids checked_doc)" by code_simp
  have t: "?sets ''transition'' = [?t]" by code_simp
  have a: "HAS_ATTR ?t ''target''" "tokens (ATTR ?t ''target'') = [''b'']" by code_simp+
  from no_fatal_sound [OF c refl m [unfolded list_all_iff] d]
  have "\<forall>t \<in> set (?sets ''transition''). HAS_ATTR t ''target'' \<longrightarrow> tokens (ATTR t ''target'') \<noteq> [] \<and>
      (\<exists>targets. list_all2 (\<lambda>i s. s \<in> set (allStates ?sets) \<and> HAS_ATTR s ''id'' \<and> ATTR s ''id'' = i)
         (tokens (ATTR t ''target'')) targets \<and> hasLegalCompletion checked_doc targets)" by (elim conjE)
  then show ?thesis unfolding t using a by (auto simp only: list.set ball_simps)
qed

lemma exec_content_ok:
  "no_fatal (exec_content_issues doc ic sets b) \<Longrightarrow> e \<in> set (filterChildType isElement b) \<Longrightarrow>
   isMember e (allExecContents sets) \<or> hasExecutableContent (ic_factory ic) (LOCALNAME e) (namespaceURI e)"
  by (fastforce simp: exec_content_issues_def split: if_splits)

text \<open>
  C26. What an interpreter creates for a document without fatal issues exists: every invocation with a type finds an invoker, unless its instance is
  known already or its identifier is computed; every send with a type finds an I/O processor or names one that is
  running; every foreign element of an executable block finds its implementation; and the data model the document names can be created.
\<close>

theorem checked_plugins_created:
  assumes "check_document uid addr ic doc scxml pre = Some (Checked issues dm)"
    and "\<forall>i \<in> set issues. severity i \<noteq> USCXML_ISSUE_FATAL"
    and "built (ic_factory ic)" and "sets = assembleNodeSets pre scxml (\<lambda>_. [])"
  shows "(\<forall>v \<in> set (sets ''invoke''). HAS_ATTR v ''type'' \<longrightarrow>
       (\<exists>i. createInvoker uid (ic_factory ic) (ATTR v ''type'') cb = Inr i) \<or>
       HAS_ATTR v ''id'' \<and> ATTR v ''id'' \<in> set (invokerIds ic) \<or> HAS_ATTR v ''idlocation'') \<and>
    (\<forall>s \<in> set (sets ''send''). HAS_ATTR s ''type'' \<longrightarrow>
       (\<exists>i. createIOProcessor uid (ic_factory ic) (ATTR s ''type'') cb = Inr i) \<or> ATTR s ''type'' \<in> set (ioProcs ic)) \<and>
    (\<forall>b \<in> set (sets ''onentry'' @ sets ''onexit'' @ sets ''transition'' @ sets ''finalize'').
       \<forall>e \<in> set (filterChildType isElement b). isMember e (allExecContents sets) \<or>
         (\<exists>x. createExecutableContent uid (ic_factory ic) (LOCALNAME e) (namespaceURI e) cb = Inr x)) \<and>
    (ic_dataModel ic = None \<longrightarrow> HAS_ATTR scxml ''datamodel'' \<longrightarrow>
       (\<exists>d. createDataModel uid (ic_factory ic) (ATTR scxml ''datamodel'') cb = Inr d))"
proof -
  have creates: "hasInvoker (ic_factory ic) n \<longleftrightarrow> (\<exists>i. createInvoker uid (ic_factory ic) n cb = Inr i)"
    "hasDataModel (ic_factory ic) n \<longleftrightarrow> (\<exists>i. createDataModel uid (ic_factory ic) n cb = Inr i)"
    "hasIOProcessor (ic_factory ic) n \<longleftrightarrow> (\<exists>i. createIOProcessor uid (ic_factory ic) n cb = Inr i)"
    "hasExecutableContent (ic_factory ic) n ns \<longleftrightarrow> (\<exists>i. createExecutableContent uid (ic_factory ic) n ns cb = Inr i)" for n ns
    using built_creates [OF assms(3), where uid = uid and cb = cb] by blast+
  obtain reachable where nf: "no_fatal (document_issues addr ic doc scxml sets reachable)"
    and dm: "datamodel_part uid ic doc scxml sets (document_issues addr ic doc scxml sets reachable) = Checked issues dm"
    using checked_no_fatal [OF assms(1,2)] assms(4) by blast
  have pl: "no_fatal (plugin_issues doc ic sets)" using nf by (simp add: document_issues_def split: prod.splits)
  have "no_fatal (invoke_type_issues doc ic v)" if "v \<in> set (sets ''invoke'')" for v
    using pl that by (simp add: plugin_issues_def)
  then have "\<forall>v \<in> set (sets ''invoke''). HAS_ATTR v ''type'' \<longrightarrow> hasInvoker (ic_factory ic) (ATTR v ''type'') \<or>
      HAS_ATTR v ''id'' \<and> ATTR v ''id'' \<in> set (invokerIds ic) \<or> HAS_ATTR v ''idlocation''"
    by (fastforce simp: invoke_type_issues_def no_fatal_issue split: if_splits)
  moreover have "no_fatal (send_type_issues doc ic s)" if "s \<in> set (sets ''send'')" for s
    using pl that by (simp add: plugin_issues_def)
  then have "\<forall>s \<in> set (sets ''send''). HAS_ATTR s ''type'' \<longrightarrow>
      hasIOProcessor (ic_factory ic) (ATTR s ''type'') \<or> ATTR s ''type'' \<in> set (ioProcs ic)"
    by (fastforce simp: send_type_issues_def split: if_splits)
  moreover have "no_fatal (exec_content_issues doc ic sets b)"
    if "b \<in> set (sets ''onentry'' @ sets ''onexit'' @ sets ''transition'' @ sets ''finalize'')" for b
    using pl that by (auto simp: plugin_issues_def)
  then have "\<forall>b \<in> set (sets ''onentry'' @ sets ''onexit'' @ sets ''transition'' @ sets ''finalize'').
       \<forall>e \<in> set (filterChildType isElement b). isMember e (allExecContents sets) \<or>
         hasExecutableContent (ic_factory ic) (LOCALNAME e) (namespaceURI e)"
    using exec_content_ok by blast
  moreover have "ic_dataModel ic = None \<longrightarrow> HAS_ATTR scxml ''datamodel'' \<longrightarrow> hasDataModel (ic_factory ic) (ATTR scxml ''datamodel'')"
    using dm assms(2) by (auto simp: datamodel_part_def Let_def issue_if_def InterpreterIssue_new_def split: if_splits)
  ultimately show ?thesis unfolding creates by (intro conjI)
qed

theorem checked_plugins_created_witness: "\<exists>i. createInvoker [] (ic_factory sample_checked) ''uscxml'' () = Inr i"
proof -
  obtain issues dm where c: "check_document [] nid sample_checked checked_doc checked_doc [] = Some (Checked issues dm)"
    "\<forall>i \<in> set issues. severity i \<noteq> USCXML_ISSUE_FATAL" by (rule checked_doc_clean)
  let ?v = "Element 2 None ''invoke'' [] [(''type'', ''uscxml'')] []"
  have v: "assembleNodeSets [] checked_doc (\<lambda>_. []) ''invoke'' = [?v]" by code_simp
  have a: "HAS_ATTR ?v ''type''" "ATTR ?v ''type'' = ''uscxml''" "\<not> HAS_ATTR ?v ''id''" "\<not> HAS_ATTR ?v ''idlocation''" by code_simp+
  from checked_plugins_created [OF c sample_checked_built refl, of "()"]
  show ?thesis unfolding v using a by (auto simp only: list.set ball_simps)
qed

subsection \<open>What the check misses\<close>

text \<open>
  Two states of one machine with the same identifier are not reported when a state of an embedded machine with
  that identifier stands between them: the map keeps the last state only.
\<close>

definition twice_doc :: node where
  "twice_doc = Element 0 None ''scxml'' [] []
     [Element 1 None ''state'' [] [(''id'', ''a'')]
        [Element 2 None ''invoke'' [] [] [Element 3 None ''content'' [] []
           [Element 4 None ''scxml'' [] [] [Element 5 None ''state'' [] [(''id'', ''a'')] []]]]],
      Element 6 None ''state'' [] [(''id'', ''a'')] []]"

lemma duplicate_missed:
  "case check_document [] nid sample_checked twice_doc twice_doc [] of
     Some (Checked issues dm) \<Rightarrow> list_all (\<lambda>i. severity i \<noteq> USCXML_ISSUE_FATAL) issues | _ \<Rightarrow> False"
  by code_simp

subsection \<open>Scripts with a source\<close>

lemma appendChild_sel [simp]: "nid (appendChild i new n) = nid n" "isElement (appendChild i new n) = isElement n"
  "attributes (appendChild i new n) = attributes n" "prefix_of (appendChild i new n) = prefix_of n"
  "LOCALNAME (appendChild i new n) = LOCALNAME n"
  by (cases n; simp)+

lemma appendChild_children:
  "childNodes n \<noteq> [] \<Longrightarrow> childNodes (appendChild i new n) \<noteq> []"
  "isElement n \<Longrightarrow> nid n = i \<Longrightarrow> childNodes (appendChild i new n) \<noteq> []"
  by (cases n; simp)+

lemma nodes_appendChild:
  "x \<in> set (nodes (appendChild i new n)) \<Longrightarrow> x \<in> set (nodes new) \<or> (\<exists>y \<in> set (nodes n). x = appendChild i new y)"
proof (induction n)
  case (Element j p l ns as cs)
  consider "x = appendChild i new (Element j p l ns as cs)" | c where "c \<in> set cs" "x \<in> set (nodes (appendChild i new c))"
    | "x \<in> set (nodes new)"
    using Element.prems by (auto split: if_splits)
  then show ?case
  proof cases
    case (2 c)
    then show ?thesis using Element.IH by fastforce
  qed simp_all
qed simp_all

text \<open>What an element of the document after the download was before.\<close>

definition grown_from :: "node \<Rightarrow> node \<Rightarrow> bool" where
  "grown_from x e \<longleftrightarrow> isElement e \<and> nid x = nid e \<and> attributes x = attributes e \<and> prefix_of x = prefix_of e \<and>
     LOCALNAME x = LOCALNAME e \<and> (childNodes e \<noteq> [] \<longrightarrow> childNodes x \<noteq> [])"

lemma download_grown:
  "download_scripts uid fetch scripts doc = Inr doc' \<Longrightarrow> x \<in> set (nodes doc') \<Longrightarrow> isElement x \<Longrightarrow>
   \<exists>e \<in> set (nodes doc). grown_from x e \<and>
     (\<forall>s \<in> set scripts. nid s = nid e \<and> HAS_ATTR s ''src'' \<longrightarrow> childNodes x \<noteq> [])"
proof (induction uid fetch scripts doc rule: download_scripts.induct)
  case (1 uid fetch doc)
  then show ?case by (auto simp: grown_from_def intro!: bexI [of _ x])
next
  case (2 uid fetch script scripts doc)
  show ?case
  proof (cases "HAS_ATTR script ''src''")
    case True
    then obtain contents where ne: "length (ATTR script ''src'') > 0" and f: "fetch (ATTR script ''src'') = Inr contents"
      and d: "download_scripts uid fetch scripts (appendChild (nid script) (Text (fresh_nid doc) contents) doc) = Inr doc'"
      using "2.prems"(1) by (auto simp: Let_def split: if_splits sum.splits)
    let ?a = "appendChild (nid script) (Text (fresh_nid doc) contents)"
    obtain e1 where e1: "e1 \<in> set (nodes (?a doc))" "grown_from x e1"
      "\<forall>s \<in> set scripts. nid s = nid e1 \<and> HAS_ATTR s ''src'' \<longrightarrow> childNodes x \<noteq> []"
      using "2.IH"(1) [OF True refl ne f d "2.prems"(2,3)] by blast
    then have "isElement e1" by (simp add: grown_from_def)
    then obtain e where e: "e \<in> set (nodes doc)" "e1 = ?a e" using nodes_appendChild [OF e1(1)] by auto
    have "isElement e" "nid e1 = nid e" using \<open>isElement e1\<close> e by simp_all
    then have "grown_from x e \<and> (\<forall>s \<in> set (script # scripts). nid s = nid e \<and> HAS_ATTR s ''src'' \<longrightarrow> childNodes x \<noteq> [])"
      using e1(2,3) appendChild_children [of e "nid script" "Text (fresh_nid doc) contents"] unfolding e(2)
      by (auto simp: grown_from_def)
    then show ?thesis using e(1) by blast
  next
    case False
    then have d: "download_scripts uid fetch scripts doc = Inr doc'" using "2.prems"(1) by simp
    from "2.IH"(2) [OF False d "2.prems"(2,3)] show ?thesis using False by auto
  qed
qed

lemma filterChildElements_deep:
  "x \<in> set (nodes n) \<Longrightarrow> x \<noteq> n \<Longrightarrow> isElement x \<Longrightarrow> TAGNAME x = tag \<Longrightarrow> x \<in> set (filterChildElements tag n True)"
proof -
  have deep: "x \<in> set (nodes n) \<Longrightarrow> isElement x \<Longrightarrow> TAGNAME x = tag \<Longrightarrow> x \<noteq> n \<or> b \<Longrightarrow>
      x \<in> set (filterElementGeneric [tag] DOCUMENT True b n)" for n b
  proof (induction n arbitrary: b)
    case (Element i p l ns as cs)
    show ?case
    proof (cases "x = Element i p l ns as cs")
      case True
      then show ?thesis using Element.prems by (simp add: Let_def)
    next
      case False
      then obtain c where c: "c \<in> set cs" "x \<in> set (nodes c)" using Element.prems(1) by auto
      have "isElement c" using c(2) Element.prems(2) by (cases c rule: node.exhaust) auto
      moreover have "x \<in> set (filterElementGeneric [tag] DOCUMENT True True c)"
        using Element.IH [OF c Element.prems(2,3)] by simp
      ultimately show ?thesis using c(1) by (auto simp: Let_def intro!: bexI [of _ c])
    qed
  qed auto
  then show "x \<in> set (nodes n) \<Longrightarrow> x \<noteq> n \<Longrightarrow> isElement x \<Longrightarrow> TAGNAME x = tag \<Longrightarrow> x \<in> set (filterChildElements tag n True)"
    by (simp add: filterChildElements_def)
qed

text \<open>
  Every script with a \<open>src\<close> attribute is reported for having both the attribute and children, also when the
  document gives it no children: the preparation of the document appends the downloaded text before the check.
\<close>

theorem src_script_always_reported:
  assumes "document ds = Some doc" and "scxml_element ds = None" and "find_scxml doc = Some doc"
    and "setupDOM uid fetch baseName ds = Inr ds'" and "document ds' = Some doc'"
    and "e \<in> set (nodes doc')" and "isElement e" and "TAGNAME e = XML_PREFIX doc @ ''script''" and "HAS_ATTR e ''src''"
  shows "\<exists>i. script_attr_issues doc' e = [i] \<and> message i = ''Script element cannot have src attribute and children''"
proof -
  let ?tag = "XML_PREFIX doc @ ''script''"
  have "download_scripts uid fetch (filterChildElements ?tag doc True) doc = Inr doc'"
    using assms(1-5) by (auto simp: setupDOM_def Let_def split: sum.splits)
  from download_grown [OF this assms(6,7)] obtain x where x: "x \<in> set (nodes doc)" "grown_from e x"
    and c: "\<And>s. s \<in> set (filterChildElements ?tag doc True) \<Longrightarrow> nid s = nid x \<Longrightarrow> HAS_ATTR s ''src'' \<Longrightarrow> childNodes e \<noteq> []" by blast
  have t: "TAGNAME x = ?tag" and s: "HAS_ATTR x ''src''" and el: "isElement x"
    using x(2) assms(8,9) by (simp_all add: grown_from_def TAGNAME_def XML_PREFIX_def HAS_ATTR_def)
  have "x \<noteq> doc"
  proof
    assume "x = doc"
    then have "LOCALNAME doc = ''script''" and "TAGNAME doc = ?tag" using t by (simp_all add: TAGNAME_def)
    then have "LOCALNAME doc \<noteq> ''scxml''" and "length (TAGNAME doc) \<noteq> length ''scxml''" by simp_all
    moreover have "LOCALNAME doc = ''scxml'' \<or> TAGNAME doc = ''scxml''"
      using assms(3) by (auto simp: find_scxml_def find_Some_iff split: option.splits)
    ultimately show False by metis
  qed
  then have "childNodes e \<noteq> []" using c [OF filterChildElements_deep [OF x(1) _ el t] refl s] by blast
  then show ?thesis using assms(9) by (simp add: script_attr_issues_def issue_if_def InterpreterIssue_new_def)
qed

definition script_doc :: node where
  "script_doc = Element 0 None ''scxml'' [] [] [Element 1 None ''script'' [] [(''src'', ''u'')] []]"

theorem src_script_always_reported_witness:
  "\<exists>i. script_attr_issues (appendChild 1 (Text 2 ''x'') script_doc)
     (Element 1 None ''script'' [] [(''src'', ''u'')] [Text 2 ''x'']) = [i] \<and>
     message i = ''Script element cannot have src attribute and children''"
proof (rule src_script_always_reported)
  let ?ds = "\<lparr>document = Some script_doc, scxml_element = None, xmlPrefix = [], xmlNS = [], docName = [], lateBinding = False\<rparr>"
  let ?ds' = "\<lparr>document = Some (appendChild 1 (Text 2 ''x'') script_doc),
     scxml_element = Some (appendChild 1 (Text 2 ''x'') script_doc), xmlPrefix = [], xmlNS = [], docName = ''b'', lateBinding = False\<rparr>"
  show "document ?ds = Some script_doc" "scxml_element ?ds = None" by simp_all
  show "find_scxml script_doc = Some script_doc" by code_simp
  show "setupDOM [] (\<lambda>_. Inr ''x'') ''b'' ?ds = Inr ?ds'" by code_simp
qed (simp_all add: script_doc_def TAGNAME_def XML_PREFIX_def HAS_ATTR_def)

subsection \<open>Documents without a machine\<close>

lemma nids_appendChild: "i \<in> set (nids n) \<Longrightarrow> i \<in> set (nids (appendChild j new n))"
  by (induction n) (auto simp: map_concat comp_def)

lemma nids_download: "download_scripts uid fetch scripts doc = Inr doc' \<Longrightarrow> set (nids doc) \<subseteq> set (nids doc')"
proof (induction uid fetch scripts doc rule: download_scripts.induct)
  case (2 uid fetch script scripts doc)
  have "set (nids doc) \<subseteq> set (nids (appendChild (nid script) new doc))" for new using nids_appendChild by blast
  moreover have "\<exists>doc1. download_scripts uid fetch scripts doc1 = Inr doc' \<and> set (nids doc1) \<subseteq> set (nids doc') \<and>
      (doc1 = doc \<or> (\<exists>new. doc1 = appendChild (nid script) new doc))"
  proof (cases "HAS_ATTR script ''src''")
    case True
    then obtain contents where c: "length (ATTR script ''src'') > 0" "fetch (ATTR script ''src'') = Inr contents"
      "download_scripts uid fetch scripts (appendChild (nid script) (Text (fresh_nid doc) contents) doc) = Inr doc'"
      using "2.prems" by (auto simp: Let_def split: if_splits sum.splits)
    then show ?thesis using "2.IH"(1) [OF True refl c(1,2,3)] by blast
  next
    case False
    then have "download_scripts uid fetch scripts doc = Inr doc'" using "2.prems" by simp
    then show ?thesis using "2.IH"(2) [OF False] by blast
  qed
  ultimately show ?case by blast
qed simp

lemma find_scxml_node: "find_scxml doc = Some s \<Longrightarrow> s \<in> set (nodes doc)"
  by (auto simp: find_scxml_def find_Some_iff split: option.splits)

text \<open>
  The issue ``No SCXML element to be found'' is never reported: a document that has been prepared has its element, and
  the preparation of one without throws.
\<close>

lemma setupDOM_element:
  assumes "setupDOM uid fetch baseName ds = Inr ds'" and "scxml_element ds = None"
  shows "\<exists>doc scxml. document ds' = Some doc \<and> scxml_element ds' = Some scxml \<and> scxml \<in> set (nodes doc)"
proof -
  from assms obtain doc s doc' where s: "find_scxml doc = Some s"
    and d: "download_scripts uid fetch (filterChildElements (XML_PREFIX s @ ''script'') s True) doc = Inr doc'"
    and ds: "document ds' = Some doc'" "scxml_element ds' = List.find (same s) (nodes doc')"
    by (auto simp: setupDOM_def Let_def split: option.splits sum.splits)
  have "nid s \<in> set (nids doc')" using nids_download [OF d] find_scxml_node [OF s] by auto
  then obtain x where "x \<in> set (nodes doc')" "same s x" by (auto simp: same_def)
  then obtain y where "List.find (same s) (nodes doc') = Some y"
    by (cases "List.find (same s) (nodes doc')") (auto simp: find_None_iff)
  then show ?thesis using ds by (auto simp: find_Some_iff)
qed

end
