(* ===== verification/Redundancy.thy ===== *)
theory Redundancy
  imports Configurations MicroStep_Machines
begin

text \<open>
  The issue ``Transition can never be optimally enabled'' against the micro stepper: in the tables that
  \<open>init\<close> builds from a document, the transition that the checker names is never selected, because the earlier
  transition of the same state is enabled whenever it is, precedes it in the table and conflicts with it.
\<close>

subsection \<open>Event descriptors\<close>

text \<open>Descriptors without upper case, and without a second dot or star before the last one.\<close>

definition plain :: "string \<Rightarrow> bool" where
  "plain s \<longleftrightarrow> map tolower s = s"

definition normal_descs :: "string \<Rightarrow> bool" where
  "normal_descs s \<longleftrightarrow> (\<forall>d \<in> set (tokens s). strip_desc (strip_desc d) = strip_desc d)"

lemma plain_iequals: "plain a \<Longrightarrow> plain b \<Longrightarrow> iequals a b \<longleftrightarrow> a = b"
  by (simp add: plain_def iequals_iff)

lemma is_sep_space: "is_sep (CHR '' '') True = isspace"
  by (auto simp: is_sep_def isspace_def)

lemma tokens_words: "tokens s = words isspace s"
  by (simp add: tokenize_words is_sep_space)

lemma nameMatch_iff: "nameMatch descs ev \<longleftrightarrow> descs \<noteq> [] \<and> ev \<noteq> [] \<and>
     (iequals descs ev \<or> (\<exists>d \<in> set (tokens descs). (1 < length d \<or> d = descs) \<and> descMatches d ev))"
  unfolding tokens_words by (auto simp: nameMatch_def some_word_0 some_word_def seen_word_def)

lemma plain_word: "plain s \<Longrightarrow> w \<in> set (tokens s) \<Longrightarrow> plain w"
proof -
  assume s: "plain s" and w: "w \<in> set (tokens s)"
  have "tolower c = c" if "c \<in> set s" for c using s that by (metis map_eq_conv plain_def list.map_ident)
  moreover have "set w \<subseteq> set s" using words_sound [of w isspace s] w by (auto simp: tokens_words)
  ultimately show "plain w" unfolding plain_def by (intro map_idI) blast
qed

text \<open>Removing a star and a dot from \<open>x . r\<close> leaves \<open>x\<close> or \<open>x . r'\<close>.\<close>

lemma strip_after_dot: "strip_desc (x @ ''.'' @ r) = x \<or> (\<exists>r'. strip_desc (x @ ''.'' @ r) = x @ ''.'' @ r')"
proof (cases r rule: rev_cases)
  case Nil
  then show ?thesis by (simp add: strip_desc_def)
next
  case (snoc r1 c)
  show ?thesis
  proof (cases "c = CHR ''*''")
    case True
    then have "strip_desc (x @ ''.'' @ r) = (if last (x @ ''.'' @ r1) = CHR ''.'' then butlast (x @ ''.'' @ r1) else x @ ''.'' @ r1)"
      unfolding snoc by (simp add: strip_desc_def Let_def butlast_append)
    then show ?thesis by (cases r1 rule: rev_cases) (auto simp: butlast_append)
  next
    case False
    then have "strip_desc (x @ ''.'' @ r) = (if c = CHR ''.'' then x @ ''.'' @ r1 else x @ ''.'' @ r)"
      unfolding snoc by (simp add: strip_desc_def Let_def butlast_append)
    then show ?thesis by auto
  qed
qed

lemma descMatches_trans:
  assumes "plain d" and "plain w" and "plain ev" and "strip_desc (strip_desc d) = strip_desc d"
    and "descMatches d w" and "descMatches w ev"
  shows "descMatches d ev"
proof (cases "strip_desc d = []")
  case False
  let ?x = "strip_desc d"
  have px: "plain ?x" using assms(1) by (auto simp: strip_desc_def plain_def Let_def map_butlast)
  have pw: "plain (strip_desc w)" using assms(2) by (auto simp: strip_desc_def plain_def Let_def map_butlast)
  have "w = ?x \<or> (\<exists>r. w = ?x @ ''.'' @ r)"
    using assms(5) False plain_iequals [OF px assms(2)] by (auto simp: descMatches_iff)
  then have s: "strip_desc w = ?x \<or> (\<exists>r. strip_desc w = ?x @ ''.'' @ r)"
    using assms(4) strip_after_dot by metis
  then have "strip_desc w \<noteq> []" using False by auto
  then have "ev = strip_desc w \<or> (\<exists>rest. ev = strip_desc w @ ''.'' @ rest)"
    using assms(6) plain_iequals [OF pw assms(3)] by (auto simp: descMatches_iff)
  then have "ev = ?x \<or> (\<exists>rest. ev = ?x @ ''.'' @ rest)" using s by auto
  then show ?thesis by (auto simp: descMatches_iff)
qed (simp add: descMatches_iff)

text \<open>When the earlier descriptors match every later one as a name, they match every event the later ones match.\<close>

lemma descriptors_cover:
  assumes "plain d1" and "plain d2" and "plain ev" and "normal_descs d1" and "\<forall>c \<in> set ev. \<not> isspace c"
    and all: "\<forall>w \<in> set (tokens d2). nameMatch d1 w" and m: "nameMatch d2 ev"
  shows "nameMatch d1 ev"
proof -
  have single: "tokens s = [s]" if "s \<noteq> []" "\<forall>c \<in> set s. \<not> isspace c" for s
    using words_all [of s isspace] that by (simp add: tokens_words)
  have ev: "ev \<noteq> []" using m by (simp add: nameMatch_iff)
  consider "ev = d2" | w where "w \<in> set (tokens d2)" "descMatches w ev"
    using m plain_iequals [OF assms(2,3)] by (auto simp: nameMatch_iff)
  then show ?thesis
  proof cases
    case 1
    then show ?thesis using all single [OF ev assms(5)] by simp
  next
    case 2
    have nm: "nameMatch d1 w" using all 2(1) by blast
    have pw: "plain w" by (rule plain_word [OF assms(2) 2(1)])
    consider "d1 = w" | d where "d \<in> set (tokens d1)" "1 < length d \<or> d = d1" "descMatches d w"
      using nm plain_iequals [OF assms(1) pw] by (auto simp: nameMatch_iff)
    then show ?thesis
    proof cases
      case 1
      have "w \<noteq> []" using nm by (simp add: nameMatch_iff)
      moreover have "\<forall>c \<in> set w. \<not> isspace c" using 2(1) words_sound unfolding tokens_words by blast
      ultimately have "tokens d1 = [d1]" using single 1 by simp
      then show ?thesis using 2(2) 1 ev \<open>w \<noteq> []\<close> by (auto simp: nameMatch_iff)
    next
      case (2 d)
      have "descMatches d ev"
        using descMatches_trans [OF plain_word [OF assms(1) 2(1)] pw assms(3)] assms(4) 2 \<open>descMatches w ev\<close>
        by (auto simp: normal_descs_def)
      then show ?thesis using 2 ev nm by (auto simp: nameMatch_iff)
    qed
  qed
qed

subsection \<open>Transitions of a state in the table\<close>

lemma filterChildElements_flat: "filterChildElements tag n False = filter (\<lambda>c. isElement c \<and> TAGNAME c = tag) (childNodes n)"
proof (cases n)
  case (Element i p l ns as cs)
  have "concat (map (\<lambda>c. if \<not> isElement c then [] else if TAGNAME c = tag then [c] else []) cs) =
      filter (\<lambda>c. isElement c \<and> TAGNAME c = tag) cs"
    by (induction cs) auto
  then show ?thesis by (simp add: Element filterChildElements_def cong: if_cong)
qed (simp_all add: filterChildElements_def)

lemma parent_of_child:
  assumes d: "distinct (nids d)" and n: "n \<in> set (nodes d)" and c: "c \<in> set (childNodes n)"
  shows "getParentNode d c = Some n"
proof -
  obtain i p l ns as cs where e: "n = Element i p l ns as cs" using c by (cases n) auto
  have cn: "c \<in> set (nodes n)" using child_nodes c by blast
  have dn: "distinct (nids n)" by (rule distinct_sub [OF d n])
  have "path_to (nid c) c = [c]" by (cases c) auto
  then have "path_to (nid c) n = [c, n]"
    using path_to_child [of i p l ns as cs c "nid c"] dn c e by simp
  then have "path_to (nid c) d = c # n # tl (path_to (nid n) d)" using path_to_through [OF d n cn] by simp
  then show ?thesis by (simp add: getParentNode_def parents_def)
qed

lemma same_opt_refl: "same_opt x x"
  by (cases x) (simp_all add: same_opt_def same_def)

lemma redundant_split:
  "t \<in> set (redundant earlier ts) \<Longrightarrow> \<exists>us vs e. ts = us @ t # vs \<and> e \<in> set (earlier @ us) \<and> always_before e t"
proof (induction earlier ts rule: redundant.induct)
  case (2 earlier t' ts)
  show ?case
  proof (cases "t \<in> set (redundant (earlier @ [t']) ts)")
    case True
    then obtain us vs e where "ts = us @ t # vs" "e \<in> set ((earlier @ [t']) @ us)" "always_before e t" using "2.IH" by blast
    then have "t' # ts = (t' # us) @ t # vs \<and> e \<in> set (earlier @ t' # us) \<and> always_before e t" by simp
    then show ?thesis by blast
  next
    case False
    then have "t = t'" and "list_ex (\<lambda>e. always_before e t') earlier" using "2.prems" by (auto split: if_splits)
    then obtain e where "t' # ts = [] @ t # ts \<and> e \<in> set (earlier @ []) \<and> always_before e t" by (auto simp: list_ex_iff)
    then show ?thesis by blast
  qed
qed simp

lemma earlier_in_table:
  assumes d: "distinct (nids d)" and st: "state \<in> set (nodes d)"
    and F: "filterChildElements tag state False = us @ t # vs" and e: "e \<in> set us"
  shows "set L \<subseteq> set (nodes d) \<Longrightarrow> j < length (filterChildElementsOf tag L False) \<Longrightarrow> filterChildElementsOf tag L False ! j = t \<Longrightarrow>
    \<exists>i < j. filterChildElementsOf tag L False ! i = e"
proof (induction L arbitrary: j)
  case (Cons n L)
  let ?F = "if isElement n then filterChildElements tag n False else []"
  let ?R = "filterChildElementsOf tag L False"
  have split: "filterChildElementsOf tag (n # L) False = ?F @ ?R" by (simp add: filterChildElementsOf_def)
  show ?case
  proof (cases "j < length ?F")
    case True
    then have "t \<in> set ?F" using Cons.prems(3) split by (metis nth_append nth_mem)
    then have "t \<in> set (childNodes n)" by (auto simp: filterChildElements_flat split: if_splits)
    moreover have "t \<in> set (filterChildElements tag state False)" using F by simp
    then have "t \<in> set (childNodes state)" by (simp add: filterChildElements_flat)
    ultimately have "n = state"
      using parent_of_child [OF d, of n t] parent_of_child [OF d st, of t] Cons.prems(1) by simp
    then have f: "?F = us @ t # vs" using \<open>t \<in> set ?F\<close> F by (auto split: if_splits)
    have "distinct (nids state)" by (rule distinct_sub [OF d st])
    then have "distinct (childNodes state)" by (rule distinct_childNodes)
    then have "distinct ?F" using \<open>n = state\<close> by (simp add: filterChildElements_flat)
    moreover have "?F ! j = t" using Cons.prems(3) True split by (simp add: nth_append)
    moreover have "?F ! length us = t" using f by simp
    moreover have "length us < length ?F" using f by simp
    ultimately have "j = length us" using True nth_eq_iff_index_eq [of ?F j "length us"] by simp
    obtain i where "i < length us" "us ! i = e" using e by (metis in_set_conv_nth)
    then have "i < j \<and> (?F @ ?R) ! i = e" using f \<open>j = length us\<close> by (simp add: nth_append)
    then show ?thesis unfolding split by blast
  next
    case False
    have "?R ! (j - length ?F) = t" using Cons.prems(3) False split by (simp add: nth_append)
    moreover have "j - length ?F < length ?R" using Cons.prems(2) False unfolding split by simp
    moreover have "set L \<subseteq> set (nodes d)" using Cons.prems(1) by simp
    ultimately obtain i where i: "i < j - length ?F" "?R ! i = e" using Cons.IH by blast
    then have "i + length ?F < j \<and> (?F @ ?R) ! (i + length ?F) = e" by (simp add: nth_append)
    then show ?thesis unfolding split by blast
  qed
qed (simp add: filterChildElementsOf_def)

text \<open>What the table says of a transition whose parent is \<open>state\<close>.\<close>

lemma pseudo_flag:
  assumes "getParentNode d el = Some state"
  shows "has_flag (transition_type d el) (TRANS_HISTORY OR TRANS_INITIAL) \<longleftrightarrow>
      iequals (TAGNAME state) (XML_PREFIX d @ ''history'') \<or> iequals (TAGNAME state) (XML_PREFIX d @ ''initial'')"
proof -
  have "has_flag ((if a then TRANS_TARGETLESS else 0) OR (if b then TRANS_INTERNAL else 0) OR
      (if c then TRANS_SPONTANEOUS else 0) OR (if x then TRANS_HISTORY else 0) OR (if y then TRANS_INITIAL else 0))
      (TRANS_HISTORY OR TRANS_INITIAL) \<longleftrightarrow> x \<or> y" for a b c x y
    by (cases a; cases b; cases c; cases x; cases y) (simp_all add: trans_type_defs has_flag_def)
  then show ?thesis unfolding transition_type_def Let_def assms option.case .
qed

lemma init_transition_element: "init_transition d sts ids trs i = Some r \<Longrightarrow> t_element r = trs ! i"
  by (auto simp: init_transition_def Let_def split: option.splits)

lemma init_transition_fields:
  assumes "init_transition d sts ids trs i = Some r" and "getParentNode d (trs ! i) = Some state"
  shows "index_of sts state = Some (t_source r) \<and> t_element r = trs ! i \<and> t_type r = transition_type d (trs ! i) \<and>
    t_event r = (if HAS_ATTR (trs ! i) ''event'' then ATTR (trs ! i) ''event'' else []) \<and>
    t_cond r = (if HAS_ATTR (trs ! i) ''cond'' then ATTR (trs ! i) ''cond'' else [])"
  using assms by (auto simp: init_transition_def Let_def split: option.splits)

definition tidy :: "node \<Rightarrow> bool" where
  "tidy e \<longleftrightarrow> LOCALNAME e = ''transition'' \<and> plain (ATTR e ''event'') \<and> normal_descs (ATTR e ''event'') \<and>
     (HAS_ATTR e ''event'' \<longrightarrow> tokens (ATTR e ''event'') \<noteq> [])"

lemma always_before_enabled:
  assumes "always_before e tr" and "tidy e" and "tidy tr" and "plain ev" and "\<forall>c \<in> set ev. \<not> isspace c"
  shows "\<not> HAS_ATTR e ''cond'' \<and> (\<not> HAS_ATTR e ''event'' \<or> HAS_ATTR tr ''event'' \<and>
    (nameMatch (ATTR tr ''event'') ev \<longrightarrow> nameMatch (ATTR e ''event'') ev))"
  using assms descriptors_cover [of "ATTR e ''event''" "ATTR tr ''event''" ev]
  by (auto simp: always_before_def tidy_def list_all_iff split: if_splits)

lemma tidy_attr: "tidy e \<Longrightarrow> HAS_ATTR e ''event'' \<Longrightarrow> ATTR e ''event'' \<noteq> []"
  by (auto simp: tidy_def tokens_words)

text \<open>The earlier transition of the same state in the tables of a document.\<close>

lemma earlier_transition:
  assumes d: "distinct (nids scxml)" and i: "ms_init scxml = Some (t, m)"
    and st: "state \<in> set (nodes (machine scxml))" and j: "j < NUMBER_TRANS t"
    and r: "t_element (GET_TRANS t j) \<in> set (redundant [] (transitions_in state False))"
    and tidy: "\<forall>e \<in> set (transitions_in state False). tidy e"
  obtains i e where "i < j" and "t_element (GET_TRANS t i) = e" and "e \<in> set (transitions_in state False)"
    and "always_before e (t_element (GET_TRANS t j))" and "conflicting t i j"
    and "t_source (GET_TRANS t i) = t_source (GET_TRANS t j)" and "isPseudoTrans t i = isPseudoTrans t j"
    and "t_event (GET_TRANS t i) = (if HAS_ATTR e ''event'' then ATTR e ''event'' else [])"
    and "t_cond (GET_TRANS t i) = (if HAS_ATTR e ''cond'' then ATTR e ''cond'' else [])"
    and "t_event (GET_TRANS t j) = (if HAS_ATTR (t_element (GET_TRANS t j)) ''event''
       then ATTR (t_element (GET_TRANS t j)) ''event'' else [])"
proof -
  let ?d = "machine scxml" let ?L = "collectStates ?d" let ?T = "collectTransitions ?d"
  let ?tj = "t_element (GET_TRANS t j)"
  from i obtain late where k: "NUMBER_TRANS t = length ?T"
    and tr: "\<And>i. i < NUMBER_TRANS t \<Longrightarrow> init_transition ?d ?L (t_stateIds t) ?T i = Some (GET_TRANS t i)"
    by (rule ms_init_cases) (rule that)
  have dd: "distinct (nids ?d)" using d distinct_machine by simp
  let ?tag = "XML_PREFIX ?d @ ''transition''"
  obtain S where T: "?T = filterChildElementsOf ?tag S False" and S: "set S \<subseteq> set (nodes ?d)"
    by (rule that [of "inPostFixOrder [XML_PREFIX ?d @ ''scxml'', XML_PREFIX ?d @ ''state'', XML_PREFIX ?d @ ''final'',
        XML_PREFIX ?d @ ''history'', XML_PREFIX ?d @ ''initial'', XML_PREFIX ?d @ ''parallel''] ?d"])
      (auto simp: collectTransitions_def Let_def inPostFixOrder_def dest: filterElementGeneric_sub)
  have el: "t_element (GET_TRANS t i) = ?T ! i" if "i < NUMBER_TRANS t" for i
    by (rule init_transition_element [OF tr [OF that]])
  from redundant_split [OF r] obtain us vs e where F: "transitions_in state False = us @ ?tj # vs"
    and e: "e \<in> set us" and b: "always_before e ?tj" by auto
  have in_st: "x \<in> set (transitions_in state False) \<Longrightarrow> x \<in> set (childNodes state) \<and> TAGNAME x = XML_PREFIX state @ ''transition''" for x
    by (simp add: filterChildElements_flat)
  have mem: "e \<in> set (transitions_in state False)" "?tj \<in> set (transitions_in state False)" using F e by simp_all
  have par: "getParentNode ?d e = Some state" "getParentNode ?d ?tj = Some state"
    using parent_of_child [OF dd st] in_st mem by blast+
  have "?tj \<in> set ?T" using el [OF j] j k by simp
  then have "TAGNAME ?tj = ?tag" by (auto simp: T filterChildElementsOf_def filterChildElements_flat split: if_splits)
  then have px: "XML_PREFIX state = XML_PREFIX ?d" using in_st [OF mem(2)] by simp
  have pe: "XML_PREFIX x = XML_PREFIX ?d" if "x \<in> set (transitions_in state False)" for x
    using in_st [OF that] tidy that px by (auto simp: tidy_def TAGNAME_def)
  have "\<exists>i < j. filterChildElementsOf ?tag S False ! i = e"
  proof (rule earlier_in_table [OF dd st _ e S])
    show "filterChildElements ?tag state False = us @ ?tj # vs" using F px by simp
    show "j < length (filterChildElementsOf ?tag S False)" using j k T by simp
    show "filterChildElementsOf ?tag S False ! j = ?tj" using el [OF j] T by simp
  qed
  then obtain i where ij: "i < j" and ie: "?T ! i = e" unfolding T by blast
  have ik: "i < NUMBER_TRANS t" using ij j by simp
  have pi: "getParentNode ?d (?T ! i) = Some state" and pj: "getParentNode ?d (?T ! j) = Some state"
    using par ie el [OF j] by simp_all
  note fi = init_transition_fields [OF tr [OF ik] pi] and fj = init_transition_fields [OF tr [OF j] pj]
  have "getSourceState ?d e = getSourceState ?d ?tj" using par pe mem by (simp add: getSourceState_def)
  then have "conflicts ?d e ?tj ?d" using same_opt_refl by (simp add: conflicts_def)
  then have "conflicting t i j"
    using init_transition_conflicts [OF tr [OF ik]] j k ij ie el [OF j] by (simp add: conflicting_def BIT_HAS_def conflict_bit_def)
  moreover have "isPseudoTrans t i = isPseudoTrans t j"
    using fi fj pseudo_flag [OF pi] pseudo_flag [OF pj] by (simp add: isPseudoTrans_def)
  ultimately show thesis
    using that [OF ij _ mem(1) b] el [OF ik] ie fi fj el [OF j] by simp
qed


text \<open>
  Two regions with transitions to themselves on \<open>e\<close>; \<open>b\<close> has a second, targetless transition for the same
  event, which the checker calls redundant. With both regions active on \<open>e\<close> the micro stepper selects the
  transition of \<open>a\<close>, which exits both regions, and the redundant one.
\<close>

definition tr_a :: node where "tr_a = Element 3 None ''transition'' [] [(''event'', ''e''), (''target'', ''a'')] []"
definition tr_b1 :: node where "tr_b1 = Element 5 None ''transition'' [] [(''event'', ''e''), (''target'', ''b'')] []"
definition tr_b2 :: node where "tr_b2 = Element 6 None ''transition'' [] [(''event'', ''e'')] []"
definition region_b :: node where "region_b = Element 4 None ''state'' [] [(''id'', ''b'')] [tr_b1, tr_b2]"

definition regions_doc :: node where
  "regions_doc = Element 0 None ''scxml'' [] []
    [Element 1 None ''parallel'' [] [] [Element 2 None ''state'' [] [(''id'', ''a'')] [tr_a], region_b]]"

definition matching_cb :: "Event list callbacks" where
  "matching_cb = sample_cb\<lparr>cb_isMatched := (\<lambda>ev d. nameMatch d (ename ev))\<rparr>"

lemma regions_selected:
  "case ms_init regions_doc of None \<Rightarrow> False
   | Some (t, m) \<Rightarrow> t_element (GET_TRANS t 2) \<in> set (redundant [] (transitions_in region_b False)) \<and>
       BIT_HAS 2 (sel_trans (select_transitions t matching_cb [True, True, True, True] (Event_named ''e'' EXTERNAL) []))"
  by code_simp


end
