(* ===== verification/Json.thy ===== *)
theory Json
  imports Events
begin

text \<open>
  Reading JSON: the tokeniser \<open>src/contrib/src/jsmn/jsmn.c\<close> (built without \<open>JSMN_STRICT\<close> and
  \<open>JSMN_PARENT_LINKS\<close>) and \<open>Data::fromJSON\<close> of \<open>src/src/uscxml/messages/Data.cpp\<close>, which builds a value from the tokens.
  The text is a C string: it ends at its first zero byte. Positions are natural numbers, so a text is taken to be shorter than \<open>2^31\<close>.
\<close>

subsection \<open>Tokens\<close>

datatype jsmntype = JSMN_PRIMITIVE | JSMN_OBJECT | JSMN_ARRAY | JSMN_STRING

datatype jsmnerr = JSMN_ERROR_NOMEM | JSMN_ERROR_INVAL | JSMN_ERROR_PART | JSMN_SUCCESS

record jsmntok =
  tok_type :: jsmntype
  tok_start :: int
  tok_end :: int
  tok_size :: int

text \<open>
  The pool of tokens is the list of those that are allocated, so that \<open>toknext\<close> is its length; the others are zero.
\<close>

record jsmn_parser =
  pos :: nat
  toksuper :: int
  toks :: "jsmntok list"

definition jsmn_init :: jsmn_parser where
  "jsmn_init = \<lparr>pos = 0, toksuper = - 1, toks = []\<rparr>"

definition jsmn_alloc_token :: "nat \<Rightarrow> jsmn_parser \<Rightarrow> jsmn_parser option" where
  "jsmn_alloc_token num_tokens p =
    (if length (toks p) \<ge> num_tokens then None
     else Some (p\<lparr>toks := toks p @ [\<lparr>tok_type = JSMN_PRIMITIVE, tok_start = - 1, tok_end = - 1, tok_size = 0\<rparr>]\<rparr>))"

definition jsmn_fill_token :: "jsmntype \<Rightarrow> nat \<Rightarrow> nat \<Rightarrow> jsmn_parser \<Rightarrow> jsmn_parser" where
  "jsmn_fill_token type s e p =
     p\<lparr>toks := (toks p)[length (toks p) - 1 := \<lparr>tok_type = type, tok_start = int s, tok_end = int e, tok_size = 0\<rparr>]\<rparr>"

definition is_space :: "char \<Rightarrow> bool" where
  "is_space c = (c = CHR 0x09 \<or> c = CHR 0x0D \<or> c = CHR 0x0A \<or> c = CHR '' '')"

text \<open>The scan of a primitive stops at the end of the text and at a delimiter; other characters that are not printable are an error.\<close>

definition prim_delim :: "char \<Rightarrow> bool" where
  "prim_delim c = (c = CHR '':'' \<or> is_space c \<or> c = CHR '','' \<or> c = CHR '']'' \<or> c = CHR ''}'')"

definition unprintable :: "char \<Rightarrow> bool" where
  "unprintable c = ((of_char c :: nat) < 32 \<or> (of_char c :: nat) \<ge> 127)"

lemma char_at_lt: "char_at js i \<noteq> CHR 0x00 \<Longrightarrow> i < length js"
  by (simp add: char_at_def split: if_splits)

lemma char_at_dec: "c = char_at js i \<Longrightarrow> c \<noteq> CHR 0x00 \<Longrightarrow> length js - Suc i < length js - i"
    "c = char_at js i \<Longrightarrow> c \<noteq> CHR 0x00 \<Longrightarrow> length js - Suc (Suc i) < length js - i"
  using char_at_lt [of js i] by auto

function prim_end :: "string \<Rightarrow> nat \<Rightarrow> nat option" where
  "prim_end js i =
    (let c = char_at js i in
     if c = CHR 0x00 \<or> prim_delim c then Some i
     else if unprintable c then None
     else prim_end js (Suc i))"
  by pat_completeness auto
termination
  by (relation "measure (\<lambda>(js, i). length js - i)") (simp_all add: char_at_dec)

declare prim_end.simps [simp del]

definition jsmn_parse_primitive :: "string \<Rightarrow> nat \<Rightarrow> jsmn_parser \<Rightarrow> jsmnerr \<times> jsmn_parser" where
  "jsmn_parse_primitive js num_tokens p =
    (case prim_end js (pos p) of
       None \<Rightarrow> (JSMN_ERROR_INVAL, p)
     | Some e \<Rightarrow> (case jsmn_alloc_token num_tokens p of
         None \<Rightarrow> (JSMN_ERROR_NOMEM, p)
       | Some p' \<Rightarrow> (JSMN_SUCCESS, (jsmn_fill_token JSMN_PRIMITIVE (pos p) e p')\<lparr>pos := e - 1\<rparr>)))"

text \<open>The scan of a string: the position of the closing quote, or the error.\<close>

definition esc_allowed :: "char \<Rightarrow> bool" where
  "esc_allowed c = (c = CHR 0x22 \<or> c = CHR ''/'' \<or> c = bslash \<or> c = CHR ''b'' \<or> c = CHR ''f'' \<or> c = CHR ''r'' \<or>
     c = CHR ''n'' \<or> c = CHR ''t'' \<or> c = CHR ''u'')"

function string_end :: "string \<Rightarrow> nat \<Rightarrow> jsmnerr + nat" where
  "string_end js i =
    (let c = char_at js i in
     if c = CHR 0x00 then Inl JSMN_ERROR_PART
     else if c = CHR 0x22 then Inr i
     else if c = bslash then
       (if esc_allowed (char_at js (Suc i)) then string_end js (Suc (Suc i)) else Inl JSMN_ERROR_INVAL)
     else string_end js (Suc i))"
  by pat_completeness auto
termination
  by (relation "measure (\<lambda>(js, i). length js - i)") (simp_all add: char_at_dec)

declare string_end.simps [simp del]

definition jsmn_parse_string :: "string \<Rightarrow> nat \<Rightarrow> jsmn_parser \<Rightarrow> jsmnerr \<times> jsmn_parser" where
  "jsmn_parse_string js num_tokens p =
    (case string_end js (Suc (pos p)) of
       Inl r \<Rightarrow> (r, p)
     | Inr e \<Rightarrow> (case jsmn_alloc_token num_tokens p of
         None \<Rightarrow> (JSMN_ERROR_NOMEM, p)
       | Some p' \<Rightarrow> (JSMN_SUCCESS, (jsmn_fill_token JSMN_STRING (Suc (pos p)) e p')\<lparr>pos := e\<rparr>)))"

subsection \<open>The tokeniser\<close>

text \<open>The innermost token that is not closed, among the first \<open>n\<close>.\<close>

definition is_open :: "jsmntok \<Rightarrow> bool" where
  "is_open t = (tok_start t \<noteq> - 1 \<and> tok_end t = - 1)"

fun last_open :: "jsmntok list \<Rightarrow> nat \<Rightarrow> nat option" where
  "last_open ts 0 = None"
| "last_open ts (Suc i) = (if is_open (ts ! i) then Some i else last_open ts i)"

text \<open>One more child for the token \<open>toksuper\<close>.\<close>

definition count_child :: "jsmn_parser \<Rightarrow> jsmn_parser" where
  "count_child p =
    (if toksuper p \<noteq> - 1
     then p\<lparr>toks := (toks p)[nat (toksuper p) := (toks p ! nat (toksuper p))\<lparr>tok_size := tok_size (toks p ! nat (toksuper p)) + 1\<rparr>]\<rparr>
     else p)"

definition jsmn_open :: "nat \<Rightarrow> jsmntype \<Rightarrow> jsmn_parser \<Rightarrow> jsmnerr \<times> jsmn_parser" where
  "jsmn_open num_tokens type p =
    (case jsmn_alloc_token num_tokens p of
       None \<Rightarrow> (JSMN_ERROR_NOMEM, p)
     | Some p' \<Rightarrow>
         (let q = count_child p'; i = length (toks q) - 1 in
          (JSMN_SUCCESS, q\<lparr>toks := (toks q)[i := (toks q ! i)\<lparr>tok_type := type, tok_start := int (pos p)\<rparr>],
             toksuper := int i\<rparr>)))"

definition jsmn_close :: "jsmntype \<Rightarrow> jsmn_parser \<Rightarrow> jsmnerr \<times> jsmn_parser" where
  "jsmn_close type p =
    (case last_open (toks p) (length (toks p)) of
       None \<Rightarrow> (JSMN_ERROR_INVAL, p)
     | Some i \<Rightarrow>
         if tok_type (toks p ! i) \<noteq> type then (JSMN_ERROR_INVAL, p)
         else
           (let ts = (toks p)[i := (toks p ! i)\<lparr>tok_end := int (pos p) + 1\<rparr>] in
            (JSMN_SUCCESS, p\<lparr>toks := ts,
               toksuper := (case last_open ts (Suc i) of None \<Rightarrow> - 1 | Some j \<Rightarrow> int j)\<rparr>)))"

definition counted :: "jsmnerr \<times> jsmn_parser \<Rightarrow> jsmnerr \<times> jsmn_parser" where
  "counted rp = (case rp of (r, p) \<Rightarrow> if r = JSMN_SUCCESS then (r, count_child p) else (r, p))"

definition jsmn_char :: "string \<Rightarrow> nat \<Rightarrow> jsmn_parser \<Rightarrow> jsmnerr \<times> jsmn_parser" where
  "jsmn_char js num_tokens p =
    (let c = char_at js (pos p) in
     if c = CHR ''{'' then jsmn_open num_tokens JSMN_OBJECT p
     else if c = CHR ''['' then jsmn_open num_tokens JSMN_ARRAY p
     else if c = CHR ''}'' then jsmn_close JSMN_OBJECT p
     else if c = CHR '']'' then jsmn_close JSMN_ARRAY p
     else if c = CHR 0x22 then counted (jsmn_parse_string js num_tokens p)
     else if is_space c \<or> c = CHR '':'' \<or> c = CHR '','' then (JSMN_SUCCESS, p)
     else counted (jsmn_parse_primitive js num_tokens p))"

lemma prim_end_ge: "prim_end js i = Some e \<Longrightarrow> i \<le> e"
proof (induction js i rule: prim_end.induct)
  case (1 js i)
  then show ?case by (subst (asm) (2) prim_end.simps) (fastforce simp: Let_def split: if_splits)
qed

lemma string_end_ge: "string_end js i = Inr e \<Longrightarrow> i \<le> e"
proof (induction js i rule: string_end.induct)
  case (1 js i)
  then show ?case by (subst (asm) (3) string_end.simps) (fastforce simp: Let_def split: if_splits)
qed

lemma alloc_pos: "jsmn_alloc_token n p = Some p' \<Longrightarrow> pos p' = pos p"
  by (auto simp: jsmn_alloc_token_def split: if_splits)

lemma count_child_pos [simp]: "pos (count_child p) = pos p" "length (toks (count_child p)) = length (toks p)"
  by (simp_all add: count_child_def)

lemma jsmn_char_pos:
  assumes "jsmn_char js n p = (JSMN_SUCCESS, p')" and "char_at js (pos p) \<noteq> CHR 0x00"
  shows "pos p \<le> pos p'"
proof -
  let ?c = "char_at js (pos p)"
  have prim: "pos p \<le> e - Suc 0" if "\<not> prim_delim ?c" "prim_end js (pos p) = Some e" for e
    using that assms(2) prim_end_ge [of js "Suc (pos p)" e] by (simp add: prim_end.simps [of js "pos p"] Let_def split: if_splits)
  show ?thesis
    using assms
    by (auto simp: jsmn_char_def jsmn_open_def jsmn_close_def counted_def jsmn_parse_string_def jsmn_parse_primitive_def
        jsmn_fill_token_def prim_delim_def Let_def intro!: prim dest: string_end_ge alloc_pos split: if_splits option.splits sum.splits)
qed

function jsmn_loop :: "string \<Rightarrow> nat \<Rightarrow> jsmn_parser \<Rightarrow> jsmnerr \<times> jsmn_parser" where
  "jsmn_loop js num_tokens p =
    (if char_at js (pos p) = CHR 0x00 then (JSMN_SUCCESS, p)
     else case jsmn_char js num_tokens p of (r, p') \<Rightarrow>
       if r = JSMN_SUCCESS then jsmn_loop js num_tokens (p'\<lparr>pos := Suc (pos p')\<rparr>) else (r, p'))"
  by pat_completeness auto
termination
proof (relation "measure (\<lambda>(js, n, p). length js - pos p)", goal_cases)
  case (2 js n p r p')
  then have "pos p \<le> pos p'" using jsmn_char_pos [of js n p p'] by simp
  then show ?case using 2(1) char_at_lt [of js "pos p"] by simp
qed simp

declare jsmn_loop.simps [simp del]

definition jsmn_parse :: "string \<Rightarrow> nat \<Rightarrow> jsmn_parser \<Rightarrow> jsmnerr \<times> jsmn_parser" where
  "jsmn_parse js num_tokens p =
    (case jsmn_loop js num_tokens p of (r, p') \<Rightarrow>
       if r = JSMN_SUCCESS \<and> last_open (toks p') (length (toks p')) \<noteq> None then (JSMN_ERROR_PART, p') else (r, p'))"

subsection \<open>fromJSON: the tokens\<close>

text \<open>
  \<open>boost::trim\<close>. The number of tokens is guessed as a fraction of the length, which is doubled until the
  tokens are enough; the vector has room for \<open>sizeof(jsmntok_t)\<close> times the number of tokens.
\<close>

definition trim :: "string \<Rightarrow> string" where
  "trim s = rev (dropWhile isspace (rev (dropWhile isspace s)))"

fun parse_tokens :: "string \<Rightarrow> nat \<Rightarrow> jsmnerr \<times> jsmntok list \<times> nat" where
  "parse_tokens trimmed frac =
    (let frac' = frac div 2; nrTokens = length trimmed div frac' in
     case jsmn_parse trimmed nrTokens jsmn_init of (rv, p) \<Rightarrow>
       if rv = JSMN_ERROR_NOMEM \<and> frac' > 1 then parse_tokens trimmed frac' else (rv, toks p, nrTokens))"

declare parse_tokens.simps [simp del]

definition zero_tok :: jsmntok where
  "zero_tok = \<lparr>tok_type = JSMN_PRIMITIVE, tok_start = 0, tok_end = 0, tok_size = 0\<rparr>"

definition SIZEOF_JSMNTOK :: nat where "SIZEOF_JSMNTOK = 16"

text \<open>\<open>t[i]\<close>, \<open>None\<close> when the index is outside of the vector.\<close>

definition vec_at :: "jsmntok list \<Rightarrow> nat \<Rightarrow> nat \<Rightarrow> jsmntok option" where
  "vec_at ts nrTokens i =
    (if i < (nrTokens + 1) * SIZEOF_JSMNTOK then Some (if i < length ts then ts ! i else zero_tok) else None)"

definition tok_text :: "string \<Rightarrow> jsmntok \<Rightarrow> string" where
  "tok_text trimmed t = jsonUnescape (substr trimmed (nat (tok_start t)) (nat (tok_end t - tok_start t)))"

subsection \<open>fromJSON: the value\<close>

text \<open>
  The stack of pointers into the value is a stack of paths from its root. Following a pointer to an entry of a map that does not exist yet
  creates the entry, as \<open>operator[]\<close> does.
\<close>

datatype place = Key string | Index int

fun update_path :: "place list \<Rightarrow> (data \<Rightarrow> data) \<Rightarrow> data \<Rightarrow> data" where
  "update_path [] f d = f d"
| "update_path (Key k # ps) f d = put k (update_path ps f (data_at d k)) d"
| "update_path (Index i # ps) f d = put_item i (update_path ps f (item d i)) d"

record build_state =
  root :: data
  dataStack :: "place list list"
  tokenStack :: "jsmntok list"
  currTok :: nat
  b_index :: int

text \<open>What the language leaves undefined: reading past the end of the vector, and the last element of an empty list.\<close>

datatype defect = Read_Past_End | Empty_List

datatype parse_result = Parsed data | Parse_Error Event | Undefined defect

definition is_leaf :: "jsmntok \<Rightarrow> bool" where
  "is_leaf t = (tok_type t = JSMN_PRIMITIVE \<or> tok_type t = JSMN_STRING)"

definition set_leaf :: "string \<Rightarrow> jsmntok \<Rightarrow> data \<Rightarrow> data" where
  "set_leaf trimmed t d = set_atom (tok_text trimmed t) (if tok_type t = JSMN_STRING then set_type VERBATIM d else d)"

text \<open>The \<open>switch\<close> over the type of the current token.\<close>

definition build_value :: "string \<Rightarrow> jsmntok \<Rightarrow> build_state \<Rightarrow> defect + build_state" where
  "build_value trimmed t s =
    (if is_leaf t then
       (case dataStack s of
          [] \<Rightarrow> Inl Empty_List
        | path # rest \<Rightarrow> Inr (s\<lparr>root := update_path path (set_leaf trimmed t) (root s), dataStack := rest,
            currTok := Suc (currTok s)\<rparr>))
     else Inr (s\<lparr>tokenStack := t # tokenStack s, currTok := Suc (currTok s)\<rparr>))"

fun pop_closed :: "int \<Rightarrow> jsmntok list \<Rightarrow> place list list \<Rightarrow> defect + jsmntok list \<times> place list list" where
  "pop_closed e [] ds = Inl Empty_List"
| "pop_closed e (t # ts) ds =
    (if e > tok_end t then (case ds of [] \<Rightarrow> Inl Empty_List | _ # ds' \<Rightarrow> pop_closed e ts ds')
     else Inr (t # ts, ds))"

text \<open>The rest of a round: where the value of the next token goes.\<close>

definition build_place :: "string \<Rightarrow> jsmntok \<Rightarrow> build_state \<Rightarrow> defect + build_state" where
  "build_place trimmed t s =
    (case pop_closed (tok_end t) (tokenStack s) (dataStack s) of
       Inl d \<Rightarrow> Inl d
     | Inr (ts, ds) \<Rightarrow>
         (let s' = s\<lparr>tokenStack := ts, dataStack := ds\<rparr> in
          if tok_type (hd ts) = JSMN_OBJECT \<and> is_leaf t then
            (case ds of
               [] \<Rightarrow> Inl Empty_List
             | path # _ \<Rightarrow>
                 (let new = path @ [Key (tok_text trimmed t)] in
                  Inr (s'\<lparr>root := update_path new (\<lambda>d. d) (root s), dataStack := new # ds, currTok := Suc (currTok s)\<rparr>)))
          else if tok_type (hd ts) = JSMN_ARRAY then
            (case ds of
               [] \<Rightarrow> Inl Empty_List
             | path # _ \<Rightarrow>
                 (let new = path @ [Index (b_index s)] in
                  Inr (s'\<lparr>root := update_path new (\<lambda>d. d) (root s), dataStack := new # ds, b_index := b_index s + 1\<rparr>)))
          else Inr s'))"

lemma build_value_tok: "build_value trimmed t s = Inr s' \<Longrightarrow> currTok s' = Suc (currTok s)"
  by (auto simp: build_value_def split: if_splits list.splits)

lemma build_place_tok: "build_place trimmed t s = Inr s' \<Longrightarrow> currTok s \<le> currTok s'"
  by (auto simp: build_place_def Let_def split: if_splits list.splits sum.splits)

function build_loop :: "string \<Rightarrow> jsmntok list \<Rightarrow> nat \<Rightarrow> build_state \<Rightarrow> parse_result" where
  "build_loop trimmed ts nrTokens s =
    (case vec_at ts nrTokens (currTok s) of
       None \<Rightarrow> Undefined Read_Past_End
     | Some t \<Rightarrow> (case build_value trimmed t s of
         Inl d \<Rightarrow> Undefined d
       | Inr s1 \<Rightarrow> (case vec_at ts nrTokens (currTok s1) of
           None \<Rightarrow> Undefined Read_Past_End
         | Some t' \<Rightarrow>
             if tok_end t' = 0 \<or> tokenStack s1 = [] then Parsed (root s1)
             else (case build_place trimmed t' s1 of
               Inl d \<Rightarrow> Undefined d
             | Inr s2 \<Rightarrow> build_loop trimmed ts nrTokens s2))))"
  by pat_completeness auto
termination
proof (relation "measure (\<lambda>(trimmed, ts, n, s). (n + 1) * SIZEOF_JSMNTOK - currTok s)", goal_cases)
  case (2 trimmed ts n s t s1 t' s2)
  then have "currTok s < (n + 1) * SIZEOF_JSMNTOK" "currTok s < currTok s2"
    using build_value_tok [of trimmed t s s1] build_place_tok [of trimmed t' s1 s2]
    by (auto simp: vec_at_def split: if_splits)
  then show ?case by simp
qed simp

declare build_loop.simps [simp del]

subsection \<open>fromJSON\<close>

abbreviation DATA_CPP :: string where "DATA_CPP \<equiv> ''Data.cpp''"

definition parse_error :: "string \<Rightarrow> string \<Rightarrow> nat \<Rightarrow> string \<Rightarrow> parse_result" where
  "parse_error uid trimmed line what =
     Parse_Error (ERROR_PLATFORM uid (DATA_CPP, line) (''Cannot parse JSON, '' @ what @ ''! Data:['' @ trimmed @ '']''))"

definition fromJSON :: "string \<Rightarrow> string \<Rightarrow> parse_result" where
  "fromJSON uid jsonString =
    (let trimmed = trim jsonString in
     if length trimmed = 0 then Parsed Data_empty
     else if hd trimmed \<noteq> CHR ''{'' \<and> hd trimmed \<noteq> CHR ''['' then
       Parsed (Data_atom jsonString
         (if \<not> isNumeric (takeWhile (\<lambda>c. c \<noteq> CHR 0x00) jsonString) 10 then VERBATIM else INTERPRETED))
     else
       (case parse_tokens trimmed 16 of (rv, ts, nrTokens) \<Rightarrow>
         (case rv of
            JSMN_ERROR_NOMEM \<Rightarrow> parse_error uid trimmed 124 ''not enough tokens were provided''
          | JSMN_ERROR_INVAL \<Rightarrow> parse_error uid trimmed 128 ''invalid character inside JSON string''
          | JSMN_ERROR_PART \<Rightarrow> parse_error uid trimmed 132 ''the string is not a full JSON packet, more bytes expected''
          | JSMN_SUCCESS \<Rightarrow>
              (case vec_at ts nrTokens 0 of
                 None \<Rightarrow> Undefined Read_Past_End
               | Some t \<Rightarrow>
                   if nat (tok_end t) \<noteq> length trimmed then Parsed Data_empty
                   else build_loop trimmed ts nrTokens
                     \<lparr>root = Data_empty, dataStack = [[]], tokenStack = [], currTok = 0, b_index = 0\<rparr>))))"

subsection \<open>Trimmed text\<close>

lemma trim_middle:
  assumes "s \<noteq> []" and "\<not> isspace (hd s)" and "\<not> isspace (last s)" and "list_all isspace a" and "list_all isspace b"
  shows "trim (a @ s @ b) = s"
proof -
  have sp: "list_all isspace w \<Longrightarrow> dropWhile isspace (w @ x) = dropWhile isspace x" for w x by (induction w) auto
  have "dropWhile isspace (a @ s @ b) = s @ b" using sp [OF assms(4)] assms(1,2) by (cases s) auto
  moreover have "dropWhile isspace (rev b @ rev s) = rev s"
    using sp [of "rev b" "rev s"] assms(1,3,5) by (cases s rule: rev_cases) (auto simp: list_all_iff)
  ultimately show ?thesis by (simp add: trim_def)
qed

end
