(* ===== verification/Json_Building.thy ===== *)
theory Json_Building
  imports Json_Reading
begin

text \<open>
  The value that the loop of \<open>fromJSON\<close> builds from the tokens of a JSON text, and the defects it can run into: it
  never reads past the end of its vector, but a text that is no JSON can make it use an empty stack.
\<close>

subsection \<open>The value of a text\<close>

text \<open>
  \<open>json_into v n d\<close> is the value \<open>d\<close> with \<open>v\<close> read into it, where \<open>n\<close> is the index the next array element
  gets: the counter runs through the whole text, it does not start anew in an array. \<open>elems\<close> is the number of array elements.
\<close>

fun elems :: "json \<Rightarrow> int" and elems_members :: "(string \<times> json) list \<Rightarrow> int" and elems_list :: "json list \<Rightarrow> int" where
  "elems (JStr s) = 0"
| "elems (JPrim s) = 0"
| "elems (JObj ms) = elems_members ms"
| "elems (JArr es) = elems_list es"
| "elems_members [] = 0"
| "elems_members ((k, v) # ms) = elems v + elems_members ms"
| "elems_list [] = 0"
| "elems_list (v # vs) = 1 + elems v + elems_list vs"

fun json_into :: "json \<Rightarrow> int \<Rightarrow> data \<Rightarrow> data"
  and members_into :: "(string \<times> json) list \<Rightarrow> int \<Rightarrow> data \<Rightarrow> data"
  and elements_into :: "json list \<Rightarrow> int \<Rightarrow> data \<Rightarrow> data" where
  "json_into (JStr s) n d = set_atom (jsonUnescape s) (set_type VERBATIM d)"
| "json_into (JPrim s) n d = set_atom (jsonUnescape s) d"
| "json_into (JObj ms) n d = members_into ms n d"
| "json_into (JArr es) n d = elements_into es n d"
| "members_into [] n d = d"
| "members_into ((k, v) # ms) n d =
     members_into ms (n + elems v) (put (jsonUnescape k) (json_into v n (data_at d (jsonUnescape k))) d)"
| "elements_into [] n d = d"
| "elements_into (v # vs) n d = elements_into vs (n + 1 + elems v) (put_item n (json_into v (n + 1) (item d n)) d)"

subsection \<open>Paths\<close>

lemma alist_put_twice: "alist_put lt k v (alist_put lt k w m) = alist_put lt k v m"
  by (induction m) auto

lemma put_put: "put k v (put k w d) = put k v d"
  by (cases d) (simp add: alist_put_twice)

lemma put_item_put_item: "put_item i v (put_item i w d) = put_item i v d"
  by (cases d) (simp add: alist_put_twice)

lemma item_put_item: "item (put_item i v d) i = v"
  by (cases d) (simp add: item_def)

lemma update_path_comp: "update_path q f (update_path q g d) = update_path q (\<lambda>x. f (g x)) d"
  by (induction q g d rule: update_path.induct) (simp_all add: put_put put_item_put_item item_put_item)

lemma update_path_snoc: "update_path (q @ ps) f d = update_path q (update_path ps f) d"
  by (induction q "update_path ps f" d rule: update_path.induct) simp_all

subsection \<open>The loop\<close>

text \<open>The second half of a round.\<close>

definition build_check :: "string \<Rightarrow> jsmntok list \<Rightarrow> nat \<Rightarrow> build_state \<Rightarrow> parse_result" where
  "build_check trimmed ts nrTokens s1 =
    (case vec_at ts nrTokens (currTok s1) of
       None \<Rightarrow> Undefined Read_Past_End
     | Some t' \<Rightarrow>
         if tok_end t' = 0 \<or> tokenStack s1 = [] then Parsed (root s1)
         else (case build_place trimmed t' s1 of
           Inl d \<Rightarrow> Undefined d
         | Inr s2 \<Rightarrow> build_loop trimmed ts nrTokens s2))"

lemma build_loop_check: "build_loop trimmed ts nrTokens s =
    (case vec_at ts nrTokens (currTok s) of
       None \<Rightarrow> Undefined Read_Past_End
     | Some t \<Rightarrow> (case build_value trimmed t s of Inl d \<Rightarrow> Undefined d | Inr s1 \<Rightarrow> build_check trimmed ts nrTokens s1))"
  by (subst build_loop.simps) (simp add: build_check_def split: option.split sum.split)

lemma pop_closed_skip:
  "length pend = length dp \<Longrightarrow> \<forall>t \<in> set pend. tok_end t < e \<Longrightarrow> e \<le> tok_end t0 \<Longrightarrow>
   pop_closed e (pend @ t0 # K) (dp @ D) = Inr (t0 # K, D)"
  by (induction pend dp rule: list_induct2) auto

lemma vec_at_mid:
  assumes "i = length xs" and "length (xs @ t # ys) \<le> nr"
  shows "vec_at (xs @ t # ys) nr i = Some t"
  using assms by (simp add: vec_at_def SIZEOF_JSMNTOK_def nth_append)

lemma tok_text_at:
  assumes "js = a @ s @ b" and "shape t = (ty, int (length a), int (length a + length s))"
  shows "tok_text js t = jsonUnescape s"
  using assms by (simp add: tok_text_def shape_def substr_def)

lemma shape_sel: "shape t = (ty, b, e) \<Longrightarrow> tok_type t = ty \<and> tok_start t = b \<and> tok_end t = e"
  by (simp add: shape_def)

text \<open>
  The stacks in front of the second half of a round: on top of what was there are containers that are closed,
  at or before the position \<open>p\<close>, but not yet popped.
\<close>

definition closed_above :: "jsmntok list \<Rightarrow> place list list \<Rightarrow> nat \<Rightarrow> build_state \<Rightarrow> bool" where
  "closed_above K D p s \<longleftrightarrow> (\<exists>pend dp. tokenStack s = pend @ K \<and> dataStack s = dp @ D \<and> length pend = length dp \<and>
     (\<forall>t \<in> set pend. tok_end t \<le> int p))"

lemma pop_closed_above:
  assumes "closed_above (t0 # K) D p s" and "int p < e" and "e \<le> tok_end t0"
  shows "pop_closed e (tokenStack s) (dataStack s) = Inr (t0 # K, D)"
proof -
  obtain pend dp where s: "tokenStack s = pend @ t0 # K" "dataStack s = dp @ D" "length pend = length dp"
    "\<forall>t \<in> set pend. tok_end t \<le> int p" using assms(1) by (auto simp: closed_above_def)
  show ?thesis unfolding s(1,2) by (rule pop_closed_skip) (use s assms(2,3) in auto)
qed

lemma closed_above_pop:
  assumes "closed_above (t0 # K) (q # D) p s" and "p \<le> p'" and "tok_end t0 \<le> int p'"
  shows "closed_above K D p' s"
proof -
  obtain pend dp where s: "tokenStack s = pend @ t0 # K" "dataStack s = dp @ q # D" "length pend = length dp"
    "\<forall>t \<in> set pend. tok_end t \<le> int p" using assms(1) by (auto simp: closed_above_def)
  then show ?thesis
    unfolding closed_above_def using assms(2,3) by (intro exI [of _ "pend @ [t0]"] exI [of _ "dp @ [q]"]) auto
qed

lemma closed_above_mono: "closed_above K D p s \<Longrightarrow> p \<le> p' \<Longrightarrow> closed_above K D p' s"
  unfolding closed_above_def by force

lemma place_member:
  assumes "closed_above (t0 # K) (q # D) p s" and "tok_type t0 = JSMN_OBJECT" and "is_leaf t" and "int p < tok_end t"
    and "tok_end t \<le> tok_end t0" and "vec_at T nr (currTok s) = Some t"
  shows "build_check js T nr s = build_loop js T nr
    \<lparr>root = update_path (q @ [Key (tok_text js t)]) (\<lambda>d. d) (root s), dataStack = (q @ [Key (tok_text js t)]) # q # D,
     tokenStack = t0 # K, currTok = Suc (currTok s), b_index = b_index s\<rparr>"
  using assms(1-6) pop_closed_above [OF assms(1,4,5)]
  by (cases s) (auto simp: build_check_def build_place_def Let_def closed_above_def)

lemma place_element:
  assumes "closed_above (t0 # K) (q # D) p s" and "tok_type t0 = JSMN_ARRAY" and "int p < tok_end t"
    and "tok_end t \<le> tok_end t0" and "vec_at T nr (currTok s) = Some t"
  shows "build_check js T nr s = build_loop js T nr
    \<lparr>root = update_path (q @ [Index (b_index s)]) (\<lambda>d. d) (root s), dataStack = (q @ [Index (b_index s)]) # q # D,
     tokenStack = t0 # K, currTok = currTok s, b_index = b_index s + 1\<rparr>"
  using assms pop_closed_above [OF assms(1,3,4)]
  by (cases s) (auto simp: build_check_def build_place_def Let_def closed_above_def)

lemma leaf_value:
  assumes "T = X @ t # Y" and "length T \<le> nr" and "is_leaf t" and "tok_text js t = jsonUnescape c"
    and "f = (\<lambda>d. set_atom (jsonUnescape c) (if tok_type t = JSMN_STRING then set_type VERBATIM d else d))"
  shows "build_loop js T nr \<lparr>root = r, dataStack = q # D, tokenStack = K, currTok = length X, b_index = n\<rparr> =
    build_check js T nr \<lparr>root = update_path q f r, dataStack = D, tokenStack = K, currTok = Suc (length X), b_index = n\<rparr>"
proof -
  have "set_leaf js t = f" using assms(4,5) by (auto simp: set_leaf_def)
  then show ?thesis
    using vec_at_mid [of "length X" X t Y nr] assms(1-3) by (subst build_loop_check) (simp add: build_value_def)
qed

lemma container_value:
  assumes "T = X @ t # Y" and "length T \<le> nr" and "\<not> is_leaf t"
  shows "build_loop js T nr \<lparr>root = r, dataStack = q # D, tokenStack = K, currTok = length X, b_index = n\<rparr> =
    build_check js T nr \<lparr>root = r, dataStack = q # D, tokenStack = t # K, currTok = Suc (length X), b_index = n\<rparr>"
  using vec_at_mid [of "length X" X t Y nr] assms by (subst build_loop_check) (simp add: build_value_def)

text \<open>A value is read to the path on top of the stack.\<close>

definition reads_value :: "string \<Rightarrow> jsmntok list \<Rightarrow> nat \<Rightarrow> nat \<Rightarrow> nat \<Rightarrow> nat \<Rightarrow> json \<Rightarrow> bool" where
  "reads_value js T nr i j p v \<longleftrightarrow> (\<forall>r g q D K n. \<exists>s'.
     build_loop js T nr \<lparr>root = update_path q g r, dataStack = q # D, tokenStack = K, currTok = i, b_index = n\<rparr> = build_check js T nr s' \<and>
     root s' = update_path q (\<lambda>d. json_into v n (g d)) r \<and> b_index s' = n + elems v \<and> currTok s' = j \<and> closed_above K D p s')"

text \<open>The entries of a container are read to its path.\<close>

definition reads_entries ::
  "string \<Rightarrow> jsmntok list \<Rightarrow> nat \<Rightarrow> nat \<Rightarrow> nat \<Rightarrow> nat \<Rightarrow> nat \<Rightarrow> jsmntype \<Rightarrow> (int \<Rightarrow> data \<Rightarrow> data) \<Rightarrow> int \<Rightarrow> bool" where
  "reads_entries js T nr i j p p' ty f k \<longleftrightarrow> (\<forall>t0 q K D s r g.
     closed_above (t0 # K) (q # D) p s \<longrightarrow> root s = update_path q g r \<longrightarrow> tok_type t0 = ty \<longrightarrow> int p' \<le> tok_end t0 \<longrightarrow> currTok s = i \<longrightarrow>
     (\<exists>s'. build_check js T nr s = build_check js T nr s' \<and> root s' = update_path q (\<lambda>d. f (b_index s) (g d)) r \<and>
        b_index s' = b_index s + k \<and> currTok s' = j \<and> closed_above (t0 # K) (q # D) p' s'))"

lemma reads_container:
  assumes "reads_entries js T nr (Suc (length X)) j (p + 1) (p + 1 + l) ty (json_into v) (elems v)"
    and "T = X @ t # Y" and "length T \<le> nr" and "shape t = (ty, int p, int (p + l + 2))" and "ty = JSMN_OBJECT \<or> ty = JSMN_ARRAY"
  shows "reads_value js T nr (length X) j (p + l + 2) v"
  unfolding reads_value_def
proof (intro allI)
  fix r g q D K n
  let ?r = "update_path q g r"
  let ?s = "\<lparr>root = ?r, dataStack = q # D, tokenStack = t # K, currTok = Suc (length X), b_index = n\<rparr>"
  have ty: "tok_type t = ty" "tok_end t = int (p + l + 2)" "\<not> is_leaf t"
    using shape_sel [OF assms(4)] assms(5) by (auto simp: is_leaf_def)
  have c: "closed_above (t # K) (q # D) (p + 1) ?s" by (auto simp: closed_above_def)
  obtain s' where s': "build_check js T nr ?s = build_check js T nr s'" "root s' = update_path q (\<lambda>d. json_into v n (g d)) r"
    "b_index s' = n + elems v" "currTok s' = j" "closed_above (t # K) (q # D) (p + 1 + l) s'"
    using assms(1) [unfolded reads_entries_def, rule_format, OF c, of g r] ty by auto
  moreover have "closed_above K D (p + l + 2) s'" by (rule closed_above_pop [OF s'(5)]) (use ty in auto)
  ultimately show "\<exists>s'. build_loop js T nr \<lparr>root = ?r, dataStack = q # D, tokenStack = K, currTok = length X, b_index = n\<rparr> =
      build_check js T nr s' \<and> root s' = update_path q (\<lambda>d. json_into v n (g d)) r \<and> b_index s' = n + elems v \<and>
      currTok s' = j \<and> closed_above K D (p + l + 2) s'"
    using container_value [OF assms(2,3) ty(3), of js ?r q D K n] by auto
qed

lemma reads_nothing: "p \<le> p' \<Longrightarrow> f = (\<lambda>n d. d) \<Longrightarrow> reads_entries js T nr i i p p' ty f 0"
  unfolding reads_entries_def using closed_above_mono by fastforce

lemma reads_leaf:
  assumes "T = X @ t # Y" and "length T \<le> nr" and "is_leaf t" and "tok_text js t = jsonUnescape c" and "elems v = 0"
    and "\<And>n. json_into v n = (\<lambda>d. set_atom (jsonUnescape c) (if tok_type t = JSMN_STRING then set_type VERBATIM d else d))"
  shows "reads_value js T nr (length X) (Suc (length X)) p v"
  unfolding reads_value_def leaf_value [OF assms(1-4) refl] update_path_comp
  by (intro allI, rule exI, rule conjI, rule refl) (auto simp: assms(5,6) closed_above_def)

lemma reads_element:
  assumes "reads_value js T nr i j p1 v" and "reads_entries js T nr j k p1 p' JSMN_ARRAY f m"
    and "vec_at T nr i = Some t" and "int p < tok_end t" and "tok_end t \<le> int p'"
  shows "reads_entries js T nr i k p p' JSMN_ARRAY (\<lambda>n d. f (n + 1 + elems v) (put_item n (json_into v (n + 1) (item d n)) d)) (1 + elems v + m)"
  unfolding reads_entries_def
proof (intro allI impI)
  fix t0 q K D s r g
  assume a: "closed_above (t0 # K) (q # D) p s" "root s = update_path q g r" "tok_type t0 = JSMN_ARRAY" "int p' \<le> tok_end t0" "currTok s = i"
  let ?n = "b_index s" and ?h = "\<lambda>d. put_item (b_index s) (json_into v (b_index s + 1) (item (g d) (b_index s))) (g d)"
  have "build_check js T nr s = build_loop js T nr \<lparr>root = update_path (q @ [Index ?n]) (\<lambda>d. d) (root s), dataStack = (q @ [Index ?n]) # q # D,
     tokenStack = t0 # K, currTok = i, b_index = ?n + 1\<rparr>"
    using place_element [OF a(1,3) assms(4), of T nr js] assms(3,5) a(4,5) by simp
  moreover obtain s1 where s1: "build_loop js T nr \<lparr>root = update_path (q @ [Index ?n]) (\<lambda>d. d) (root s), dataStack = (q @ [Index ?n]) # q # D,
     tokenStack = t0 # K, currTok = i, b_index = ?n + 1\<rparr> = build_check js T nr s1"
    "root s1 = update_path (q @ [Index ?n]) (json_into v (?n + 1)) (root s)" "b_index s1 = ?n + 1 + elems v" "currTok s1 = j"
    "closed_above (t0 # K) (q # D) p1 s1"
    using assms(1) unfolding reads_value_def by blast
  moreover have "root s1 = update_path q ?h r" using s1(2) a(2) by (simp add: update_path_snoc update_path_comp)
  ultimately show "\<exists>s'. build_check js T nr s = build_check js T nr s' \<and>
      root s' = update_path q (\<lambda>d. f (?n + 1 + elems v) (put_item ?n (json_into v (?n + 1) (item (g d) ?n)) (g d))) r \<and>
      b_index s' = ?n + (1 + elems v + m) \<and> currTok s' = k \<and> closed_above (t0 # K) (q # D) p' s'"
    using assms(2) [unfolded reads_entries_def, rule_format, OF s1(5), of ?h r] a(3,4) by (auto simp: add_ac)
qed

lemma reads_member:
  assumes "reads_value js T nr (Suc i) j p1 v" and "reads_entries js T nr j k p1 p' JSMN_OBJECT f m"
    and "vec_at T nr i = Some t" and "is_leaf t" and "tok_text js t = key" and "int p < tok_end t" and "tok_end t \<le> int p'"
  shows "reads_entries js T nr i k p p' JSMN_OBJECT (\<lambda>n d. f (n + elems v) (put key (json_into v n (data_at d key)) d)) (elems v + m)"
  unfolding reads_entries_def
proof (intro allI impI)
  fix t0 q K D s r g
  assume a: "closed_above (t0 # K) (q # D) p s" "root s = update_path q g r" "tok_type t0 = JSMN_OBJECT" "int p' \<le> tok_end t0" "currTok s = i"
  let ?n = "b_index s" and ?h = "\<lambda>d. put key (json_into v (b_index s) (data_at (g d) key)) (g d)"
  have "build_check js T nr s = build_loop js T nr \<lparr>root = update_path (q @ [Key key]) (\<lambda>d. d) (root s), dataStack = (q @ [Key key]) # q # D,
     tokenStack = t0 # K, currTok = Suc i, b_index = ?n\<rparr>"
    using place_member [OF a(1,3) assms(4,6), of T nr js] assms(3,5,7) a(4,5) by simp
  moreover obtain s1 where s1: "build_loop js T nr \<lparr>root = update_path (q @ [Key key]) (\<lambda>d. d) (root s), dataStack = (q @ [Key key]) # q # D,
     tokenStack = t0 # K, currTok = Suc i, b_index = ?n\<rparr> = build_check js T nr s1"
    "root s1 = update_path (q @ [Key key]) (json_into v ?n) (root s)" "b_index s1 = ?n + elems v" "currTok s1 = j"
    "closed_above (t0 # K) (q # D) p1 s1"
    using assms(1) unfolding reads_value_def by blast
  moreover have "root s1 = update_path q ?h r" using s1(2) a(2) by (simp add: update_path_snoc update_path_comp)
  ultimately show "\<exists>s'. build_check js T nr s = build_check js T nr s' \<and>
      root s' = update_path q (\<lambda>d. f (?n + elems v) (put key (json_into v ?n (data_at (g d) key)) (g d))) r \<and>
      b_index s' = ?n + (elems v + m) \<and> currTok s' = k \<and> closed_above (t0 # K) (q # D) p' s'"
    using assms(2) [unfolded reads_entries_def, rule_format, OF s1(5), of ?h r] a(3,4) by (auto simp: add_ac)
qed

lemma values_read:
  "json_at p s ts v \<Longrightarrow> js = a @ s @ b \<Longrightarrow> length a = p \<Longrightarrow> T = X @ xs @ Y \<Longrightarrow> map shape xs = ts \<Longrightarrow> length T \<le> nr \<Longrightarrow>
   reads_value js T nr (length X) (length X + length ts) (p + length s) v"
  "members_at p s ts ms \<Longrightarrow> js = a @ s @ b \<Longrightarrow> length a = p \<Longrightarrow> T = X @ xs @ Y \<Longrightarrow> map shape xs = ts \<Longrightarrow> length T \<le> nr \<Longrightarrow>
   reads_entries js T nr (length X) (length X + length ts) p (p + length s) JSMN_OBJECT (members_into ms) (elems_members ms)"
  "elements_at p s ts es \<Longrightarrow> js = a @ s @ b \<Longrightarrow> length a = p \<Longrightarrow> T = X @ xs @ Y \<Longrightarrow> map shape xs = ts \<Longrightarrow> length T \<le> nr \<Longrightarrow>
   reads_entries js T nr (length X) (length X + length ts) p (p + length s) JSMN_ARRAY (elements_into es) (elems_list es)"
proof (induction arbitrary: a b X xs Y and a b X xs Y and a b X xs Y rule: json_at_members_at_elements_at.inducts)
  case (jstr str p)
  then obtain t where xs: "xs = [t]" and t: "shape t = (JSMN_STRING, int (p + 1), int (p + 1 + length str))" by auto
  have "tok_text js t = jsonUnescape str" by (rule tok_text_at [of _ "a @ [Q]" _ "Q # b"]) (use jstr.prems t in auto)
  then show ?case
    using reads_leaf [of T X t Y nr js str "JStr str" "p + length (Q # str @ [Q])"] shape_sel [OF t] jstr.prems xs
    by (simp add: is_leaf_def fun_eq_iff)
next
  case (prim s p)
  then obtain t where xs: "xs = [t]" and t: "shape t = (JSMN_PRIMITIVE, int p, int (p + length s))" by auto
  have "tok_text js t = jsonUnescape s" by (rule tok_text_at [of _ a _ b]) (use prim.prems t in auto)
  then show ?case
    using reads_leaf [of T X t Y nr js s "JPrim s" "p + length s"] shape_sel [OF t] prim.prems xs
    by (simp add: is_leaf_def fun_eq_iff)
next
  case (obj p s ts ms)
  then obtain t us where xs: "xs = t # us" and t: "shape t = (JSMN_OBJECT, int p, int (p + length s + 2))" "map shape us = ts" by auto
  have "reads_entries js T nr (length (X @ [t])) (length (X @ [t]) + length ts) (p + 1) (p + 1 + length s) JSMN_OBJECT
      (members_into ms) (elems_members ms)"
    by (rule obj.IH [of "a @ ''{''" "CHR ''}'' # b" _ us Y]) (use obj.prems xs t in auto)
  moreover have "json_into (JObj ms) = members_into ms" by (simp add: fun_eq_iff)
  ultimately show ?case
    using reads_container [of js T nr X "length X + length ((JSMN_OBJECT, int p, int (p + length s + 2)) # ts)" p "length s" JSMN_OBJECT "JObj ms" t "us @ Y"]
      obj.prems xs t by (simp add: add_ac)
next
  case (arr p s ts es)
  then obtain t us where xs: "xs = t # us" and t: "shape t = (JSMN_ARRAY, int p, int (p + length s + 2))" "map shape us = ts" by auto
  have "reads_entries js T nr (length (X @ [t])) (length (X @ [t]) + length ts) (p + 1) (p + 1 + length s) JSMN_ARRAY
      (elements_into es) (elems_list es)"
    by (rule arr.IH [of "a @ ''[''" "CHR '']'' # b" _ us Y]) (use arr.prems xs t in auto)
  moreover have "json_into (JArr es) = elements_into es" by (simp add: fun_eq_iff)
  ultimately show ?case
    using reads_container [of js T nr X "length X + length ((JSMN_ARRAY, int p, int (p + length s + 2)) # ts)" p "length s" JSMN_ARRAY "JArr es" t "us @ Y"]
      arr.prems xs t by (simp add: add_ac)
next
  case (mem_end w p)
  then show ?case by (auto simp: fun_eq_iff intro!: reads_nothing)
next
  case (mem w k w' p s ts v r rs ms)
  then obtain t us ws where xs: "xs = t # us @ ws"
    and t: "shape t = (JSMN_STRING, int (p + length w + 1), int (p + length w + 1 + length k))" "map shape us = ts" "map shape ws = rs"
    by (auto simp: map_eq_append_conv)
  let ?p = "p + length w + length k + 2 + length w'"
  have "reads_value js T nr (length (X @ [t])) (length (X @ [t]) + length ts) (?p + length s) v"
    by (rule mem.IH(1) [of "a @ w @ Q # k @ Q # w'" "r @ b" _ us "ws @ Y"]) (use mem.prems xs t in auto)
  moreover have "reads_entries js T nr (length (X @ t # us)) (length (X @ t # us) + length rs) (?p + length s) (?p + length s + length r) JSMN_OBJECT
      (members_into ms) (elems_members ms)"
    by (rule mem.IH(2) [of "a @ w @ Q # k @ Q # w' @ s" b _ ws Y]) (use mem.prems xs t in auto)
  moreover have "tok_text js t = jsonUnescape k"
    by (rule tok_text_at [of _ "a @ w @ [Q]" _ "Q # w' @ s @ r @ b"]) (use mem.prems t in auto)
  moreover have "vec_at T nr (length X) = Some t" using vec_at_mid [of "length X" X t "us @ ws @ Y" nr] mem.prems xs by simp
  moreover have "length us = length ts" "length ws = length rs" using t by auto
  moreover have "members_into ((k, v) # ms) = (\<lambda>n d. members_into ms (n + elems v)
      (put (jsonUnescape k) (json_into v n (data_at d (jsonUnescape k))) d))" by (simp add: fun_eq_iff)
  ultimately show ?case
    using reads_member [of js T nr "length X" "Suc (length X + length ts)" "?p + length s" v
        "Suc (length X + length ts) + length rs" "?p + length s + length r" "members_into ms" "elems_members ms" t "jsonUnescape k" p]
      shape_sel [OF t(1)] by (simp add: is_leaf_def add_ac)
next
  case (el_end w p)
  then show ?case by (auto simp: fun_eq_iff intro!: reads_nothing)
next
  case (el w p s ts v r rs es)
  then obtain us ws where xs: "xs = us @ ws" and t: "map shape us = ts" "map shape ws = rs"
    by (auto simp: map_eq_append_conv)
  obtain t us' where us: "us = t # us'" and te: "int (p + length w) < tok_end t" "tok_end t \<le> int (p + length w + length s)"
    using first_token [OF el.hyps(2)] t(1) by (auto simp: shape_def)
  have "reads_value js T nr (length X) (length X + length ts) (p + length w + length s) v"
    by (rule el.IH(1) [of "a @ w" "r @ b" _ us "ws @ Y"]) (use el.prems xs t in auto)
  moreover have "reads_entries js T nr (length (X @ us)) (length (X @ us) + length rs) (p + length w + length s)
      (p + length w + length s + length r) JSMN_ARRAY (elements_into es) (elems_list es)"
    by (rule el.IH(2) [of "a @ w @ s" b _ ws Y]) (use el.prems xs t in auto)
  moreover have "vec_at T nr (length X) = Some t" using vec_at_mid [of "length X" X t "us' @ ws @ Y" nr] el.prems xs us by simp
  moreover have "length us = length ts" using t by auto
  moreover have "elements_into (v # es) = (\<lambda>n d. elements_into es (n + 1 + elems v) (put_item n (json_into v (n + 1) (item d n)) d))"
    by (simp add: fun_eq_iff)
  ultimately show ?case
    using reads_element [of js T nr "length X" "length X + length ts" "p + length w + length s" v
        "length X + length ts + length rs" "p + length w + length s + length r" "elements_into es" "elems_list es" t p] te
    by (simp add: add_ac)
qed

subsection \<open>Reading a text\<close>

definition container :: "json \<Rightarrow> bool" where
  "container v \<longleftrightarrow> (\<exists>ms. v = JObj ms) \<or> (\<exists>es. v = JArr es)"

lemma container_ends:
  assumes "json_at p s ts v" and "container v"
  shows "\<exists>ty us. ts = (ty, int p, int (p + length s)) # us" and "s \<noteq> []" and "hd s = CHR ''{'' \<or> hd s = CHR ''[''"
    and "last s = CHR ''}'' \<or> last s = CHR '']''"
  using assms by (auto elim!: json_at.cases simp: container_def)

lemma fromJSON_text:
  assumes "json_at 0 s ts v" and "container v" and "list_all isspace a" and "list_all isspace b"
  shows "fromJSON uid (a @ s @ b) = Parsed (json_into v 0 Data_empty)"
proof -
  note e = container_ends [OF assms(1,2)]
  have tr: "trim (a @ s @ b) = s" by (rule trim_middle) (use e assms in \<open>auto simp: isspace_def\<close>)
  obtain p where p: "jsmn_parse s (length s) jsmn_init = (JSMN_SUCCESS, p)" "map shape (toks p) = ts"
    using tokens_of_text [OF assms(1)] assms(2) by (auto simp: container_def)
  obtain nr where nr: "parse_tokens s (2 ^ Suc 3) = (JSMN_SUCCESS, toks p, nr)" "length (toks p) \<le> nr"
    using parse_tokens_enough [of s 3] p(1) by auto
  obtain t T ty us where T: "toks p = t # T" and t: "shape t = (ty, 0, int (length s))" using e(1) p(2) by auto
  have rv: "reads_value s (toks p) nr 0 (length ts) (length s) v"
    using values_read(1) [OF assms(1), of s "[]" "[]" "toks p" "[]" "toks p" "[]" nr] p(2) nr(2) by simp
  obtain s' where s': "build_loop s (toks p) nr \<lparr>root = Data_empty, dataStack = [[]], tokenStack = [], currTok = 0, b_index = 0\<rparr> =
      build_check s (toks p) nr s'" "root s' = json_into v 0 Data_empty" "currTok s' = length (toks p)"
    using rv [unfolded reads_value_def, rule_format, of "[]" "\<lambda>d. d" Data_empty "[]" "[]" 0] arg_cong [OF p(2), of length] by auto
  have "build_check s (toks p) nr s' = Parsed (json_into v 0 Data_empty)"
    using s'(2,3) nr(2) by (simp add: build_check_def vec_at_def SIZEOF_JSMNTOK_def zero_tok_def)
  moreover have "vec_at (toks p) nr 0 = Some t" using vec_at_mid [of 0 "[]" t T nr] T nr(2) by simp
  moreover have "nat (tok_end t) = length s" using t by (simp add: shape_def)
  ultimately show ?thesis
    using e(2,3) s'(1) nr(1) unfolding fromJSON_def tr Let_def by auto
qed

end
