(* ===== verification/Json_Roundtrip.thy ===== *)
theory Json_Roundtrip
  imports Json_Building
begin

text \<open>
  Printing a value with \<open>toJSON\<close> and reading it with \<open>fromJSON\<close>: what is printed is a JSON text, and reading it
  gives the value back up to the indices of its arrays. Further: \<open>fromJSON\<close> always returns a value or an error when the
  text has the shape of JSON, never runs out of tokens and never reads past its vector.
\<close>

subsection \<open>Values that can be printed\<close>

text \<open>
  A value has one of its parts only: entries, items, or an atom. Strings do not contain the zero byte or a vertical tab, and
  an atom that is printed as it is has the form of a primitive, without backslashes. An empty value is allowed and is printed as \<open>null\<close>.
\<close>

definition plain :: "string \<Rightarrow> bool" where
  "plain s \<longleftrightarrow> CHR 0x0B \<notin> set s \<and> CHR 0x00 \<notin> set s"

fun json_ok :: "data \<Rightarrow> bool" and entries_ok :: "(string \<times> data) list \<Rightarrow> bool" and items_ok :: "(int \<times> data) list \<Rightarrow> bool" where
  "json_ok (Data n c a at b t) \<longleftrightarrow> n = None \<and> b = None \<and>
     (if c \<noteq> [] then a = [] \<and> at = [] \<and> t = INTERPRETED \<and> sorted_wrt str_less (map fst c) \<and> entries_ok c
      else if a \<noteq> [] then at = [] \<and> t = INTERPRETED \<and> items_ok a
      else if t = VERBATIM then plain at
      else at = [] \<or> prim_ok at \<and> bslash \<notin> set at)"
| "entries_ok [] \<longleftrightarrow> True"
| "entries_ok ((k, v) # r) \<longleftrightarrow> plain k \<and> json_ok v \<and> entries_ok r"
| "items_ok [] \<longleftrightarrow> True"
| "items_ok ((i, v) # r) \<longleftrightarrow> json_ok v \<and> items_ok r"

fun json_of :: "data \<Rightarrow> json" and members_of :: "(string \<times> data) list \<Rightarrow> (string \<times> json) list" and elements_of :: "(int \<times> data) list \<Rightarrow> json list" where
  "json_of (Data n c a at b t) =
    (if c \<noteq> [] then JObj (members_of c) else if a \<noteq> [] then JArr (elements_of a)
     else if t = VERBATIM then JStr (jsonEscape at) else JPrim (if at = [] then ''null'' else at))"
| "members_of [] = []"
| "members_of ((k, v) # r) = (jsonEscape k, json_of v) # members_of r"
| "elements_of [] = []"
| "elements_of ((i, v) # r) = json_of v # elements_of r"

text \<open>The value with its array elements numbered through, starting at \<open>n\<close>, and the atom \<open>null\<close> for an empty value.\<close>

definition empty_value :: "data \<Rightarrow> bool" where
  "empty_value d \<longleftrightarrow> compound d = [] \<and> array_of d = [] \<and> atom d = [] \<and> type_of d = INTERPRETED"

fun data_elems :: "data \<Rightarrow> int" and entry_elems :: "(string \<times> data) list \<Rightarrow> int" and item_elems :: "(int \<times> data) list \<Rightarrow> int" where
  "data_elems (Data nd c a at b t) = (if c \<noteq> [] then entry_elems c else item_elems a)"
| "entry_elems [] = 0"
| "entry_elems ((k, v) # r) = data_elems v + entry_elems r"
| "item_elems [] = 0"
| "item_elems ((i, v) # r) = 1 + data_elems v + item_elems r"

fun reindex :: "int \<Rightarrow> data \<Rightarrow> data" and reindex_entries :: "int \<Rightarrow> (string \<times> data) list \<Rightarrow> (string \<times> data) list"
  and reindex_items :: "int \<Rightarrow> (int \<times> data) list \<Rightarrow> (int \<times> data) list" where
  "reindex n (Data nd c a at b t) =
     Data nd (reindex_entries n c) (reindex_items n a) (if empty_value (Data nd c a at b t) then ''null'' else at) b t"
| "reindex_entries n [] = []"
| "reindex_entries n ((k, v) # r) = (k, reindex n v) # reindex_entries (n + data_elems v) r"
| "reindex_items n [] = []"
| "reindex_items n ((i, v) # r) = (n, reindex (n + 1) v) # reindex_items (n + 1 + data_elems v) r"

fun no_empty :: "data \<Rightarrow> bool" and no_empty_entries :: "(string \<times> data) list \<Rightarrow> bool" where
  "no_empty (Data nd c a at b t) \<longleftrightarrow> \<not> empty_value (Data nd c a at b t) \<and> no_empty_entries c"
| "no_empty_entries [] \<longleftrightarrow> True"
| "no_empty_entries ((k, v) # r) \<longleftrightarrow> no_empty v \<and> no_empty_entries r"

subsection \<open>What is printed is JSON\<close>

lemma str_ok_esc: "c \<noteq> CHR 0x0B \<Longrightarrow> c \<noteq> CHR 0x00 \<Longrightarrow> str_ok (json_esc c @ r) = str_ok r"
  by (simp add: json_esc_def esc_allowed_def bslash_def)

lemma str_ok_escape: "plain s \<Longrightarrow> str_ok (jsonEscape s)"
  by (induction s) (auto simp: jsonEscape_def plain_def str_ok_esc)

lemma sepc_space: "is_space c \<Longrightarrow> sepc c \<and> isspace c"
  by (auto simp: sepc_def is_space_def isspace_def)

lemma space_indent: "list_all is_space (indent_str ind)" "is_space (CHR 0x0A)" "is_space (CHR '' '')"
  by (auto simp: indent_str_def is_space_def list_all_iff)

lemma space_sepc: "list_all is_space w \<Longrightarrow> list_all sepc w"
  using sepc_space by (auto simp: list_all_iff)

lemma sepc_comma: "list_all sepc '', ''"
  by (simp add: sepc_def is_space_def)

lemma toJSON_text:
  "json_ok d \<Longrightarrow> \<exists>w s. toJSON xs ind d = w @ s \<and> list_all is_space w \<and> (\<forall>p. \<exists>ts. json_at p s ts (json_of d))"
  "entries_ok c \<Longrightarrow> list_all sepc sep \<Longrightarrow> \<forall>e p. list_all sepc e \<longrightarrow> (\<exists>ts. members_at p (json_entries xs ind l sep c @ e) ts (members_of c))"
  "items_ok a \<Longrightarrow> list_all sepc sep \<Longrightarrow> \<forall>p. \<exists>ts. elements_at p (json_items xs ind sep a) ts (elements_of a)"
proof (induction xs ind d and xs ind l sep c and xs ind sep a rule: toJSON_json_entries_json_items.induct)
  case (1 xs ind n c a at b t)
  consider "c \<noteq> []" | "c = []" "a \<noteq> []" | "c = []" "a = []" by blast
  then show ?case
  proof cases
    case 1
    have "\<forall>p. \<exists>ts. members_at p (json_entries xs ind (longestKey c) [] c @ [CHR 0x0A] @ indent_str ind) ts (members_of c)"
      using "1.IH"(1) 1 "1.prems" space_sepc [of "[CHR 0x0A] @ indent_str ind"] space_indent by simp
    then have "\<forall>p. \<exists>ts. json_at p (toJSON xs ind (Data n c a at b t)) ts (json_of (Data n c a at b t))"
      using 1 by simp (metis append.assoc append_Cons append_Nil json_at_members_at_elements_at.obj)
    then show ?thesis by (intro exI [of _ "[]"] exI [of _ "toJSON xs ind (Data n c a at b t)"]) (simp only: append_Nil list.pred_inject(1) simp_thms)
  next
    case 2
    have "\<forall>p. \<exists>ts. elements_at p (json_items xs ind [] a) ts (elements_of a)"
      using "1.IH"(2) 2 "1.prems" by simp
    then have "\<forall>p. \<exists>ts. json_at p (CHR ''['' # json_items xs ind [] a @ '']'') ts (JArr (elements_of a))"
      by (metis json_at_members_at_elements_at.arr)
    then show ?thesis
      using 2 space_indent by (intro exI [of _ "[CHR 0x0A] @ indent_str ind"] exI [of _ "CHR ''['' # json_items xs ind [] a @ '']''"]) auto
  next
    case 3
    have n: "n = None" using "1.prems" by simp
    show ?thesis
    proof (cases "t = VERBATIM")
      case True
      have "toJSON xs ind (Data n c a at b t) = Q # jsonEscape at @ [Q]" using True 3 n by (simp add: jsonEscape_def)
      moreover have "str_ok (jsonEscape at)" using str_ok_escape 3 True "1.prems" by simp
      ultimately show ?thesis
        using 3 True json_at_members_at_elements_at.jstr [of "jsonEscape at"]
        by (intro exI [of _ "[]"] exI [of _ "Q # jsonEscape at @ [Q]"]) auto
    next
      case False
      define at' where "at' = (if at = [] then ''null'' else at)"
      have "prim_ok ''null''" by code_simp
      then have ok: "prim_ok at'" using 3 False "1.prems" by (auto simp: at'_def)
      have "toJSON xs ind (Data n c a at b t) = at'" "json_of (Data n c a at b t) = JPrim at'" using False 3 n by (simp_all add: at'_def)
      then show ?thesis
        using json_at_members_at_elements_at.prim [OF ok] by (intro exI [of _ "[]"] exI [of _ at']) (simp del: toJSON.simps, blast)
    qed
  qed
next
  case (2 xs ind l sep)
  then show ?case by (auto intro: json_at_members_at_elements_at.mem_end)
next
  case (3 xs ind l sep k v r)
  obtain w s where s: "toJSON xs (Suc ind) v = w @ s" "list_all is_space w" "\<forall>p. \<exists>ts. json_at p s ts (json_of v)"
    using "3.IH"(1) "3.prems"(1) by auto
  let ?r = "\<lambda>e. json_entries xs ind l '', '' r @ e" and ?w = "sep @ [CHR 0x0A] @ indent_str ind @ ''  ''"
    and ?w' = "'': '' @ replicate (l - length k) (CHR '' '') @ w"
  have r: "\<forall>e p. list_all sepc e \<longrightarrow> (\<exists>ts. members_at p (?r e) ts (members_of r))"
    using "3.IH"(2) "3.prems" sepc_comma by simp
  have fits: "fits (json_of v) (?r e)" if "list_all sepc e" for e
    using that by (cases r; cases e) (auto simp: fits_def sepc_def split: json.splits)
  have w: "list_all sepc ?w" "list_all sepc ?w'"
    using "3.prems"(2) s(2) space_sepc space_indent sepc_space by (auto simp: sepc_def list_all_iff)
  show ?case
  proof (intro allI impI)
    fix e p assume e: "list_all sepc e"
    let ?p = "p + length ?w + length (jsonEscape k) + 2 + length ?w'"
    obtain ts where ts: "json_at ?p s ts (json_of v)" using s(3) by blast
    obtain rs where rs: "members_at (?p + length s) (?r e) rs (members_of r)" using r e by blast
    from json_at_members_at_elements_at.mem [OF w(1) str_ok_escape w(2) ts fits [OF e] rs] "3.prems"(1)
    show "\<exists>ts. members_at p (json_entries xs ind l sep ((k, v) # r) @ e) ts (members_of ((k, v) # r))"
      using s(1) by (auto simp del: length_append)
  qed
next
  case (4 xs ind sep)
  then show ?case using json_at_members_at_elements_at.el_end [of "[]"] by auto
next
  case (5 xs ind sep k v r)
  obtain w s where s: "toJSON xs (Suc ind) v = w @ s" "list_all is_space w" "\<forall>p. \<exists>ts. json_at p s ts (json_of v)"
    using "5.IH"(1) "5.prems"(1) by auto
  let ?r = "json_items xs ind '', '' r"
  have r: "\<forall>p. \<exists>ts. elements_at p ?r ts (elements_of r)" using "5.IH"(2) "5.prems" sepc_comma by simp
  have fits: "fits (json_of v) ?r" by (cases r) (auto simp: fits_def sepc_def split: json.splits)
  have w: "list_all sepc (sep @ w)" using "5.prems"(2) s(2) space_sepc by auto
  show ?case
  proof
    fix p
    obtain ts where ts: "json_at (p + length (sep @ w)) s ts (json_of v)" using s(3) by blast
    obtain rs where rs: "elements_at (p + length (sep @ w) + length s) ?r rs (elements_of r)" using r by blast
    from json_at_members_at_elements_at.el [OF w ts fits rs]
    show "\<exists>ts. elements_at p (json_items xs ind sep ((k, v) # r)) ts (elements_of ((k, v) # r))"
      using s(1) by auto
  qed
qed

subsection \<open>What is read back\<close>

lemma put_key_last: "\<forall>e \<in> set m. str_less (fst e) k \<Longrightarrow> put_key k v m = m @ [(k, v)]"
  by (induction m) (auto simp: str_less_irrefl dest: str_less_asym)

lemma put_index_last: "\<forall>e \<in> set m. fst e < k \<Longrightarrow> put_index k v m = m @ [(k, v)]"
  by (induction m) auto

lemma unescape_plain: "plain s \<Longrightarrow> jsonUnescape (jsonEscape s) = s"
  by (auto simp: jsonUnescape_def jsonUnescape_loop_escape plain_def intro!: map_idI)

lemma unescape_no_bslash: "bslash \<notin> set s \<Longrightarrow> jsonUnescape s = s"
proof -
  have "bslash \<notin> set s \<Longrightarrow> jsonUnescape_loop s False out = out @ s" for out by (induction s arbitrary: out) auto
  then show "bslash \<notin> set s \<Longrightarrow> jsonUnescape s = s" by (simp add: jsonUnescape_def)
qed

lemma elems_json_of: "elems (json_of d) = data_elems d" "elems_members (members_of c) = entry_elems c" "elems_list (elements_of a) = item_elems a"
  by (induction d and c and a rule: data_elems_entry_elems_item_elems.induct) auto

lemma data_elems_nonneg: "0 \<le> data_elems d" "0 \<le> entry_elems c" "0 \<le> item_elems a"
  by (induction d and c and a rule: data_elems_entry_elems_item_elems.induct) auto

lemma item_elems_pos: "a \<noteq> [] \<Longrightarrow> 0 < item_elems a"
  using data_elems_nonneg(1,3) by (cases a rule: item_elems.cases) (auto simp: add_pos_nonneg add.assoc)

lemma absent_smaller: "\<forall>e \<in> set m. str_less (fst e) k \<Longrightarrow> map_of m k = None"
  by (induction m) (auto simp: str_less_irrefl)

lemma absent_less: "\<forall>e \<in> set m. fst e < (n :: int) \<Longrightarrow> map_of m n = None"
  by (induction m) auto

lemma read_back:
  "json_ok d \<Longrightarrow> json_into (json_of d) n Data_empty = reindex n d"
  "entries_ok c \<Longrightarrow> sorted_wrt str_less (map fst (m @ c)) \<Longrightarrow>
     members_into (members_of c) n (Data None m [] [] None INTERPRETED) = Data None (m @ reindex_entries n c) [] [] None INTERPRETED"
  "items_ok a \<Longrightarrow> \<forall>e \<in> set k. fst e < n \<Longrightarrow>
     elements_into (elements_of a) n (Data None [] k [] None INTERPRETED) = Data None [] (k @ reindex_items n a) [] None INTERPRETED"
proof (induction n d and n c and n a arbitrary: and m and k rule: reindex_reindex_entries_reindex_items.induct)
  case (1 n nd c a at b t)
  consider "c \<noteq> []" | "c = []" "a \<noteq> []" | "c = []" "a = []" by blast
  then show ?case
  proof cases
    case 1
    then show ?thesis using "1.IH"(1) [of "[]"] "1.prems" by (simp add: Data_empty_def empty_value_def)
  next
    case 2
    then show ?thesis using "1.IH"(2) [of "[]"] "1.prems" by (simp add: Data_empty_def empty_value_def)
  next
    case 3
    have "jsonUnescape ''null'' = ''null''" by code_simp
    then show ?thesis using 3 "1.prems" by (cases t) (auto simp: Data_empty_def unescape_plain unescape_no_bslash empty_value_def)
  qed
next
  case (3 n key v r)
  have l: "\<forall>e \<in> set m. str_less (fst e) key" using "3.prems"(2) by (auto simp: sorted_wrt_append)
  have "data_at (Data None m [] [] None INTERPRETED) key = Data_empty"
    using absent_smaller [OF l] by (simp add: data_at_def hasKey_def)
  then show ?case
    using "3.IH"(1) "3.IH"(2) [of "m @ [(key, reindex n v)]"] "3.prems" put_key_last [OF l]
    by (simp add: unescape_plain elems_json_of)
next
  case (5 n i v r)
  have "item (Data None [] k [] None INTERPRETED) n = Data_empty" using absent_less [OF "5.prems"(2)] by (simp add: item_def)
  moreover have "\<forall>e \<in> set (k @ [(n, reindex (n + 1) v)]). fst e < n + 1 + data_elems v"
    using "5.prems"(2) data_elems_nonneg(1) [of v] by fastforce
  ultimately show ?case
    using "5.IH"(1) "5.IH"(2) [of "k @ [(n, reindex (n + 1) v)]"] "5.prems" put_index_last [OF "5.prems"(2)]
    by (simp add: elems_json_of)
qed simp_all

lemma reindex_no_items:
  "data_elems d = 0 \<Longrightarrow> json_ok d \<Longrightarrow> no_empty d \<Longrightarrow> reindex n d = d"
  "entry_elems c = 0 \<Longrightarrow> entries_ok c \<Longrightarrow> no_empty_entries c \<Longrightarrow> reindex_entries n c = c"
  "item_elems a = 0 \<Longrightarrow> items_ok a \<Longrightarrow> reindex_items n a = a"
proof (induction n d and n c and n a rule: reindex_reindex_entries_reindex_items.induct)
  case (1 n nd c a at b t)
  have "item_elems a = 0 \<Longrightarrow> a = []" using item_elems_pos by fastforce
  then show ?case using 1 by (auto split: if_splits)
next
  case (3 n k v r)
  then show ?case using data_elems_nonneg(1) [of v] data_elems_nonneg(2) [of r] by simp
next
  case (5 n i v r)
  then show ?case using data_elems_nonneg(1) [of v] data_elems_nonneg(3) [of r] by simp
qed simp_all

subsection \<open>Properties\<close>



text \<open>
  C29. A value that is printed and read again comes back with the same entries, strings and atoms; only the indices of its
  arrays may differ: they are numbered through the whole text in the order in which the elements are printed; and an empty
  value comes back as the atom \<open>null\<close>. A value without either comes back unchanged.
\<close>

theorem json_roundtrip:
  assumes "json_ok d" and "compound d \<noteq> [] \<or> array_of d \<noteq> []"
  shows "fromJSON uid (toJSON xmlSer ind d) = Parsed (reindex 0 d) \<and> (data_elems d = 0 \<and> no_empty d \<longrightarrow> reindex 0 d = d)"
proof -
  obtain w s ts where s: "toJSON xmlSer ind d = w @ s" "list_all is_space w" "json_at 0 s ts (json_of d)"
    using toJSON_text(1) [OF assms(1), of xmlSer ind] by blast
  have "container (json_of d)" using assms(2) by (cases d) (auto simp: container_def)
  moreover have "list_all isspace w" using s(2) sepc_space by (auto simp: list_all_iff)
  ultimately have "fromJSON uid (w @ s @ []) = Parsed (json_into (json_of d) 0 Data_empty)"
    by (intro fromJSON_text [OF s(3)]) simp_all
  then show ?thesis using s(1) read_back(1) [OF assms(1)] reindex_no_items(1) [OF _ assms(1)] by simp
qed

definition two_arrays :: data where
  "two_arrays = put ''a'' (put_item 0 (Data_string ''x'') Data_empty) (put ''b'' (put_item 0 (Data_atom ''1'' INTERPRETED) Data_empty) Data_empty)"

text \<open>The second of two arrays comes back with its first element at the index 1.\<close>

theorem json_roundtrip_witness:
  "\<exists>d. fromJSON [] (toJSON (\<lambda>_. []) 0 two_arrays) = Parsed d \<and>
     array_of (data_at d ''b'') = [(1, Data_atom ''1'' INTERPRETED)] \<and> item (data_at d ''b'') 0 = Data_empty"
proof -
  have "json_ok two_arrays" "compound two_arrays \<noteq> []" by code_simp+
  moreover have "array_of (data_at (reindex 0 two_arrays) ''b'') = [(1, Data_atom ''1'' INTERPRETED)] \<and>
      item (data_at (reindex 0 two_arrays) ''b'') 0 = Data_empty" by code_simp
  ultimately show ?thesis using json_roundtrip [of two_arrays "[]" "\<lambda>_. []" 0] by blast
qed

lemma pop_closed_defect: "pop_closed e ts ds = Inl d \<Longrightarrow> d = Empty_List"
  by (induction e ts ds rule: pop_closed.induct) (auto split: if_splits list.splits)

lemma build_place_bound: "build_place js t s = Inr s' \<Longrightarrow> currTok s' \<le> Suc (currTok s)"
  "build_place js t s = Inl d \<Longrightarrow> d = Empty_List"
  by (auto simp: build_place_def Let_def dest: pop_closed_defect split: sum.splits if_splits list.splits)

lemma build_loop_bound:
  "currTok s \<le> length ts \<Longrightarrow> length ts \<le> nr \<Longrightarrow> build_loop js ts nr s \<noteq> Undefined Read_Past_End"
proof (induction js ts nr s rule: build_loop.induct)
  case (1 js ts nr s)
  obtain t where t: "vec_at ts nr (currTok s) = Some t" using "1.prems" by (simp add: vec_at_def SIZEOF_JSMNTOK_def)
  show ?case
  proof (cases "build_value js t s")
    case (Inl d)
    then have "d = Empty_List" by (auto simp: build_value_def split: if_splits list.splits)
    then show ?thesis using t Inl by (simp add: build_loop.simps [of js ts nr s])
  next
    case (Inr s1)
    have c: "currTok s1 = Suc (currTok s)" using build_value_tok Inr by blast
    obtain t' where t': "vec_at ts nr (currTok s1) = Some t'" using c "1.prems" by (simp add: vec_at_def SIZEOF_JSMNTOK_def)
    show ?thesis
    proof (cases "tok_end t' = 0 \<or> tokenStack s1 = []")
      case True
      then show ?thesis using t Inr t' by (simp add: build_loop.simps [of js ts nr s])
    next
      case False
      then have "currTok s1 < length ts" using t' by (auto simp: vec_at_def zero_tok_def split: if_splits)
      then have "currTok s2 \<le> length ts" if "build_place js t' s1 = Inr s2" for s2 using build_place_bound(1) [OF that] by simp
      then show ?thesis
        using "1.IH" [OF t Inr t' False] "1.prems"(2) t Inr t' False build_place_bound(2) [of js t' s1]
        by (auto simp: build_loop.simps [of js ts nr s] split: sum.splits)
    qed
  qed
qed

lemma build_loop_no_error: "build_loop js ts nr s \<noteq> Parse_Error e"
  by (induction js ts nr s rule: build_loop.induct) (subst build_loop.simps, auto split: option.splits sum.splits)

text \<open>
  C31. Whatever its input, \<open>fromJSON\<close> returns a value, throws one of two errors, or runs into an empty stack: it never reads
  past the end of its token vector, and the number of tokens, doubled at most three times, is always enough. An empty stack is used for
  a text in which an object stands where a key is expected.
\<close>

theorem fromJSON_bounds:
  "fromJSON uid text \<noteq> Undefined Read_Past_End \<and>
   (case fromJSON uid text of
      Parse_Error e \<Rightarrow> Parse_Error e \<in> {parse_error uid (trim text) 128 ''invalid character inside JSON string'',
        parse_error uid (trim text) 132 ''the string is not a full JSON packet, more bytes expected''}
    | _ \<Rightarrow> True) \<and>
   fromJSON uid ''{{a 1} b 2}'' = Undefined Empty_List"
proof -
  let ?s = "trim text"
  obtain nr where nr: "parse_tokens ?s 16 = (fst (jsmn_parse ?s (length ?s) jsmn_init), toks (snd (jsmn_parse ?s (length ?s) jsmn_init)), nr)"
    "length (toks (snd (jsmn_parse ?s (length ?s) jsmn_init))) \<le> nr"
    using parse_tokens_enough [of ?s 3] by auto
  let ?ts = "toks (snd (jsmn_parse ?s (length ?s) jsmn_init))"
  let ?b = "build_loop ?s ?ts nr \<lparr>root = Data_empty, dataStack = [[]], tokenStack = [], currTok = 0, b_index = 0\<rparr>"
  have "fst (jsmn_parse ?s (length ?s) jsmn_init) \<noteq> JSMN_ERROR_NOMEM" by (rule jsmn_parse_toks) simp
  moreover have "?b \<noteq> Undefined Read_Past_End" by (rule build_loop_bound) (use nr(2) in auto)
  moreover have "vec_at ?ts nr 0 \<noteq> None" by (simp add: vec_at_def SIZEOF_JSMNTOK_def)
  moreover have "?b \<noteq> Parse_Error e" for e using build_loop_no_error by blast
  moreover have "fromJSON uid ''{{a 1} b 2}'' = Undefined Empty_List" by code_simp
  ultimately show ?thesis
    unfolding fromJSON_def Let_def nr(1) by (auto simp: parse_error_def split: option.splits jsmnerr.splits parse_result.splits if_splits)
qed

end
