(* ===== verification/Null_DataModel.thy ===== *)
theory Null_DataModel
  imports Json
begin

text \<open>
  The null data model, \<open>src/src/uscxml/plugins/datamodel/null/NullDataModel.cpp\<close> and \<open>NullDataModel.h\<close>: the only
  expressions are the predicate \<open>In\<close>, values are read as JSON or taken literally, and everything else does nothing.
  The lemmas show that the predicate is the conjunction over the states that it names.
\<close>

subsection \<open>The data model\<close>

definition null_getNames :: "string list" where
  "null_getNames = [''null'']"

definition null_isValidExprSyntax :: "string \<Rightarrow> bool" where
  "null_isValidExprSyntax expr = True"

definition null_getLength :: "string \<Rightarrow> nat" where
  "null_getLength expr = 0"

definition null_evalAsString :: "string \<Rightarrow> string" where
  "null_evalAsString expr = expr"

definition null_getAsData :: "string \<Rightarrow> string \<Rightarrow> parse_result" where
  "null_getAsData uid content =
    (case fromJSON uid content of
       Parsed data \<Rightarrow> Parsed (if Data_is_empty data then Data_atom content VERBATIM else data)
     | r \<Rightarrow> r)"

text \<open>\<open>boost::istarts_with\<close>, and reading lines up to a delimiter: nothing follows a delimiter at the very end.\<close>

definition istarts_with :: "string \<Rightarrow> string \<Rightarrow> bool" where
  "istarts_with s p = (map tolower (take (length p) s) = map tolower p)"

fun getlines :: "char \<Rightarrow> string \<Rightarrow> string \<Rightarrow> string list" where
  "getlines d [] [] = []"
| "getlines d [] acc = [acc]"
| "getlines d (c # cs) acc = (if c = d then acc # getlines d cs [] else getlines d cs (acc @ [c]))"

definition between :: "string \<Rightarrow> nat option \<Rightarrow> nat option \<Rightarrow> string option" where
  "between s b e =
    (case (b, e) of (Some i, Some j) \<Rightarrow> if i \<ge> j then None else Some (substr s (i + 1) (j - (i + 1))) | _ \<Rightarrow> None)"

text \<open>The name of a state in an argument: what is between the first and the last tick, or else all of it.\<close>

definition stateName :: "string \<Rightarrow> string" where
  "stateName arg =
    (case between arg (find_from (\<lambda>c. c = CHR 0x27) arg 0) (find_last (\<lambda>c. c = CHR 0x27) arg) of
       Some s \<Rightarrow> s
     | None \<Rightarrow> arg)"

definition null_evalAsBool :: "(string \<Rightarrow> bool) \<Rightarrow> string \<Rightarrow> bool" where
  "null_evalAsBool isInState expr =
    (let trimmedExpr = trim expr in
     if \<not> istarts_with trimmedExpr ''in'' then False
     else (case between trimmedExpr (find_from (\<lambda>c. c = CHR ''('') trimmedExpr 0) (find_last (\<lambda>c. c = CHR '')'') trimmedExpr) of
         None \<Rightarrow> False
       | Some args \<Rightarrow> list_all (\<lambda>arg. isInState (stateName arg)) (getlines (CHR '','') args [])))"

subsection \<open>The predicate\<close>

lemma find_eq_Some: "i < length xs \<Longrightarrow> P (xs ! i) \<Longrightarrow> (\<And>j. j < i \<Longrightarrow> \<not> P (xs ! j)) \<Longrightarrow> List.find P xs = Some (xs ! i)"
  by (auto simp: find_Some_iff)

lemma find_from_first: "p c \<Longrightarrow> \<forall>x \<in> set a. \<not> p x \<Longrightarrow> find_from p (a @ c # b) 0 = Some (length a)"
  using find_eq_Some [of "length a" "[0..<length (a @ c # b)]" "\<lambda>k. p ((a @ c # b) ! k)"]
  by (simp add: find_from_def nth_append del: upt_Suc)

lemma find_last_last:
  assumes "p c" and "\<forall>x \<in> set b. \<not> p x"
  shows "find_last p (a @ c # b) = Some (length a)"
proof -
  let ?s = "a @ c # b"
  have nth: "rev [0..<length ?s] ! i = length ?s - Suc i" if "i < length ?s" for i using that by (simp add: rev_nth del: upt_Suc)
  have "\<not> p (?s ! (length ?s - Suc j))" if "j < length b" for j
  proof -
    have "?s ! (length ?s - Suc j) = b ! (length b - Suc j)" using that by (auto simp: nth_append nth_Cons')
    moreover have "b ! (length b - Suc j) \<in> set b" using that by (intro nth_mem) simp
    ultimately show ?thesis using assms(2) by simp
  qed
  then show ?thesis
    using assms(1) nth find_eq_Some [of "length b" "rev [0..<length ?s]" "\<lambda>k. p (?s ! k)"]
    by (simp add: find_last_def del: upt_Suc)
qed

lemma between_mid:
  assumes "s = a @ l # m @ r # b" shows "between s (Some (length a)) (Some (length a + length m + 1)) = Some m"
  using assms by (simp add: between_def substr_def)

lemma stateName_ticks: "CHR 0x27 \<notin> set n \<Longrightarrow> stateName (CHR 0x27 # n @ [CHR 0x27]) = n"
  using find_from_first [of "\<lambda>c. c = CHR 0x27" "CHR 0x27" "[]" "n @ [CHR 0x27]"]
    find_last_last [of "\<lambda>c. c = CHR 0x27" "CHR 0x27" "[]" "CHR 0x27 # n"]
    between_mid [of "CHR 0x27 # n @ [CHR 0x27]" "[]" "CHR 0x27" n "CHR 0x27" "[]"]
  by (simp add: stateName_def)

lemma getlines_piece: "d \<notin> set x \<Longrightarrow> getlines d (x @ d # r) acc = (acc @ x) # getlines d r []"
  by (induction x arbitrary: acc) auto

lemma getlines_last: "d \<notin> set x \<Longrightarrow> acc @ x \<noteq> [] \<Longrightarrow> getlines d x acc = [acc @ x]"
proof (induction x arbitrary: acc)
  case Nil
  then show ?case by (cases acc) auto
qed auto

text \<open>The arguments of the predicate for some states.\<close>

fun ticked :: "string list \<Rightarrow> string" where
  "ticked [] = []"
| "ticked [n] = CHR 0x27 # n @ [CHR 0x27]"
| "ticked (n # m # ns) = CHR 0x27 # n @ CHR 0x27 # CHR '','' # ticked (m # ns)"

lemma getlines_ticked:
  "\<forall>n \<in> set ns. CHR '','' \<notin> set n \<Longrightarrow> getlines (CHR '','') (ticked ns) [] = map (\<lambda>n. CHR 0x27 # n @ [CHR 0x27]) ns"
proof (induction ns rule: ticked.induct)
  case (2 n)
  then show ?case using getlines_last [of "CHR '',''" "CHR 0x27 # n @ [CHR 0x27]" "[]"] by simp
next
  case (3 n m ns)
  then show ?case using getlines_piece [of "CHR '',''" "CHR 0x27 # n @ [CHR 0x27]" "ticked (m # ns)" "[]"] by simp
qed simp

text \<open>
  The condition \<open>In('s1','s2',...)\<close> of the null data model, in any case and with white space around it, holds exactly when all the states it
  names are active. With no state it always holds.
\<close>

theorem null_In_predicate:
  assumes "map tolower kw = ''in''" and "\<forall>n \<in> set ns. CHR '','' \<notin> set n \<and> CHR 0x27 \<notin> set n"
    and "list_all isspace a" and "list_all isspace b"
  shows "null_evalAsBool isInState (a @ kw @ ''('' @ ticked ns @ '')'' @ b) \<longleftrightarrow> (\<forall>n \<in> set ns. isInState n)"
proof -
  obtain i n where kw: "kw = [i, n]" using assms(1) by (auto simp: map_eq_Cons_conv)
  have low: "tolower i = CHR ''i''" "tolower n = CHR ''n''" using assms(1) kw by simp_all
  have sp: "isspace c \<Longrightarrow> tolower c = c" "c = CHR ''('' \<Longrightarrow> tolower c = c" for c by (auto simp: isspace_def tolower_def)
  have i: "\<not> isspace i" using sp(1) [of i] low(1) by (auto simp: isspace_def)
  have o: "i \<noteq> CHR ''(''" "n \<noteq> CHR ''(''" using sp(2) low by fastforce+
  let ?e = "kw @ ''('' @ ticked ns @ '')''"
  have t: "trim (a @ kw @ ''('' @ ticked ns @ '')'' @ b) = ?e"
    using trim_middle [of ?e a b] i assms(3,4) kw by (simp add: isspace_def)
  have f: "find_from (\<lambda>c. c = CHR ''('') ?e 0 = Some (length kw)"
    using find_from_first [of "\<lambda>c. c = CHR ''(''" "CHR ''(''" kw "ticked ns @ '')''"] o kw by simp
  have l: "find_last (\<lambda>c. c = CHR '')'') ?e = Some (length kw + length (ticked ns) + 1)"
    using find_last_last [of "\<lambda>c. c = CHR '')''" "CHR '')''" "[]" "kw @ ''('' @ ticked ns"] by simp
  have "between ?e (Some (length kw)) (Some (length kw + length (ticked ns) + 1)) = Some (ticked ns)"
    by (rule between_mid [of _ _ "CHR ''(''" _ "CHR '')''" "[]"]) simp
  moreover have "istarts_with ?e ''in''" using kw low by (simp add: istarts_with_def tolower_def)
  ultimately show ?thesis
    unfolding null_evalAsBool_def Let_def t f l using getlines_ticked [of ns] assms(2) stateName_ticks
    by (auto simp: list_all_iff)
qed

theorem null_In_predicate_witness:
  "null_evalAsBool (\<lambda>s. s = ''a'') ('' '' @ ''In'' @ ''('' @ ticked [''a''] @ '')'' @ []) \<and>
   null_evalAsBool (\<lambda>s. False) ([] @ ''in'' @ ''('' @ ticked [] @ '')'' @ [])"
proof -
  have k: "map tolower ''In'' = ''in''" "map tolower ''in'' = ''in''" by code_simp+
  show ?thesis
    using null_In_predicate [OF k(1), of "[''a'']" "'' ''" "[]" "\<lambda>s. s = ''a''"]
      null_In_predicate [OF k(2), of "[]" "[]" "[]" "\<lambda>s. False"] by (simp add: isspace_def)
qed

end
