(* ===== verification/Promela.thy ===== *)
theory Promela
  imports Json ContentExecutor "HOL-Library.Signed_Division"
begin

text \<open>
  The Promela data model, \<open>src/src/uscxml/plugins/datamodel/promela/PromelaDataModel.cpp\<close>, with the constructors of
  \<open>PromelaParser.cpp\<close>. The scanner and the parser that flex and bison generate are the parameter \<open>pm_parse\<close>, which
  returns the tree that the actions of the grammar build or the last call of \<open>promela_error\<close>. A variable is a compound
  with the entries \<open>type\<close>, \<open>vis\<close>, \<open>value\<close> and, for an array, \<open>size\<close>. What the language leaves undefined (overflow of
  \<open>int\<close>, division by zero, a missing operand) is \<open>Abort\<close>. The operands of an arithmetic operator are evaluated from
  left to right, as the usual compilers do; texts contain no zero byte.
\<close>

subsection \<open>Trees and parsing\<close>

datatype pml_type =
    PML_PLUS | PML_MINUS | PML_TIMES | PML_DIVIDE | PML_MODULO | PML_BITAND | PML_BITXOR | PML_BITOR
  | PML_GT | PML_LT | PML_GE | PML_LE | PML_EQ | PML_NE | PML_AND | PML_OR | PML_LSHIFT | PML_RSHIFT | PML_NEG
  | PML_ASGN | PML_INCR | PML_DECR | PML_VAR_ARRAY | PML_DECL | PML_STMNT | PML_TYPE | PML_NAME | PML_CONST
  | PML_PRINT | PML_SHOW | PML_EXPR | PML_VARLIST | PML_DECLLIST | PML_NAMELIST | PML_STRING | PML_TYPEDEF
  | PML_CMPND | PML_ASSERT | PML_TOKEN nat

datatype pml = Pml (ptype: pml_type) (pvalue: string) (operands: "pml list")

definition typeToDesc :: "pml_type \<Rightarrow> string" where
  "typeToDesc t = (case t of
      PML_PLUS \<Rightarrow> ''PLUS'' | PML_MINUS \<Rightarrow> ''MINUS'' | PML_TIMES \<Rightarrow> ''TIMES'' | PML_DIVIDE \<Rightarrow> ''DIVIDE''
    | PML_MODULO \<Rightarrow> ''MODULO'' | PML_BITAND \<Rightarrow> ''BITAND'' | PML_BITXOR \<Rightarrow> ''BITXOR'' | PML_BITOR \<Rightarrow> ''BITOR''
    | PML_GT \<Rightarrow> ''GT'' | PML_LT \<Rightarrow> ''LT'' | PML_GE \<Rightarrow> ''GE'' | PML_LE \<Rightarrow> ''LE'' | PML_EQ \<Rightarrow> ''EQ'' | PML_NE \<Rightarrow> ''NE''
    | PML_AND \<Rightarrow> ''AND'' | PML_OR \<Rightarrow> ''OR'' | PML_LSHIFT \<Rightarrow> ''LSHIFT'' | PML_RSHIFT \<Rightarrow> ''RSHIFT'' | PML_NEG \<Rightarrow> ''NEG''
    | PML_ASGN \<Rightarrow> ''ASGN'' | PML_INCR \<Rightarrow> ''INCR'' | PML_DECR \<Rightarrow> ''DECR'' | PML_VAR_ARRAY \<Rightarrow> ''VAR_ARRAY''
    | PML_DECL \<Rightarrow> ''DECL'' | PML_STMNT \<Rightarrow> ''STMNT'' | PML_TYPE \<Rightarrow> ''TYPE'' | PML_NAME \<Rightarrow> ''NAME''
    | PML_CONST \<Rightarrow> ''CONST'' | PML_PRINT \<Rightarrow> ''PRINT'' | PML_SHOW \<Rightarrow> ''SHOW'' | PML_EXPR \<Rightarrow> ''EXPR''
    | PML_VARLIST \<Rightarrow> ''VARLIST'' | PML_DECLLIST \<Rightarrow> ''DECLLIST'' | PML_NAMELIST \<Rightarrow> ''NAMELIST''
    | PML_STRING \<Rightarrow> ''STRING'' | PML_TYPEDEF \<Rightarrow> ''TYPEDEF'' | PML_CMPND \<Rightarrow> ''CMPND'' | PML_ASSERT \<Rightarrow> ''ASSERT''
    | PML_TOKEN n \<Rightarrow> ''UNK('' @ digits n @ '')'')"

datatype pml_kind = PROMELA_EXPR | PROMELA_DECL | PROMELA_STMNT

definition kindToDesc :: "pml_kind \<Rightarrow> string" where
  "kindToDesc k = (case k of PROMELA_EXPR \<Rightarrow> ''expression'' | PROMELA_DECL \<Rightarrow> ''declarations''
     | PROMELA_STMNT \<Rightarrow> ''statements'')"

text \<open>What the generated parser returns: a tree with its kind, or the message, line and column of an error.\<close>

datatype pml_parsed = Ast pml_kind pml | Syntax_Error string nat nat

text \<open>What the data model asks of its surroundings; \<open>pm_junk\<close> is the value of an uninitialised integer.\<close>

record pml_env =
  pm_uid :: string
  pm_parse :: "string \<Rightarrow> pml_parsed"
  pm_isInState :: "string \<Rightarrow> bool"
  pm_xmlSer :: "node \<Rightarrow> string"
  pm_junk :: int
  pm_sessionId :: string
  pm_name :: string
  pm_ioProcessors :: "(string \<times> data) list"

record promela =
  pm_variables :: data
  pm_lastMType :: int

type_synonym 'a pml_eff = "(promela, 'a) eff"

text \<open>\<open>promela_error\<close>, \<open>PromelaParser::init\<close> and the two constructors.\<close>

definition promela_error :: "pml_env \<Rightarrow> string \<Rightarrow> nat \<Rightarrow> nat \<Rightarrow> Event" where
  "promela_error E err line col =
    (let ev = ERROR_EXECUTION (pm_uid E) (''PromelaParser.cpp'', 41) err in
     ev\<lparr>edata := put ''sourcemark'' (Data_atom (replicate col (CHR '' '') @ ''^'') VERBATIM)
       (put ''col'' (Data_atom (digits col) VERBATIM) (put ''line'' (Data_atom (digits line) VERBATIM) (edata ev)))\<rparr>)"

definition parser_init :: "pml_env \<Rightarrow> string \<Rightarrow> (pml_kind \<times> pml) pml_eff" where
  "parser_init E expr = (case pm_parse E expr of
      Ast k t \<Rightarrow> returnM (k, t)
    | Syntax_Error err line col \<Rightarrow>
        (let ev = promela_error E err line col in
         throwM (ErrorExc (ev\<lparr>edata := put ''sourceline'' (Data_atom expr VERBATIM) (edata ev)\<rparr>))))"

definition parser :: "pml_env \<Rightarrow> string \<Rightarrow> pml pml_eff" where
  "parser E expr = bindM (parser_init E expr) (\<lambda>(k, t). returnM t)"

definition parser_of :: "pml_env \<Rightarrow> string \<Rightarrow> pml_kind \<Rightarrow> pml pml_eff" where
  "parser_of E expr expected = bindM (parser_init E expr) (\<lambda>(k, t).
     if k = expected then returnM t
     else throwM (ErrorExc (ERROR_EXECUTION (pm_uid E) (''PromelaParser.cpp'', 80)
       (''Promela syntax type mismatch: Expected {'' @ kindToDesc expected @ ''} but got '' @ kindToDesc k))))"

subsection \<open>Numbers\<close>

text \<open>\<open>toStr<int>\<close>, and \<open>strTo<T>\<close> for a signed type of some width: white space is skipped, a sign is read, too large a
  number saturates, a text without a number gives 0, and nothing is stored when there is no text at all.\<close>

definition toStr_int :: "int \<Rightarrow> string" where
  "toStr_int i = (if i < 0 then CHR ''-'' # digits (nat (- i)) else digits (nat i))"

definition signed_magnitude :: "string \<Rightarrow> bool \<times> nat" where
  "signed_magnitude s = (case s of [] \<Rightarrow> (False, 0)
     | c # cs \<Rightarrow> if c = CHR ''-'' then (True, strTo_nat cs 0)
                else if c = CHR ''+'' then (False, strTo_nat cs 0) else (False, strTo_nat (c # cs) 0))"

definition strTo_signed :: "int \<Rightarrow> nat \<Rightarrow> string \<Rightarrow> int" where
  "strTo_signed junk w s =
    (let t = dropWhile isspace s in
     if t = [] then junk
     else (case signed_magnitude t of (neg, m) \<Rightarrow>
       if neg then max (- (2 ^ (w - 1))) (- int m) else min (2 ^ (w - 1) - 1) (int m)))"

text \<open>\<open>strTo<size_t>\<close>: a minus sign negates modulo \<open>2 ^ 64\<close>.\<close>

definition strTo_size :: "int \<Rightarrow> string \<Rightarrow> nat" where
  "strTo_size junk s =
    (let t = dropWhile isspace s in
     if t = [] then nat (junk mod 2 ^ 64)
     else (case signed_magnitude t of (neg, m) \<Rightarrow>
       if m \<ge> 2 ^ 64 then 2 ^ 64 - 1 else if neg then (2 ^ 64 - m) mod 2 ^ 64 else m))"

definition INT_MIN :: int where "INT_MIN = - (2 ^ 31)"

definition INT_MAX :: int where "INT_MAX = 2 ^ 31 - 1"

definition Data_int :: "int \<Rightarrow> data" where
  "Data_int i = Data_atom (toStr_int i) INTERPRETED"

definition Data_bool :: "bool \<Rightarrow> data" where
  "Data_bool b = Data_atom (if b then ''1'' else ''0'') INTERPRETED"

definition pm_error :: "pml_env \<Rightarrow> nat \<Rightarrow> string \<Rightarrow> 'a pml_eff" where
  "pm_error E line cause = throwM (ErrorExc (ERROR_EXECUTION (pm_uid E) (''PromelaDataModel.cpp'', line) cause))"

definition dataToInt :: "pml_env \<Rightarrow> data \<Rightarrow> int pml_eff" where
  "dataToInt E d =
    (let value = strTo_signed (pm_junk E) 32 (atom d) in
     if atom d \<noteq> toStr_int value then pm_error E 375 ''Operand is not integer'' else returnM value)"

definition dataToBool :: "pml_env \<Rightarrow> data \<Rightarrow> bool pml_eff" where
  "dataToBool E d =
    (if length (atom d) = 0 then returnM False
     else if type_of d = VERBATIM then returnM True
     else if atom d = ''true'' then returnM True
     else if atom d = ''false'' then returnM False
     else bindM (dataToInt E d) (\<lambda>i. returnM (i \<noteq> 0)))"

text \<open>The operators on two integers; \<open>None\<close> where the result is not defined.\<close>

definition int_result :: "int \<Rightarrow> data option" where
  "int_result i = (if INT_MIN \<le> i \<and> i \<le> INT_MAX then Some (Data_int i) else None)"

definition is_int_op :: "pml_type \<Rightarrow> bool" where
  "is_int_op t = (t \<in> {PML_PLUS, PML_MINUS, PML_TIMES, PML_DIVIDE, PML_MODULO, PML_LT, PML_LE, PML_GT, PML_GE,
     PML_LSHIFT, PML_RSHIFT})"

definition int_op :: "pml_type \<Rightarrow> int \<Rightarrow> int \<Rightarrow> data option" where
  "int_op t a b = (case t of
      PML_PLUS \<Rightarrow> int_result (a + b)
    | PML_MINUS \<Rightarrow> int_result (a - b)
    | PML_TIMES \<Rightarrow> int_result (a * b)
    | PML_DIVIDE \<Rightarrow> if b = 0 then None else int_result (a sdiv b)
    | PML_MODULO \<Rightarrow> if b = 0 \<or> (a = INT_MIN \<and> b = -1) then None else int_result (a smod b)
    | PML_LT \<Rightarrow> Some (Data_bool (a < b))
    | PML_LE \<Rightarrow> Some (Data_bool (a \<le> b))
    | PML_GT \<Rightarrow> Some (Data_bool (a > b))
    | PML_GE \<Rightarrow> Some (Data_bool (a \<ge> b))
    | PML_LSHIFT \<Rightarrow> if 0 \<le> b \<and> b < 32 \<and> 0 \<le> a \<and> a * 2 ^ nat b < 2 ^ 32
        then Some (Data_int ((a * 2 ^ nat b + 2 ^ 31) mod 2 ^ 32 - 2 ^ 31)) else None
    | PML_RSHIFT \<Rightarrow> if 0 \<le> b \<and> b < 32 then Some (Data_int (a div 2 ^ nat b)) else None
    | _ \<Rightarrow> None)"

definition definedM :: "'a option \<Rightarrow> 'a pml_eff" where
  "definedM r = (case r of Some x \<Rightarrow> returnM x | None \<Rightarrow> throwM Abort)"

subsection \<open>Variables\<close>

text \<open>The subscript of a map that is not constant creates an absent entry; \<open>touch_value\<close> is the entry \<open>value\<close> of a variable.\<close>

definition touch :: "string \<Rightarrow> data \<Rightarrow> data" where
  "touch k d = (if hasKey d k then d else put k Data_empty d)"

definition variable :: "string \<Rightarrow> promela \<Rightarrow> data" where
  "variable x s = data_at (pm_variables s) x"

definition declared :: "string \<Rightarrow> promela \<Rightarrow> bool" where
  "declared x s = hasKey (pm_variables s) x"

definition update_variable :: "string \<Rightarrow> (data \<Rightarrow> data) \<Rightarrow> unit pml_eff" where
  "update_variable x f = modifyM (\<lambda>s. s\<lparr>pm_variables := put x (f (variable x s)) (pm_variables s)\<rparr>)"

definition touch_value :: "string \<Rightarrow> unit pml_eff" where
  "touch_value x = modifyM (\<lambda>s. if hasKey (variable x s) ''value'' then s
     else s\<lparr>pm_variables := put x (put ''value'' Data_empty (variable x s)) (pm_variables s)\<rparr>)"

text \<open>\<open>INVALID_ASSIGNMENT\<close>\<close>

definition invalid_assignment :: "string \<Rightarrow> bool" where
  "invalid_assignment n = (n \<in> {''_sessionid'', ''_name'', ''_ioprocessors'', ''_event''})"

text \<open>\<open>std::string::substr(1, size - 2)\<close>\<close>

definition strip_quotes :: "string \<Rightarrow> string pml_eff" where
  "strip_quotes v = (if v = [] then throwM (StdExc ''basic_string::substr'') else returnM (substr v 1 (length v - 2)))"

definition out_of_bounds :: "string \<Rightarrow> int \<Rightarrow> string \<Rightarrow> string" where
  "out_of_bounds x index sz = ''Index '' @ toStr_int index @ '' in array '' @ x @ ''['' @ sz @ ''] is out of bounds''"

text \<open>The entry of an array: \<open>Data::operator[](size_t)\<close> is \<open>array.at\<close>, which throws for an absent index.\<close>

definition get_item :: "string \<Rightarrow> int \<Rightarrow> data pml_eff" where
  "get_item x index = bindM (touch_value x)
    (\<lambda>_. bindM (readM (\<lambda>s. map_of (array_of (data_at (variable x s) ''value'')) index))
      (\<lambda>r. case r of Some d \<Rightarrow> returnM d | None \<Rightarrow> throwM (StdExc ''map::at'')))"

definition set_item :: "string \<Rightarrow> int \<Rightarrow> data \<Rightarrow> unit pml_eff" where
  "set_item x index value = bindM (get_item x index)
    (\<lambda>_. update_variable x (\<lambda>d. put ''value'' (put_item index value (data_at d ''value'')) d))"

fun get_path :: "pml_env \<Rightarrow> string \<Rightarrow> string list \<Rightarrow> data \<Rightarrow> data pml_eff" where
  "get_path E idPath [] currData = returnM currData"
| "get_path E idPath (key # keys) currData =
     (let idPath' = idPath @ ''.'' @ key in
      if \<not> hasKey currData key then pm_error E 692 (''No variable '' @ idPath' @ '' was declared'')
      else get_path E idPath' keys (data_at currData key))"

fun assign_path :: "string list \<Rightarrow> data \<Rightarrow> data \<Rightarrow> data" where
  "assign_path [] value d = value"
| "assign_path (k # ks) value d = put k (assign_path ks value (data_at d k)) d"

text \<open>\<open>_x.states["s"]\<close>, and the other compounds\<close>

definition get_states :: "pml_env \<Rightarrow> string \<Rightarrow> pml \<Rightarrow> data pml_eff" where
  "get_states E name what =
    (case (ptype what, operands what) of
       (PML_VAR_ARRAY, [arr, i]) \<Rightarrow>
         bindM (if ptype i = PML_STRING then strip_quotes (pvalue i) else returnM (pvalue i)) (\<lambda>index.
           if pvalue arr = ''states'' then returnM (Data_bool (pm_isInState E index))
           else pm_error E 679 (''No variable '' @ name @ '' was declared''))
     | _ \<Rightarrow> pm_error E 679 (''No variable '' @ name @ '' was declared''))"

definition get_cmpnd :: "pml_env \<Rightarrow> pml list \<Rightarrow> data pml_eff" where
  "get_cmpnd E ops = (case ops of
      [] \<Rightarrow> throwM Abort
    | n # rest \<Rightarrow>
        (let name = pvalue n in
         if name = ''_x'' then (case rest of [] \<Rightarrow> throwM Abort | what # _ \<Rightarrow> get_states E name what)
         else bindM (readM (declared name)) (\<lambda>known.
           if \<not> known then pm_error E 683 (''No variable '' @ name @ '' was declared'')
           else bindM (touch_value name)
             (\<lambda>_. bindM (readM (variable name)) (\<lambda>d. get_path E name (map pvalue rest) (data_at d ''value''))))))"

definition set_name :: "pml_env \<Rightarrow> string \<Rightarrow> data \<Rightarrow> unit pml_eff" where
  "set_name E x value = bindM (readM (declared x)) (\<lambda>known.
     if \<not> known then pm_error E 572 (''Variable '' @ x @ '' is undeclared'')
     else bindM (readM (variable x)) (\<lambda>d.
       if hasKey d ''size'' \<and> (compound value \<noteq> [] \<or> length (atom value) > 0)
         then pm_error E 577 (''Variable '' @ x @ '' is an array'')
       else if hasKey d ''size'' \<and> strTo_size (pm_junk E) (atom (data_at d ''size'')) < length (array_of value)
         then pm_error E 580 (''Array assigned to '' @ x @ '' is too large'')
       else update_variable x (put ''value'' value)))"

definition set_cmpnd :: "pml_env \<Rightarrow> pml list \<Rightarrow> data \<Rightarrow> unit pml_eff" where
  "set_cmpnd E ops value = (case ops of
      [] \<Rightarrow> throwM Abort
    | n # rest \<Rightarrow>
        (let x = pvalue n in
         bindM (readM (declared x)) (\<lambda>known.
           if \<not> known then pm_error E 591 (''Variable '' @ x @ '' is undeclared'')
           else bindM (readM (variable x)) (\<lambda>d.
             if hasKey d ''size'' then pm_error E 596 (''Variable '' @ x @ '' is an array'')
             else update_variable x (\<lambda>d. put ''value''
               (assign_path (map pvalue rest) value
                 (put ''vis'' (Data_atom [] VERBATIM) (put ''type'' (Data_atom ''compound'' VERBATIM) (data_at d ''value'')))) d)))))"

subsection \<open>Expressions\<close>

text \<open>\<open>operator==\<close> of two values is taken structurally.\<close>

definition eval_eq :: "pml_env \<Rightarrow> pml \<Rightarrow> pml \<Rightarrow> data \<Rightarrow> data \<Rightarrow> data pml_eff" where
  "eval_eq E lhs rhs left right =
    (if left = right then returnM (Data_bool True)
     else if (ptype lhs = PML_STRING \<or> ptype rhs = PML_STRING) \<or> (type_of left = VERBATIM \<and> type_of right = VERBATIM)
       then returnM (Data_bool (atom left = atom right))
     else bindM (dataToInt E left) (\<lambda>i. bindM (dataToInt E right) (\<lambda>j. returnM (Data_bool (i = j)))))"

definition eval_const :: "pml_env \<Rightarrow> string \<Rightarrow> data" where
  "eval_const E v = (if iequals v ''false'' then Data_bool False else if iequals v ''true'' then Data_bool True
     else Data_int (strTo_signed (pm_junk E) 32 v))"

definition eval_name :: "pml_env \<Rightarrow> data \<Rightarrow> data" where
  "eval_name E d = (if length (atom d) \<noteq> 0 \<and> isNumeric (atom d) 10 then Data_atom (atom d) VERBATIM
     else Data_atom (toJSON (pm_xmlSer E) 1 d) VERBATIM)"

fun evaluateExpr :: "pml_env \<Rightarrow> pml \<Rightarrow> data pml_eff"
  and getVariable :: "pml_env \<Rightarrow> pml \<Rightarrow> data pml_eff"
  and setVariable :: "pml_env \<Rightarrow> pml \<Rightarrow> data \<Rightarrow> unit pml_eff" where
  "evaluateExpr E (Pml t v ops) =
    (if is_int_op t then
       (case ops of
          a # b # _ \<Rightarrow> bindM (evaluateExpr E a) (\<lambda>x. bindM (dataToInt E x) (\<lambda>i.
            bindM (evaluateExpr E b) (\<lambda>y. bindM (dataToInt E y) (\<lambda>j. definedM (int_op t i j)))))
        | _ \<Rightarrow> throwM Abort)
     else (case t of
         PML_CONST \<Rightarrow> returnM (eval_const E v)
       | PML_NAME \<Rightarrow> bindM (getVariable E (Pml t v ops)) (\<lambda>d. returnM (eval_name E d))
       | PML_VAR_ARRAY \<Rightarrow> getVariable E (Pml t v ops)
       | PML_CMPND \<Rightarrow> getVariable E (Pml t v ops)
       | PML_STRING \<Rightarrow> bindM (strip_quotes v) (\<lambda>stripped. returnM (Data_atom stripped VERBATIM))
       | PML_EQ \<Rightarrow> (case ops of
             lhs # rhs # _ \<Rightarrow> bindM (evaluateExpr E lhs) (\<lambda>left. bindM (evaluateExpr E rhs) (\<lambda>right. eval_eq E lhs rhs left right))
           | _ \<Rightarrow> throwM Abort)
       | PML_NEG \<Rightarrow> (case ops of
             a # _ \<Rightarrow> bindM (evaluateExpr E a) (\<lambda>x. bindM (dataToBool E x) (\<lambda>b. returnM (Data_bool (\<not> b))))
           | _ \<Rightarrow> throwM Abort)
       | PML_ASGN \<Rightarrow> (case ops of
             lhs # rhs # _ \<Rightarrow> bindM (evaluateExpr E rhs) (\<lambda>d. bindM (setVariable E lhs d) (\<lambda>_. returnM (Data_int 0)))
           | _ \<Rightarrow> throwM Abort)
       | PML_AND \<Rightarrow> (case ops of
             lhs # rhs # _ \<Rightarrow> bindM (evaluateExpr E lhs) (\<lambda>left. bindM (evaluateExpr E rhs) (\<lambda>right.
               bindM (dataToBool E left) (\<lambda>l. bindM (dataToBool E right) (\<lambda>r. returnM (Data_bool (l \<and> r))))))
           | _ \<Rightarrow> throwM Abort)
       | PML_OR \<Rightarrow> (case ops of
             lhs # rhs # _ \<Rightarrow> bindM (evaluateExpr E lhs) (\<lambda>left. bindM (evaluateExpr E rhs) (\<lambda>right.
               bindM (dataToBool E left) (\<lambda>l. bindM (dataToBool E right) (\<lambda>r. returnM (Data_bool (l \<or> r))))))
           | _ \<Rightarrow> throwM Abort)
       | _ \<Rightarrow> pm_error E 498 (''Support for '' @ typeToDesc t @ '' expressions not implemented'')))"
| "getVariable E (Pml t v ops) = (case t of
      PML_NAME \<Rightarrow> bindM (readM (declared v)) (\<lambda>known.
        if \<not> known then pm_error E 631 (''No variable '' @ v @ '' was declared'')
        else bindM (touch_value v) (\<lambda>_. readM (\<lambda>s. data_at (variable v s) ''value'')))
    | PML_VAR_ARRAY \<Rightarrow> (case ops of
          n # e # _ \<Rightarrow> bindM (evaluateExpr E e) (\<lambda>i. bindM (dataToInt E i) (\<lambda>index.
            bindM (readM (\<lambda>s. (declared (pvalue n) s, variable (pvalue n) s))) (\<lambda>(known, d).
              if \<not> known then pm_error E 643 (''No variable '' @ pvalue n @ '' was declared'')
              else if \<not> hasKey d ''size'' then pm_error E 647 (''Variable '' @ pvalue n @ '' is no array'')
              else if strTo_signed (pm_junk E) 32 (atom (data_at d ''size'')) \<le> index
                then pm_error E 651 (out_of_bounds (pvalue n) index (atom (data_at d ''size'')))
              else get_item (pvalue n) index)))
        | _ \<Rightarrow> throwM Abort)
    | PML_CMPND \<Rightarrow> get_cmpnd E ops
    | _ \<Rightarrow> pm_error E 702 (''Retrieving value of '' @ typeToDesc t @ '' variable not implemented''))"
| "setVariable E (Pml t v ops) value =
    (if invalid_assignment v then pm_error E 540 (''Cannot assign to '' @ v)
     else (case t of
         PML_VAR_ARRAY \<Rightarrow> (case ops of
             n # e # _ \<Rightarrow> bindM (readM (\<lambda>s. (declared (pvalue n) s, variable (pvalue n) s))) (\<lambda>(known, d).
               if \<not> known then pm_error E 551 (''Variable '' @ pvalue n @ '' is undeclared'')
               else if \<not> hasKey d ''size'' then pm_error E 556 (''Variable '' @ pvalue n @ '' is no array'')
               else bindM (evaluateExpr E e) (\<lambda>i. bindM (dataToInt E i) (\<lambda>index.
                 bindM (readM (\<lambda>s. atom (data_at (variable (pvalue n) s) ''size''))) (\<lambda>sz.
                   if strTo_signed (pm_junk E) 32 sz \<le> index then pm_error E 562 (out_of_bounds (pvalue n) index sz)
                   else set_item (pvalue n) index value))))
           | _ \<Rightarrow> throwM Abort)
       | PML_NAME \<Rightarrow> set_name E v value
       | PML_CMPND \<Rightarrow> set_cmpnd E ops value
       | _ \<Rightarrow> pm_error E 616 (''No support for '' @ typeToDesc t @ '' variables implemented'')))"

declare evaluateExpr.simps [simp del] getVariable.simps [simp del] setVariable.simps [simp del]

subsection \<open>Declarations and statements\<close>

definition declare_variable :: "string \<Rightarrow> data \<Rightarrow> unit pml_eff" where
  "declare_variable x d = modifyM (\<lambda>s. s\<lparr>pm_variables := put x d (pm_variables s)\<rparr>)"

text \<open>\<open>_lastMType++\<close>\<close>

definition nextMType :: "int pml_eff" where
  "nextMType s = (if pm_lastMType s = INT_MAX then (Inl Abort, s)
     else (Inr (pm_lastMType s), s\<lparr>pm_lastMType := pm_lastMType s + 1\<rparr>))"

text \<open>An error of the initial value is caught as an \<open>Event\<close> and thrown again as one, no longer as an \<open>ErrorEvent\<close>.\<close>

definition declare_failed :: "string \<Rightarrow> data \<Rightarrow> data pml_eff \<Rightarrow> data pml_eff" where
  "declare_failed x d m s = (case m s of
      (Inl (ErrorExc e), s') \<Rightarrow> bindM (declare_variable x d) (\<lambda>_. throwM (EventExc e)) s'
    | (Inl (EventExc e), s') \<Rightarrow> bindM (declare_variable x d) (\<lambda>_. throwM (EventExc e)) s'
    | r \<Rightarrow> r)"

definition array_variable :: "int \<Rightarrow> data \<Rightarrow> data" where
  "array_variable sz d =
    (let d1 = put ''size'' (Data_int sz) d in
     if sz \<le> 0 then d1
     else put ''value'' (fold (\<lambda>i. put_item (int i) (Data_int 0)) [0..<nat sz] Data_empty) d1)"

definition evaluateIvar :: "pml_env \<Rightarrow> pml \<Rightarrow> pml \<Rightarrow> pml \<Rightarrow> unit pml_eff" where
  "evaluateIvar E vis type ivar =
    (let d = put ''type'' (Data_atom (pvalue type) VERBATIM) (put ''vis'' (Data_atom (pvalue vis) VERBATIM) Data_empty) in
     case ptype ivar of
       PML_NAME \<Rightarrow> bindM (if pvalue type = ''mtype'' then nextMType else returnM 0)
         (\<lambda>i. declare_variable (pvalue ivar) (put ''value'' (Data_int i) d))
     | PML_ASGN \<Rightarrow> (case operands ivar of
           name # expr # others \<Rightarrow> bindM (declare_failed (pvalue name) d (evaluateExpr E expr)) (\<lambda>value.
             if others \<noteq> [] then throwM Abort else declare_variable (pvalue name) (put ''value'' value d))
         | _ \<Rightarrow> throwM Abort)
     | PML_VAR_ARRAY \<Rightarrow> (case operands ivar of
           name # expr # others \<Rightarrow> bindM (evaluateExpr E expr) (\<lambda>x. bindM (dataToInt E x) (\<lambda>sz.
             if others \<noteq> [] then throwM Abort else declare_variable (pvalue name) (array_variable sz d)))
         | _ \<Rightarrow> throwM Abort)
     | _ \<Rightarrow> pm_error E 354 (''Declaring variables via '' @ typeToDesc (ptype ivar) @ '' not implemented''))"

fun forM :: "('a \<Rightarrow> unit pml_eff) \<Rightarrow> 'a list \<Rightarrow> unit pml_eff" where
  "forM f [] = returnM ()"
| "forM f (x # xs) = bindM (f x) (\<lambda>_. forM f xs)"

fun evaluateDecl :: "pml_env \<Rightarrow> pml \<Rightarrow> unit pml_eff"
  and evaluateDecls :: "pml_env \<Rightarrow> pml list \<Rightarrow> unit pml_eff" where
  "evaluateDecl E (Pml t v ops) = (case t of
      PML_DECL \<Rightarrow> (case ops of
          vis # type # varlist # others \<Rightarrow> bindM (forM (evaluateIvar E vis type) (operands varlist))
            (\<lambda>_. if others \<noteq> [] then throwM Abort else returnM ())
        | _ \<Rightarrow> throwM Abort)
    | PML_DECLLIST \<Rightarrow> evaluateDecls E ops
    | _ \<Rightarrow> pm_error E 366 (''Declaring variables via '' @ typeToDesc t @ '' not implemented''))"
| "evaluateDecls E [] = returnM ()"
| "evaluateDecls E (d # ds) = bindM (evaluateDecl E d) (\<lambda>_. evaluateDecls E ds)"

text \<open>\<open>strTo<long>\<close> of the value, plus or minus one\<close>

definition step_variable :: "pml_env \<Rightarrow> int \<Rightarrow> pml \<Rightarrow> unit pml_eff" where
  "step_variable E by name = bindM (getVariable E name) (\<lambda>d.
     let v = strTo_signed (pm_junk E) 64 (atom d) + by in
     if v < - (2 ^ 63) \<or> v > 2 ^ 63 - 1 then throwM Abort else setVariable E name (Data_int v))"

fun evaluateStmnt :: "pml_env \<Rightarrow> pml \<Rightarrow> unit pml_eff"
  and evaluateStmnts :: "pml_env \<Rightarrow> pml list \<Rightarrow> unit pml_eff" where
  "evaluateStmnt E (Pml t v ops) = (case t of
      PML_ASGN \<Rightarrow> (case ops of
          name # expr # _ \<Rightarrow> bindM (evaluateExpr E expr) (setVariable E name)
        | _ \<Rightarrow> throwM Abort)
    | PML_STMNT \<Rightarrow> evaluateStmnts E ops
    | PML_INCR \<Rightarrow> (case ops of name # _ \<Rightarrow> step_variable E 1 name | _ \<Rightarrow> throwM Abort)
    | PML_DECR \<Rightarrow> (case ops of name # _ \<Rightarrow> step_variable E (- 1) name | _ \<Rightarrow> throwM Abort)
    | _ \<Rightarrow> pm_error E 531 (''No support for '' @ typeToDesc t @ '' statement implemented''))"
| "evaluateStmnts E [] = returnM ()"
| "evaluateStmnts E (d # ds) = bindM (evaluateStmnt E d) (\<lambda>_. evaluateStmnts E ds)"

subsection \<open>The data model\<close>

definition pm_getNames :: "string list" where
  "pm_getNames = [''promela'']"

definition pm_setup :: "pml_env \<Rightarrow> promela" where
  "pm_setup E =
    (let text = (\<lambda>s. put ''value'' (Data_atom s VERBATIM) (put ''type'' (Data_atom ''string'' VERBATIM) Data_empty));
         io = put ''type'' (Data_atom ''compound'' VERBATIM) Data_empty;
         ioProcs = (if pm_ioProcessors E = [] then io
           else put ''value'' (foldl (\<lambda>d (k, v). put k v d) Data_empty (pm_ioProcessors E)) io)
     in \<lparr>pm_variables = put ''_ioprocessors'' ioProcs (put ''_name'' (text (pm_name E))
           (put ''_sessionid'' (text (pm_sessionId E)) Data_empty)), pm_lastMType = 0\<rparr>)"

text \<open>Integers become interpreted; a value with an atom that is an integer, or with an array, is not searched further.\<close>

fun adaptType :: "data \<Rightarrow> data"
  and adaptArray :: "(int \<times> data) list \<Rightarrow> (int \<times> data) list"
  and adaptCompound :: "(string \<times> data) list \<Rightarrow> (string \<times> data) list" where
  "adaptType (Data n c a at b t) =
    (if length at > 0 \<and> isInteger at 10 then Data n c a at b INTERPRETED
     else if a \<noteq> [] then Data n c (adaptArray a) at b t
     else Data n (adaptCompound c) a at b t)"
| "adaptArray [] = []"
| "adaptArray ((i, d) # r) = (i, adaptType d) # adaptArray r"
| "adaptCompound [] = []"
| "adaptCompound ((k, d) # r) = (k, adaptType d) # adaptCompound r"

text \<open>The first entry for every key of a multimap, which \<open>upper_bound\<close> steps through.\<close>

fun first_entries :: "(string \<times> 'v) list \<Rightarrow> (string \<times> 'v) list" where
  "first_entries [] = []"
| "first_entries [e] = [e]"
| "first_entries (e # e' # r) = (if fst e = fst e' then first_entries (e # r) else e # first_entries (e' # r))"

definition event_entry :: "pml_env \<Rightarrow> data \<Rightarrow> string \<times> data \<Rightarrow> data" where
  "event_entry E d e = put (fst e)
     (if isNumeric (atom (snd e)) 10 then Data_int (strTo_signed (pm_junk E) 32 (atom (snd e))) else snd e) d"

definition event_payload :: "pml_env \<Rightarrow> Event \<Rightarrow> data" where
  "event_payload E event =
    (let d0 = (if \<not> Data_is_empty (edata event) then edata event else Data_empty);
         d1 = foldl (event_entry E) d0 (first_entries (params event))
     in adaptType (foldl (event_entry E) d1 (namelist event)))"

definition event_variable :: "pml_env \<Rightarrow> Event \<Rightarrow> data" where
  "event_variable E event =
    (let str = (\<lambda>s. Data_atom s VERBATIM);
         d1 = put ''name'' (str (ename event)) Data_empty;
         d2 = put ''origin'' (str (origin event)) d1;
         d3 = put ''origintype'' (str (origintype event)) d2;
         d4 = put ''invokeid'' (str (invokeid event)) d3;
         d5 = put ''sendid'' (str (if hideSendId event then [] else sendid event)) d4;
         d6 = put ''type'' (str (TypeToString (eventType event))) d5
     in put ''value'' (put ''data'' (event_payload E event) d6)
          (put ''type'' (str ''compound'') Data_empty))"

definition pm_setEvent :: "pml_env \<Rightarrow> Event \<Rightarrow> promela \<Rightarrow> promela" where
  "pm_setEvent E event s = s\<lparr>pm_variables := put ''_event'' (event_variable E event) (pm_variables s)\<rparr>"

definition pm_isValidSyntax :: "pml_env \<Rightarrow> string \<Rightarrow> bool" where
  "pm_isValidSyntax E expr = (case pm_parse E expr of Ast _ _ \<Rightarrow> True | Syntax_Error _ _ _ \<Rightarrow> False)"

text \<open>A path of \<open>isDeclared\<close> descends into an entry or into the entry \<open>value\<close> of a variable.\<close>

fun declared_path :: "string list \<Rightarrow> data \<Rightarrow> bool" where
  "declared_path [] d = True"
| "declared_path (n # ns) d =
     (if hasKey d n then declared_path ns (data_at d n)
      else if hasKey d ''value'' \<and> hasKey (data_at d ''value'') n then declared_path ns (data_at (data_at d ''value'') n)
      else False)"

definition pm_isDeclared :: "pml_env \<Rightarrow> string \<Rightarrow> bool pml_eff" where
  "pm_isDeclared E expr = bindM (parser E expr) (\<lambda>t.
     case (ptype t, operands t) of
       (PML_VAR_ARRAY, n # _) \<Rightarrow> readM (declared (pvalue n))
     | (PML_VAR_ARRAY, []) \<Rightarrow> throwM Abort
     | (PML_CMPND, ops) \<Rightarrow> readM (\<lambda>s. declared_path (map pvalue ops) (pm_variables s))
     | _ \<Rightarrow> readM (declared expr))"

text \<open>The subscripts of \<open>getLength\<close> create an entry for an expression that is not the name of a variable.\<close>

definition pm_getLength :: "pml_env \<Rightarrow> string \<Rightarrow> nat pml_eff" where
  "pm_getLength E expr = bindM (pm_isDeclared E expr) (\<lambda>known.
     if \<not> known then pm_error E 206 (''Variable '' @ [CHR 0x27] @ expr @ [CHR 0x27] @ '' was not declared'')
     else bindM (modifyM (\<lambda>s. s\<lparr>pm_variables := touch expr (pm_variables s)\<rparr>)) (\<lambda>_. bindM (readM (variable expr)) (\<lambda>d.
       if \<not> hasKey d ''size'' then pm_error E 210 (''Variable '' @ [CHR 0x27] @ expr @ [CHR 0x27] @ '' is no array'')
       else returnM (nat (strTo_signed (pm_junk E) 32 (atom (data_at d ''size'')) mod 2 ^ 32)))))"

definition pm_evalAsBool :: "pml_env \<Rightarrow> string \<Rightarrow> bool pml_eff" where
  "pm_evalAsBool E expr = bindM (parser_of E expr PROMELA_EXPR) (\<lambda>t. bindM (evaluateExpr E t) (\<lambda>tmp.
     returnM (if atom tmp = ''false'' then False else if atom tmp = ''0'' then False else True)))"

definition pm_evalAsData :: "pml_env \<Rightarrow> string \<Rightarrow> data pml_eff" where
  "pm_evalAsData E expr = bindM (parser E expr) (evaluateExpr E)"

definition jsonM :: "pml_env \<Rightarrow> string \<Rightarrow> data pml_eff" where
  "jsonM E content = (case fromJSON (pm_uid E) content of
      Parsed d \<Rightarrow> returnM d | Parse_Error e \<Rightarrow> throwM (ErrorExc e) | Undefined _ \<Rightarrow> throwM Abort)"

definition pm_getAsData :: "pml_env \<Rightarrow> string \<Rightarrow> data pml_eff" where
  "pm_getAsData E content = catchError (pm_evalAsData E content) (\<lambda>_. jsonM E content)"

text \<open>A loop variable that cannot be assigned is declared as an \<open>int\<close> first.\<close>

definition set_or_declare :: "pml_env \<Rightarrow> string \<Rightarrow> unit pml_eff \<Rightarrow> unit pml_eff" where
  "set_or_declare E x m = catchError m (\<lambda>_. bindM (parser E (''int '' @ x)) (\<lambda>t. bindM (evaluateDecl E t) (\<lambda>_. m)))"

definition pm_setForeach :: "pml_env \<Rightarrow> string \<Rightarrow> string \<Rightarrow> string \<Rightarrow> nat \<Rightarrow> unit pml_eff" where
  "pm_setForeach E item_expr array index iteration =
    bindM (parser_of E item_expr PROMELA_EXPR) (\<lambda>i.
      if ptype i \<noteq> PML_NAME then pm_error E 226 (''Expression '' @ [CHR 0x27] @ item_expr @ [CHR 0x27] @ '' is no valid item'')
      else bindM (parser_of E (array @ ''['' @ digits iteration @ '']'') PROMELA_EXPR) (\<lambda>a.
        bindM (set_or_declare E item_expr (bindM (getVariable E a) (setVariable E i))) (\<lambda>_.
          if length index > 0 then bindM (parser_of E index PROMELA_EXPR) (\<lambda>x.
            set_or_declare E index (setVariable E x (Data_atom (digits iteration) INTERPRETED)))
          else returnM ())))"

definition pm_assign :: "pml_env \<Rightarrow> string \<Rightarrow> data \<Rightarrow> unit pml_eff" where
  "pm_assign E location d = bindM (parser E location) (\<lambda>t.
     if length (atom d) > 0 \<and> type_of d = INTERPRETED then bindM (pm_evalAsData E (atom d)) (setVariable E t)
     else setVariable E t d)"

definition decl_text :: "string \<Rightarrow> (string \<times> string) list \<Rightarrow> string" where
  "decl_text location attr =
    (let type = (case map_of attr ''type'' of Some t \<Rightarrow> t | None \<Rightarrow> ''auto'') in
     case find_from (\<lambda>c. c = CHR ''['') type 0 of
       Some p \<Rightarrow> take p type @ '' '' @ location @ drop p type
     | None \<Rightarrow> type @ '' '' @ location)"

definition pm_init :: "pml_env \<Rightarrow> string \<Rightarrow> data \<Rightarrow> (string \<times> string) list \<Rightarrow> unit pml_eff" where
  "pm_init E location d attr =
    bindM (parser_of E (decl_text location attr) PROMELA_DECL) (\<lambda>decl. bindM (evaluateDecl E decl) (\<lambda>_.
      bindM (parser E location) (\<lambda>t.
        if length (atom d) > 0 \<and> type_of d = INTERPRETED then
          bindM (jsonM E (atom d)) (\<lambda>j.
            bindM (if \<not> Data_is_empty j then setVariable E t j else returnM ()) (\<lambda>_. setVariable E t d))
        else setVariable E t d)))"

definition pm_addExtension :: "pml_env \<Rightarrow> unit pml_eff" where
  "pm_addExtension E = pm_error E 773 ''Extensions unimplemented in promela datamodel''"

end
