(* ===== verification/Promela_Properties.thy ===== *)
theory Promela_Properties
  imports Promela
begin

text \<open>
  What the Promela data model computes. Conditions and arithmetic agree with a reference semantics over a store of
  integers, and an assignment updates that store; arrays have bounds; the system variables are protected in part.
  The locale \<open>location\<close> is the contract of a place that can be assigned; names, elements and fields are its instances.
\<close>

subsection \<open>Numerals\<close>

definition is_digit :: "char \<Rightarrow> bool" where
  "is_digit c = (let n = of_char c :: nat in 48 \<le> n \<and> n \<le> 57)"

lemma strTo_nat_append: "list_all is_digit xs \<Longrightarrow> strTo_nat (xs @ ys) acc = strTo_nat ys (strTo_nat xs acc)"
  by (induction xs arbitrary: acc) (simp_all add: is_digit_def Let_def)

lemma of_char_digit: "n < 10 \<Longrightarrow> (of_char (char_of (48 + n) :: char) :: nat) = 48 + n"
  by simp

lemma digits_all: "list_all is_digit (digits n)"
proof (induction n rule: digits.induct)
  case (1 n)
  have "is_digit (char_of (48 + n mod 10))" by (simp add: is_digit_def)
  moreover have "n < 10 \<Longrightarrow> is_digit (char_of (48 + n))" by (simp add: is_digit_def)
  ultimately show ?case using 1 by (subst digits.simps) simp
qed

lemma strTo_nat_digits [simp]: "strTo_nat (digits n) 0 = n"
proof (induction n rule: digits.induct)
  case (1 n)
  moreover have "n mod 10 \<le> 9" using mod_less_divisor [of 10 n] by linarith
  ultimately show ?case
    by (subst digits.simps) (simp add: strTo_nat_append [OF digits_all] Let_def)
qed

lemma digits_Cons: "\<exists>c cs. digits n = c # cs \<and> is_digit c"
proof -
  have "digits n \<noteq> []" by (subst digits.simps) simp
  then show ?thesis using digits_all [of n] by (cases "digits n") auto
qed

lemma digit_char: "is_digit c \<Longrightarrow> \<not> isspace c \<and> c \<noteq> CHR ''-'' \<and> c \<noteq> CHR ''+''"
  by (auto simp: is_digit_def isspace_def)

definition int_ok :: "int \<Rightarrow> bool" where
  "int_ok i = (INT_MIN \<le> i \<and> i \<le> INT_MAX)"

lemma strTo_toStr [simp]:
  assumes "int_ok i" shows "strTo_signed junk 32 (toStr_int i) = i"
proof -
  obtain c cs where c: "digits (nat \<bar>i\<bar>) = c # cs" "is_digit c" using digits_Cons by blast
  have "strTo_nat (c # cs) 0 = nat \<bar>i\<bar>" using c(1) strTo_nat_digits [of "nat \<bar>i\<bar>"] by simp
  moreover have "i < 0 \<Longrightarrow> nat (- i) = nat \<bar>i\<bar>" "\<not> i < 0 \<Longrightarrow> nat i = nat \<bar>i\<bar>" by simp_all
  moreover have "\<not> isspace (CHR ''-'')" by (simp add: isspace_def)
  ultimately show ?thesis
    using assms c digit_char [OF c(2)]
    by (auto simp: strTo_signed_def toStr_int_def signed_magnitude_def Let_def int_ok_def INT_MIN_def INT_MAX_def
        simp del: strTo_nat.simps)
qed

lemma toStr_inject [simp]: "int_ok i \<Longrightarrow> int_ok j \<Longrightarrow> toStr_int i = toStr_int j \<longleftrightarrow> i = j"
  using strTo_toStr [of i 0] strTo_toStr [of j 0] by metis

lemma toStr_nonempty [simp]: "toStr_int i \<noteq> []"
  using digits_Cons [of "nat i"] by (auto simp: toStr_int_def)

lemma digit_numeric: "is_digit c \<Longrightarrow> c \<in> set ''.-0123456789''"
proof -
  assume "is_digit c"
  then have "of_char c \<in> {48 .. 57::nat}" by (simp add: is_digit_def Let_def)
  then have "of_char c \<in> set [48 ..< 58::nat]" unfolding set_upt by auto
  then have "char_of (of_char c :: nat) \<in> char_of ` set [48 ..< 58::nat]" by (rule imageI)
  then have "c \<in> char_of ` set [48 ..< 58::nat]" by (simp only: char_of_char)
  moreover have "char_of ` set [48 ..< 58::nat] = set ''0123456789''" by code_simp
  ultimately have "c \<in> set ''0123456789''" by (simp only:)
  then show ?thesis by auto
qed

lemma toStr_numeric [simp]: "isNumeric (toStr_int i) 10"
proof -
  have "substr ''.-0123456789ABCDEF'' 0 (10 + 2) = ''.-0123456789''" by code_simp
  moreover have "list_all (\<lambda>c. c \<in> set ''.-0123456789'') (digits n)" for n
    using digits_all [of n] digit_numeric by (auto simp: list_all_iff)
  ultimately show ?thesis by (simp add: isNumeric_def toStr_int_def)
qed

lemma dataToInt_toStr: "int_ok i \<Longrightarrow> atom d = toStr_int i \<Longrightarrow> dataToInt E d = returnM i"
  by (simp add: dataToInt_def)

lemma bindM_Inr: "m s = (Inr a, s') \<Longrightarrow> bindM m f s = f a s'"
  by (simp add: bindM_def)

lemma Data_int_sel [simp]: "atom (Data_int i) = toStr_int i" "type_of (Data_int i) = INTERPRETED"
    "compound (Data_int i) = []" "array_of (Data_int i) = []"
  by (simp_all add: Data_int_def)

lemma dataToBool_Data_bool [simp]: "dataToBool E (Data_bool b) = returnM b"
proof -
  have "toStr_int 1 = ''1''" "toStr_int 0 = ''0''" by code_simp+
  moreover have "int_ok 1" "int_ok 0" by (simp_all add: int_ok_def INT_MIN_def INT_MAX_def)
  ultimately have "dataToInt E (Data_bool b) = returnM (if b then 1 else 0)"
    by (auto simp: Data_bool_def intro!: dataToInt_toStr)
  then show ?thesis by (simp add: dataToBool_def) (simp add: Data_bool_def)
qed

subsection \<open>Reference semantics\<close>

text \<open>Arithmetic and conditions over a store of integers, with the trees that the grammar builds for them.\<close>

datatype aexp = Num nat | Var string | Add aexp aexp | Sub aexp aexp | Mul aexp aexp | Div aexp aexp | Mod aexp aexp

datatype bexp = LtA aexp aexp | LeA aexp aexp | GtA aexp aexp | GeA aexp aexp | EqA aexp aexp
  | NotB bexp | AndB bexp bexp | OrB bexp bexp

type_synonym store = "string \<Rightarrow> int"

fun aval :: "store \<Rightarrow> aexp \<Rightarrow> int" where
  "aval \<sigma> (Num n) = int n"
| "aval \<sigma> (Var x) = \<sigma> x"
| "aval \<sigma> (Add a b) = aval \<sigma> a + aval \<sigma> b"
| "aval \<sigma> (Sub a b) = aval \<sigma> a - aval \<sigma> b"
| "aval \<sigma> (Mul a b) = aval \<sigma> a * aval \<sigma> b"
| "aval \<sigma> (Div a b) = aval \<sigma> a sdiv aval \<sigma> b"
| "aval \<sigma> (Mod a b) = aval \<sigma> a smod aval \<sigma> b"

fun bval :: "store \<Rightarrow> bexp \<Rightarrow> bool" where
  "bval \<sigma> (LtA a b) = (aval \<sigma> a < aval \<sigma> b)"
| "bval \<sigma> (LeA a b) = (aval \<sigma> a \<le> aval \<sigma> b)"
| "bval \<sigma> (GtA a b) = (aval \<sigma> a > aval \<sigma> b)"
| "bval \<sigma> (GeA a b) = (aval \<sigma> a \<ge> aval \<sigma> b)"
| "bval \<sigma> (EqA a b) = (aval \<sigma> a = aval \<sigma> b)"
| "bval \<sigma> (NotB p) = (\<not> bval \<sigma> p)"
| "bval \<sigma> (AndB p q) = (bval \<sigma> p \<and> bval \<sigma> q)"
| "bval \<sigma> (OrB p q) = (bval \<sigma> p \<or> bval \<sigma> q)"

abbreviation name_tree :: "string \<Rightarrow> pml" where "name_tree x \<equiv> Pml PML_NAME x []"

fun a_tree :: "aexp \<Rightarrow> pml" where
  "a_tree (Num n) = Pml PML_CONST (digits n) []"
| "a_tree (Var x) = name_tree x"
| "a_tree (Add a b) = Pml PML_PLUS [] [a_tree a, a_tree b]"
| "a_tree (Sub a b) = Pml PML_MINUS [] [a_tree a, a_tree b]"
| "a_tree (Mul a b) = Pml PML_TIMES [] [a_tree a, a_tree b]"
| "a_tree (Div a b) = Pml PML_DIVIDE [] [a_tree a, a_tree b]"
| "a_tree (Mod a b) = Pml PML_MODULO [] [a_tree a, a_tree b]"

fun b_tree :: "bexp \<Rightarrow> pml" where
  "b_tree (LtA a b) = Pml PML_LT [] [a_tree a, a_tree b]"
| "b_tree (LeA a b) = Pml PML_LE [] [a_tree a, a_tree b]"
| "b_tree (GtA a b) = Pml PML_GT [] [a_tree a, a_tree b]"
| "b_tree (GeA a b) = Pml PML_GE [] [a_tree a, a_tree b]"
| "b_tree (EqA a b) = Pml PML_EQ [] [a_tree a, a_tree b]"
| "b_tree (NotB p) = Pml PML_NEG [] [b_tree p]"
| "b_tree (AndB p q) = Pml PML_AND [] [b_tree p, b_tree q]"
| "b_tree (OrB p q) = Pml PML_OR [] [b_tree p, b_tree q]"

text \<open>No subterm leaves the range of an \<open>int\<close> and no divisor is zero.\<close>

fun a_ok :: "store \<Rightarrow> aexp \<Rightarrow> bool" where
  "a_ok \<sigma> (Num n) = int_ok (int n)"
| "a_ok \<sigma> (Var x) = int_ok (\<sigma> x)"
| "a_ok \<sigma> (Add a b) = (a_ok \<sigma> a \<and> a_ok \<sigma> b \<and> int_ok (aval \<sigma> a + aval \<sigma> b))"
| "a_ok \<sigma> (Sub a b) = (a_ok \<sigma> a \<and> a_ok \<sigma> b \<and> int_ok (aval \<sigma> a - aval \<sigma> b))"
| "a_ok \<sigma> (Mul a b) = (a_ok \<sigma> a \<and> a_ok \<sigma> b \<and> int_ok (aval \<sigma> a * aval \<sigma> b))"
| "a_ok \<sigma> (Div a b) = (a_ok \<sigma> a \<and> a_ok \<sigma> b \<and> aval \<sigma> b \<noteq> 0 \<and> int_ok (aval \<sigma> a sdiv aval \<sigma> b))"
| "a_ok \<sigma> (Mod a b) = (a_ok \<sigma> a \<and> a_ok \<sigma> b \<and> aval \<sigma> b \<noteq> 0 \<and> int_ok (aval \<sigma> a sdiv aval \<sigma> b) \<and>
     int_ok (aval \<sigma> a smod aval \<sigma> b))"

fun b_ok :: "store \<Rightarrow> bexp \<Rightarrow> bool" where
  "b_ok \<sigma> (LtA a b) = (a_ok \<sigma> a \<and> a_ok \<sigma> b)"
| "b_ok \<sigma> (LeA a b) = (a_ok \<sigma> a \<and> a_ok \<sigma> b)"
| "b_ok \<sigma> (GtA a b) = (a_ok \<sigma> a \<and> a_ok \<sigma> b)"
| "b_ok \<sigma> (GeA a b) = (a_ok \<sigma> a \<and> a_ok \<sigma> b)"
| "b_ok \<sigma> (EqA a b) = (a_ok \<sigma> a \<and> a_ok \<sigma> b)"
| "b_ok \<sigma> (NotB p) = b_ok \<sigma> p"
| "b_ok \<sigma> (AndB p q) = (b_ok \<sigma> p \<and> b_ok \<sigma> q)"
| "b_ok \<sigma> (OrB p q) = (b_ok \<sigma> p \<and> b_ok \<sigma> q)"

text \<open>The variables of the data model hold the integers of the store.\<close>

definition holds :: "store \<Rightarrow> string set \<Rightarrow> promela \<Rightarrow> bool" where
  "holds \<sigma> X s = (\<forall>x \<in> X. declared x s \<and> hasKey (variable x s) ''value'' \<and> \<not> hasKey (variable x s) ''size'' \<and>
     atom (data_at (variable x s) ''value'') = toStr_int (\<sigma> x))"


fun avars :: "aexp \<Rightarrow> string set" where
  "avars (Num n) = {}"
| "avars (Var x) = {x}"
| "avars (Add a b) = avars a \<union> avars b"
| "avars (Sub a b) = avars a \<union> avars b"
| "avars (Mul a b) = avars a \<union> avars b"
| "avars (Div a b) = avars a \<union> avars b"
| "avars (Mod a b) = avars a \<union> avars b"

fun bvars :: "bexp \<Rightarrow> string set" where
  "bvars (LtA a b) = avars a \<union> avars b"
| "bvars (LeA a b) = avars a \<union> avars b"
| "bvars (GtA a b) = avars a \<union> avars b"
| "bvars (GeA a b) = avars a \<union> avars b"
| "bvars (EqA a b) = avars a \<union> avars b"
| "bvars (NotB p) = bvars p"
| "bvars (AndB p q) = bvars p \<union> bvars q"
| "bvars (OrB p q) = bvars p \<union> bvars q"

lemma holds_Un [simp]: "holds \<sigma> (X \<union> Y) s \<longleftrightarrow> holds \<sigma> X s \<and> holds \<sigma> Y s"
  by (auto simp: holds_def)

text \<open>An expression that has the value of an integer and changes nothing.\<close>

definition yields :: "pml_env \<Rightarrow> pml \<Rightarrow> promela \<Rightarrow> int \<Rightarrow> bool" where
  "yields E t s i = (int_ok i \<and> (\<exists>d. evaluateExpr E t s = (Inr d, s) \<and> atom d = toStr_int i))"

lemma int_op_value:
  assumes "yields E a s i" and "yields E b s j" and "is_int_op t"
  shows "evaluateExpr E (Pml t v [a, b]) s = definedM (int_op t i j) s"
  using assms by (auto simp: yields_def evaluateExpr.simps bindM_Inr dataToInt_toStr)

lemma yields_op:
  assumes "yields E a s i" and "yields E b s j" and "is_int_op t" and "int_op t i j = int_result k" and "int_ok k"
  shows "yields E (Pml t v [a, b]) s k"
  using int_op_value [OF assms(1-3), of v] assms(4,5)
  by (auto simp: yields_def int_result_def int_ok_def definedM_def returnM_def)

lemma get_name_value:
  assumes "declared x s" and "hasKey (variable x s) ''value''"
  shows "getVariable E (name_tree x) s = (Inr (data_at (variable x s) ''value''), s)"
  using assms by (simp add: getVariable.simps bindM_def readM_def touch_value_def modifyM_def)

lemma yields_name:
  assumes "declared x s" and "hasKey (variable x s) ''value''" and "atom (data_at (variable x s) ''value'') = toStr_int i"
    and "int_ok i"
  shows "yields E (name_tree x) s i"
  using assms get_name_value [OF assms(1,2), of E]
  by (simp add: yields_def evaluateExpr.simps [of _ PML_NAME] is_int_op_def bindM_Inr eval_name_def returnM_def)

lemma digit_not_bool: "is_digit c \<Longrightarrow> \<not> iequals (c # cs) ''true'' \<and> \<not> iequals (c # cs) ''false''"
  by (auto simp: iequals_iff is_digit_def Let_def tolower_def)

lemma yields_const: "int_ok (int n) \<Longrightarrow> yields E (Pml PML_CONST (digits n) []) s (int n)"
proof -
  assume n: "int_ok (int n)"
  obtain c cs where c: "digits n = c # cs" "is_digit c" using digits_Cons by blast
  have "strTo_signed (pm_junk E) 32 (digits n) = int n" using strTo_toStr [OF n, of "pm_junk E"] by (simp add: toStr_int_def)
  then show ?thesis
    using n c digit_not_bool [OF c(2), of cs]
    by (auto simp: yields_def evaluateExpr.simps is_int_op_def eval_const_def returnM_def)
qed

lemma a_tree_yields: "a_ok \<sigma> a \<Longrightarrow> holds \<sigma> (avars a) s \<Longrightarrow> int_ok (aval \<sigma> a) \<and> yields E (a_tree a) s (aval \<sigma> a)"
proof (induction a)
  case (Var x)
  then show ?case using yields_name by (auto simp: holds_def)
next
  case (Mod a b)
  then have "\<not> (aval \<sigma> a = INT_MIN \<and> aval \<sigma> b = - 1)" by (auto simp: int_ok_def INT_MIN_def INT_MAX_def)
  then show ?case using Mod by (auto simp: is_int_op_def int_op_def intro!: yields_op)
qed (auto simp: yields_const is_int_op_def int_op_def intro!: yields_op)

lemma eq_value:
  assumes "yields E a s i" and "yields E b s j" and "ptype a \<noteq> PML_STRING" and "ptype b \<noteq> PML_STRING"
  shows "evaluateExpr E (Pml PML_EQ v [a, b]) s = (Inr (Data_bool (i = j)), s)"
proof -
  obtain l r where l: "evaluateExpr E a s = (Inr l, s)" "atom l = toStr_int i" "int_ok i"
    and r: "evaluateExpr E b s = (Inr r, s)" "atom r = toStr_int j" "int_ok j" using assms by (auto simp: yields_def)
  have "eval_eq E a b l r = returnM (Data_bool (i = j))"
    using l r assms(3,4) by (auto simp: eval_eq_def dataToInt_toStr)
  then show ?thesis using l r by (simp add: evaluateExpr.simps is_int_op_def bindM_Inr returnM_def)
qed

lemma a_tree_type [simp]: "ptype (a_tree a) \<noteq> PML_STRING"
  by (cases a) auto

lemma compare_trees:
  assumes "a_ok \<sigma> a \<and> a_ok \<sigma> b" and "holds \<sigma> (avars a) s \<and> holds \<sigma> (avars b) s" and "is_int_op t"
    and "int_op t (aval \<sigma> a) (aval \<sigma> b) = Some (Data_bool r)"
  shows "evaluateExpr E (Pml t v [a_tree a, a_tree b]) s = (Inr (Data_bool r), s)"
  using int_op_value [of E "a_tree a" s "aval \<sigma> a" "a_tree b" "aval \<sigma> b" t v] a_tree_yields assms
  by (simp add: definedM_def returnM_def)

lemma b_tree_value:
  "b_ok \<sigma> p \<Longrightarrow> holds \<sigma> (bvars p) s \<Longrightarrow> evaluateExpr E (b_tree p) s = (Inr (Data_bool (bval \<sigma> p)), s)"
proof (induction p)
  case (EqA a b)
  then show ?case using eq_value a_tree_yields by simp
next
  case (NotB p)
  then show ?case by (simp add: evaluateExpr.simps [of _ PML_NEG] is_int_op_def bindM_Inr returnM_def)
next
  case (AndB p q)
  then show ?case by (simp add: evaluateExpr.simps [of _ PML_AND] is_int_op_def bindM_Inr returnM_def)
next
  case (OrB p q)
  then show ?case by (simp add: evaluateExpr.simps [of _ PML_OR] is_int_op_def bindM_Inr returnM_def)
qed (auto simp: is_int_op_def int_op_def intro!: compare_trees)

text \<open>
  C32. A condition of comparisons, negations, conjunctions and disjunctions over integer variables is true for the Promela
  data model exactly when it is true in the reference semantics, and evaluating it changes nothing, as long as no
  intermediate result leaves the range of \<open>int\<close> and no divisor is zero.
\<close>

theorem promela_conditions:
  assumes "b_ok \<sigma> p" and "holds \<sigma> (bvars p) s" and "pm_parse E expr = Ast PROMELA_EXPR (b_tree p)"
  shows "pm_evalAsBool E expr s = (Inr (bval \<sigma> p), s)"
  using b_tree_value [OF assms(1,2), of E] assms(3)
  by (simp add: pm_evalAsBool_def parser_of_def parser_init_def bindM_Inr returnM_def Data_bool_def)

subsection \<open>Locations\<close>

text \<open>The contract of a place that can be assigned: it is read back, and no variable but its own changes.\<close>

locale location =
  fixes E :: pml_env and place :: pml and base :: string
  assumes write_read: "setVariable E place v s = (Inr (), s') \<Longrightarrow> getVariable E place s' = (Inr v, s')"
    and write_frame: "setVariable E place v s = (Inr (), s') \<Longrightarrow> y \<noteq> base \<Longrightarrow>
      variable y s' = variable y s \<and> declared y s' = declared y s"
begin

lemma assign_read:
  assumes "pm_parse E loc = Ast k place" and "pm_assign E loc d s = (Inr (), s')"
    and "atom d = [] \<or> type_of d = VERBATIM"
  shows "getVariable E place s' = (Inr d, s') \<and> (\<forall>y. y \<noteq> base \<longrightarrow> variable y s' = variable y s)"
proof -
  have "setVariable E place d s = (Inr (), s')"
    using assms by (auto simp: pm_assign_def parser_def parser_init_def)
  then show ?thesis using write_read write_frame by blast
qed

lemma assign_evaluated:
  assumes "pm_parse E loc = Ast k place" and "pm_parse E e = Ast k' t" and "e \<noteq> []"
    and "pm_assign E loc (Data_atom e INTERPRETED) s = (Inr (), s')"
  obtains v s0 where "evaluateExpr E t s = (Inr v, s0)" "getVariable E place s' = (Inr v, s')"
    "\<forall>y. y \<noteq> base \<longrightarrow> variable y s' = variable y s0"
proof -
  have "bindM (evaluateExpr E t) (setVariable E place) s = (Inr (), s')"
    using assms by (simp add: pm_assign_def parser_def parser_init_def pm_evalAsData_def)
  then obtain v s0 where "evaluateExpr E t s = (Inr v, s0)" "setVariable E place v s0 = (Inr (), s')"
    by (auto simp: bindM_def split: prod.splits sum.splits)
  then show thesis using that write_read write_frame by blast
qed

end

lemmas pm_effects = bindM_def readM_def modifyM_def returnM_def throwM_def pm_error_def touch_value_def update_variable_def

lemma variable_put [simp]:
  "variable y (s\<lparr>pm_variables := put x d (pm_variables s)\<rparr>) = (if x = y then d else variable y s)"
  "declared y (s\<lparr>pm_variables := put x d (pm_variables s)\<rparr>) = (x = y \<or> declared y s)"
  by (simp_all add: variable_def declared_def)

lemma set_name_cases:
  assumes "setVariable E (name_tree x) v s = (Inr (), s')"
  shows "s' = s\<lparr>pm_variables := put x (put ''value'' v (variable x s)) (pm_variables s)\<rparr> \<and> declared x s \<and> \<not> invalid_assignment x"
  using assms by (auto simp: setVariable.simps set_name_def pm_effects split: if_splits)

interpretation name_loc: location E "name_tree x" x for E x
proof unfold_locales
  fix v s s' assume *: "setVariable E (name_tree x) v s = (Inr (), s')"
  show "getVariable E (name_tree x) s' = (Inr v, s')"
    using set_name_cases [OF *] get_name_value [of x s' E] by simp
  show "variable y s' = variable y s \<and> declared y s' = declared y s" if "y \<noteq> x" for y
    using set_name_cases [OF *] that by simp
qed

text \<open>A field of the current event.\<close>

abbreviation field_tree :: "string \<Rightarrow> string list \<Rightarrow> pml" where
  "field_tree x ks \<equiv> Pml PML_CMPND [] (name_tree x # map name_tree ks)"

definition field_base :: "data \<Rightarrow> data" where
  "field_base d = put ''vis'' (Data_atom [] VERBATIM) (put ''type'' (Data_atom ''compound'' VERBATIM) d)"

lemma get_assigned_path: "get_path E p ks (assign_path ks v d) = returnM v"
  by (induction ks arbitrary: p d) simp_all

lemma map_pvalue [simp]: "map pvalue (map name_tree ks) = ks"
  by (induction ks) simp_all

lemma set_field_cases:
  assumes "setVariable E (field_tree x ks) v s = (Inr (), s')"
  shows "s' = s\<lparr>pm_variables := put x (put ''value'' (assign_path ks v (field_base (data_at (variable x s) ''value'')))
      (variable x s)) (pm_variables s)\<rparr> \<and> declared x s"
  using assms by (auto simp: setVariable.simps set_cmpnd_def field_base_def pm_effects comp_def split: if_splits)

lemma get_field_value:
  assumes "x \<noteq> ''_x''" and "declared x s" and "hasKey (variable x s) ''value''"
  shows "getVariable E (field_tree x ks) s = get_path E x ks (data_at (variable x s) ''value'') s"
  using assms by (simp add: getVariable.simps get_cmpnd_def pm_effects comp_def)

interpretation event_field: location E "field_tree ''_event'' ks" "''_event''" for E ks
proof unfold_locales
  fix v s s' assume *: "setVariable E (field_tree ''_event'' ks) v s = (Inr (), s')"
  show "getVariable E (field_tree ''_event'' ks) s' = (Inr v, s')"
    using set_field_cases [OF *] get_field_value [of "''_event''" s' E ks] by (simp add: get_assigned_path returnM_def)
  show "variable y s' = variable y s \<and> declared y s' = declared y s" if "y \<noteq> ''_event''" for y
    using set_field_cases [OF *] that by simp
qed

subsection \<open>Arrays\<close>

abbreviation element_tree :: "string \<Rightarrow> pml \<Rightarrow> pml" where
  "element_tree x e \<equiv> Pml PML_VAR_ARRAY [] [name_tree x, e]"

lemma not_invalid_Nil [simp]: "\<not> invalid_assignment []"
  by (simp add: invalid_assignment_def)

lemma array_of_put_item [simp]: "array_of (put_item i v d) = put_index i v (array_of d)"
  by (cases d) simp

lemma put_keys [simp]: "fst ` set (alist_put lt k v m) = insert k (fst ` set m)"
  using set_alist_put_keys [of lt k v m] by simp

text \<open>The variable is an array of a size, with an entry for every index.\<close>

definition array_ok :: "string \<Rightarrow> int \<Rightarrow> promela \<Rightarrow> bool" where
  "array_ok x n s = (declared x s \<and> hasKey (variable x s) ''size'' \<and> int_ok n \<and>
     atom (data_at (variable x s) ''size'') = toStr_int n \<and>
     (0 < n \<longrightarrow> hasKey (variable x s) ''value'') \<and>
     fst ` set (array_of (data_at (variable x s) ''value'')) = {0 ..< n})"

definition element :: "string \<Rightarrow> int \<Rightarrow> promela \<Rightarrow> data option" where
  "element x i s = map_of (array_of (data_at (variable x s) ''value'')) i"

lemma element_dom: "array_ok x n s \<Longrightarrow> element x i s \<noteq> None \<longleftrightarrow> 0 \<le> i \<and> i < n"
  using map_of_eq_None_iff [of "array_of (data_at (variable x s) ''value'')" i] by (auto simp: array_ok_def element_def)

lemma get_element:
  assumes "array_ok x n s" and "yields E e s i"
  shows "getVariable E (element_tree x e) s =
    (if n \<le> i then pm_error E 651 (out_of_bounds x i (toStr_int n)) s else get_item x i s)"
  using assms by (auto simp: array_ok_def yields_def getVariable.simps bindM_Inr dataToInt_toStr readM_def)

lemma set_element:
  assumes "array_ok x n s" and "yields E e s i"
  shows "setVariable E (element_tree x e) v s =
    (if n \<le> i then pm_error E 562 (out_of_bounds x i (toStr_int n)) s else set_item x i v s)"
  using assms by (auto simp: array_ok_def yields_def setVariable.simps bindM_Inr dataToInt_toStr readM_def)

lemma get_item_inside: "hasKey (variable x s) ''value'' \<Longrightarrow> element x i s = Some d \<Longrightarrow> get_item x i s = (Inr d, s)"
  by (simp add: get_item_def element_def pm_effects)

lemma get_item_absent: "element x i s = None \<Longrightarrow> \<exists>s'. get_item x i s = (Inl (StdExc ''map::at''), s')"
  by (auto simp: get_item_def element_def pm_effects data_at_def)

lemma set_item_inside:
  assumes "hasKey (variable x s) ''value''" and "element x i s \<noteq> None"
  shows "set_item x i v s = (Inr (), s\<lparr>pm_variables := put x (put ''value'' (put_item i v (data_at (variable x s) ''value''))
    (variable x s)) (pm_variables s)\<rparr>)"
  using assms get_item_inside [of x s i] by (auto simp: set_item_def bindM_Inr update_variable_def modifyM_def)

lemma array_ok_write:
  assumes "array_ok x n s" and "0 \<le> i" and "i < n"
  shows "\<exists>s'. set_item x i v s = (Inr (), s') \<and> array_ok x n s' \<and>
    (\<forall>j. element x j s' = (if j = i then Some v else element x j s)) \<and> (\<forall>y. y \<noteq> x \<longrightarrow> variable y s' = variable y s)"
proof -
  have "hasKey (variable x s) ''value''" "element x i s \<noteq> None" using assms element_dom [OF assms(1)] by (auto simp: array_ok_def)
  from set_item_inside [OF this, of v] show ?thesis using assms by (auto simp: array_ok_def element_def)
qed

lemma put_items:
  "array_of (fold (\<lambda>i. put_item (int i) v) [0..<n] Data_empty) = map (\<lambda>i. (int i, v)) [0..<n]"
proof (induction n)
  case (Suc n)
  have "put_index (int n) v (map (\<lambda>i. (int i, v)) [0..<n]) = map (\<lambda>i. (int i, v)) [0..<n] @ [(int n, v)]"
    by (rule put_index_append) auto
  then show ?case using Suc by simp
qed simp

lemma map_of_items: "0 \<le> j \<Longrightarrow> j < int m \<Longrightarrow> map_of (map (\<lambda>i. (int i, v)) [0..<m]) j = Some v"
  by (induction m) (auto simp: map_add_def split: option.split dest!: map_of_SomeD)

text \<open>A declaration creates an array of zeros.\<close>

lemma declare_array:
  assumes "yields E e s n" and "0 \<le> n"
  shows "\<exists>s'. evaluateIvar E vis type (element_tree x e) s = (Inr (), s') \<and> array_ok x n s' \<and>
    (\<forall>i. 0 \<le> i \<and> i < n \<longrightarrow> element x i s' = Some (Data_int 0)) \<and> (\<forall>y. y \<noteq> x \<longrightarrow> variable y s' = variable y s)"
proof -
  obtain d where d: "evaluateExpr E e s = (Inr d, s)" "atom d = toStr_int n" "int_ok n" using assms by (auto simp: yields_def)
  let ?v = "array_variable n (put ''type'' (Data_atom (pvalue type) VERBATIM) (put ''vis'' (Data_atom (pvalue vis) VERBATIM) Data_empty))"
  have 1: "evaluateIvar E vis type (element_tree x e) s = (Inr (), s\<lparr>pm_variables := put x ?v (pm_variables s)\<rparr>)"
    using d by (simp add: evaluateIvar_def Let_def bindM_Inr dataToInt_toStr declare_variable_def modifyM_def)
  have "int ` {0..<nat n} = {0..<n}" using assms(2) by (auto simp: image_iff intro!: bexI [of _ "nat _"])
  then have 2: "hasKey ?v ''size''" "atom (data_at ?v ''size'') = toStr_int n" "0 < n \<Longrightarrow> hasKey ?v ''value''"
      "fst ` set (array_of (data_at ?v ''value'')) = {0..<n}"
    using assms(2) by (auto simp: array_variable_def Let_def put_items image_image)
  have 3: "map_of (array_of (data_at ?v ''value'')) i = Some (Data_int 0)" if "0 \<le> i" "i < n" for i
    using that map_of_items [of i "nat n"] by (simp add: array_variable_def Let_def put_items)
  show ?thesis unfolding 1 using 2 3 d(3) by (simp add: array_ok_def element_def)
qed

text \<open>
  C34. An element of an array is read and written at every index below its size, and a write changes this element only.
  An index that is too large is the error \<open>error.execution\<close> and changes nothing. A negative index passes the test of the
  bounds and ends in an exception of the standard library, which is no error event.
\<close>

theorem promela_array_bounds:
  assumes "array_ok x n s" and "yields E e s i"
  shows "(0 \<le> i \<and> i < n \<longrightarrow>
      (\<exists>d. element x i s = Some d \<and> getVariable E (element_tree x e) s = (Inr d, s)) \<and>
      (\<exists>s'. setVariable E (element_tree x e) v s = (Inr (), s') \<and> array_ok x n s' \<and>
        (\<forall>j. element x j s' = (if j = i then Some v else element x j s)) \<and>
        (\<forall>y. y \<noteq> x \<longrightarrow> variable y s' = variable y s))) \<and>
    (n \<le> i \<longrightarrow> (\<exists>g w. getVariable E (element_tree x e) s = (Inl (ErrorExc g), s) \<and>
      setVariable E (element_tree x e) v s = (Inl (ErrorExc w), s) \<and> ename g = ''error.execution'' \<and> ename w = ''error.execution'')) \<and>
    (i < 0 \<and> i < n \<longrightarrow> (\<exists>s1 s2. getVariable E (element_tree x e) s = (Inl (StdExc ''map::at''), s1) \<and>
      setVariable E (element_tree x e) v s = (Inl (StdExc ''map::at''), s2)))"
proof -
  note rw = get_element [OF assms] set_element [OF assms, of v]
  have "\<exists>d. element x i s = Some d \<and> get_item x i s = (Inr d, s)" if "0 \<le> i" "i < n"
    using that element_dom [OF assms(1), of i] get_item_inside [of x s i] assms(1) by (auto simp: array_ok_def)
  moreover have "\<exists>s1 s2. get_item x i s = (Inl (StdExc ''map::at''), s1) \<and> set_item x i v s = (Inl (StdExc ''map::at''), s2)"
    if "i < 0"
    using that element_dom [OF assms(1), of i] get_item_absent [of x i s] by (auto simp: set_item_def bindM_def)
  ultimately show ?thesis
    using array_ok_write [OF assms(1), of i v] unfolding rw
    by (auto simp: pm_error_def throwM_def ERROR_EXECUTION_def error_event_def)
qed

subsection \<open>Assignments and the store\<close>

lemma set_name_integer:
  assumes "declared x s" and "\<not> hasKey (variable x s) ''size''" and "\<not> invalid_assignment x"
  shows "setVariable E (name_tree x) d s = (Inr (), s\<lparr>pm_variables := put x (put ''value'' d (variable x s)) (pm_variables s)\<rparr>)"
  using assms by (simp add: setVariable.simps set_name_def pm_effects)

text \<open>
  C33. Assigning an arithmetic expression to an integer variable succeeds and updates the store as the reference semantics
  says; no other variable changes. So a sequence of assignments computes what the reference semantics computes.
\<close>

theorem promela_assign_refines:
  assumes "holds \<sigma> X s" and "x \<in> X" and "\<not> invalid_assignment x" and "avars a \<subseteq> X" and "a_ok \<sigma> a"
    and "pm_parse E loc = Ast k (name_tree x)" and "pm_parse E e = Ast k' (a_tree a)" and "e \<noteq> []"
  shows "\<exists>s'. pm_assign E loc (Data_atom e INTERPRETED) s = (Inr (), s') \<and>
    holds (\<sigma>(x := aval \<sigma> a)) X s' \<and> (\<forall>y. y \<noteq> x \<longrightarrow> variable y s' = variable y s)"
proof -
  have "holds \<sigma> (avars a) s" using assms(1,4) by (auto simp: holds_def)
  from a_tree_yields [OF assms(5) this, of E] obtain d where d: "evaluateExpr E (a_tree a) s = (Inr d, s)" "atom d = toStr_int (aval \<sigma> a)"
    by (auto simp: yields_def)
  have x: "declared x s" "\<not> hasKey (variable x s) ''size''" using assms(1,2) by (auto simp: holds_def)
  have "pm_assign E loc (Data_atom e INTERPRETED) s = setVariable E (name_tree x) d s"
    using assms(6-8) d by (simp add: pm_assign_def parser_def parser_init_def pm_evalAsData_def bindM_Inr)
  then show ?thesis using set_name_integer [OF x assms(3)] d assms(1) by (auto simp: holds_def)
qed

subsection \<open>Iteration\<close>

abbreviation decl_tree :: "string \<Rightarrow> string \<Rightarrow> pml" where
  "decl_tree type x \<equiv> Pml PML_DECL [] [Pml PML_SHOW [] [], Pml PML_TYPE type [], Pml PML_VARLIST [] [name_tree x]]"

definition int_variable :: data where
  "int_variable = put ''value'' (Data_int 0) (put ''type'' (Data_atom ''int'' VERBATIM) (put ''vis'' (Data_atom [] VERBATIM) Data_empty))"

lemma declare_int: "evaluateDecl E (decl_tree ''int'' x) s = (Inr (), s\<lparr>pm_variables := put x int_variable (pm_variables s)\<rparr>)"
  by (simp add: evaluateIvar_def int_variable_def Let_def bindM_def returnM_def declare_variable_def modifyM_def)

text \<open>A step of \<open>foreach\<close> stores the element in the item, which is declared as an \<open>int\<close> if it was not.\<close>

lemma foreach_item:
  assumes "array_ok a n s" and "int i < n" and "x \<noteq> a" and "\<not> invalid_assignment x"
    and "declared x s \<longrightarrow> \<not> hasKey (variable x s) ''size''" and "element a (int i) s = Some d"
    and "pm_parse E x = Ast PROMELA_EXPR (name_tree x)" and "pm_parse E (''int '' @ x) = Ast PROMELA_DECL (decl_tree ''int'' x)"
    and "pm_parse E (a @ ''['' @ digits i @ '']'') = Ast PROMELA_EXPR (element_tree a (Pml PML_CONST (digits i) []))"
  shows "\<exists>s'. pm_setForeach E x a [] i s = (Inr (), s') \<and> getVariable E (name_tree x) s' = (Inr d, s') \<and> array_ok a n s'"
proof -
  let ?e = "Pml PML_CONST (digits i) []" and ?m = "bindM (getVariable E (element_tree a (Pml PML_CONST (digits i) []))) (setVariable E (name_tree x))"
  have i: "int_ok (int i)" using assms(1,2) by (auto simp: array_ok_def int_ok_def INT_MIN_def)
  have get: "getVariable E (element_tree a ?e) t = (Inr d, t)" if "array_ok a n t" "element a (int i) t = Some d" for t
    using get_element [OF that(1) yields_const [OF i]] get_item_inside [OF _ that(2)] that(1) assms(2) by (auto simp: array_ok_def)
  have set: "?m t = (Inr (), t\<lparr>pm_variables := put x (put ''value'' d (variable x t)) (pm_variables t)\<rparr>)"
    if "declared x t" "\<not> hasKey (variable x t) ''size''" "array_ok a n t" "element a (int i) t = Some d" for t
    using that get set_name_integer [OF that(1,2) assms(4)] by (simp add: bindM_Inr)
  let ?s = "s\<lparr>pm_variables := put x int_variable (pm_variables s)\<rparr>"
  have new: "declared x ?s" "\<not> hasKey (variable x ?s) ''size''" "array_ok a n ?s" "element a (int i) ?s = Some d"
    using assms(1,3,6) by (simp_all add: int_variable_def array_ok_def element_def)
  have run: "pm_setForeach E x a [] i s = set_or_declare E x ?m s"
    using assms(7,9) by (simp add: pm_setForeach_def parser_of_def parser_init_def bindM_def returnM_def split: prod.split sum.split)
  have "\<exists>t. set_or_declare E x ?m s = ?m t \<and> declared x t \<and> \<not> hasKey (variable x t) ''size'' \<and> array_ok a n t \<and> element a (int i) t = Some d"
  proof (cases "declared x s")
    case True
    then have "set_or_declare E x ?m s = ?m s" using assms(1,5,6) set [of s] by (simp add: set_or_declare_def catchError_def)
    then show ?thesis using True assms(1,5,6) by blast
  next
    case False
    then have "\<exists>ev. ?m s = (Inl (ErrorExc ev), s)"
      using get [OF assms(1,6)] assms(4) by (auto simp: bindM_Inr setVariable.simps set_name_def pm_effects)
    then have "set_or_declare E x ?m s = ?m ?s"
      using assms(8) by (auto simp: set_or_declare_def catchError_def parser_def parser_init_def bindM_Inr [OF declare_int]
          simp del: evaluateDecl.simps)
    then show ?thesis using new by blast
  qed
  then obtain t where t: "set_or_declare E x ?m s = ?m t" "declared x t" "\<not> hasKey (variable x t) ''size''" "array_ok a n t"
    "element a (int i) t = Some d" by blast
  show ?thesis
    unfolding run t(1) set [OF t(2-5)] using t(4) assms(3) get_name_value [of x _ E] by (simp add: array_ok_def)
qed

subsection \<open>System variables\<close>

lemma set_event_field:
  assumes "declared ''_event'' s" and "\<not> hasKey (variable ''_event'' s) ''size''"
  shows "\<exists>s'. setVariable E (field_tree ''_event'' ks) v s = (Inr (), s')"
  using assms by (simp add: setVariable.simps set_cmpnd_def Let_def pm_effects)

lemma event_variable_keys: "\<not> hasKey (event_variable E ev) ''size''"
  by (simp add: event_variable_def Let_def)


subsection \<open>The current event\<close>

lemma set_event_variable [simp]:
  "variable ''_event'' (pm_setEvent E ev s) = event_variable E ev" "declared ''_event'' (pm_setEvent E ev s)"
  by (simp_all add: pm_setEvent_def)

lemma event_field_value:
  "getVariable E (field_tree ''_event'' ks) (pm_setEvent E ev s) =
     get_path E ''_event'' ks (data_at (event_variable E ev) ''value'') (pm_setEvent E ev s)"
  using get_field_value [of "''_event''" "pm_setEvent E ev s" E ks] by (simp add: event_variable_def Let_def)

lemma event_fields:
  "getVariable E (field_tree ''_event'' [''name'']) (pm_setEvent E ev s) = (Inr (Data_atom (ename ev) VERBATIM), pm_setEvent E ev s)"
  "getVariable E (field_tree ''_event'' [''type'']) (pm_setEvent E ev s) =
     (Inr (Data_atom (TypeToString (eventType ev)) VERBATIM), pm_setEvent E ev s)"
  "getVariable E (field_tree ''_event'' [''data'']) (pm_setEvent E ev s) = (Inr (event_payload E ev), pm_setEvent E ev s)"
  unfolding event_field_value by (simp_all add: event_variable_def Let_def returnM_def)

subsection \<open>Departures\<close>

text \<open>The negation of an integer variable is false whatever its value: a name evaluates to a string, and strings are true.\<close>

lemma negated_variable:
  assumes "holds \<sigma> {x} s"
  shows "evaluateExpr E (Pml PML_NEG [] [name_tree x]) s = (Inr (Data_bool False), s)"
proof -
  have x: "declared x s" "hasKey (variable x s) ''value''" "atom (data_at (variable x s) ''value'') = toStr_int (\<sigma> x)"
    using assms by (auto simp: holds_def)
  have "evaluateExpr E (name_tree x) s = (Inr (Data_atom (toStr_int (\<sigma> x)) VERBATIM), s)"
    using get_name_value [OF x(1,2), of E] x(3)
    by (simp add: evaluateExpr.simps [of _ PML_NAME] is_int_op_def bindM_Inr eval_name_def returnM_def)
  then show ?thesis by (simp add: evaluateExpr.simps [of _ PML_NEG] is_int_op_def bindM_Inr dataToBool_def returnM_def)
qed

text \<open>The tree of a unary minus has one operand, and the evaluation reads a second one.\<close>

lemma unary_minus_undefined: "evaluateExpr E (Pml PML_MINUS [] [t]) s = (Inl Abort, s)"
  by (simp add: evaluateExpr.simps is_int_op_def throwM_def)

text \<open>Assigning a field overwrites the fields \<open>type\<close> and \<open>vis\<close> of the value.\<close>

lemma field_write_resets_type:
  assumes "setVariable E (field_tree x [k]) v s = (Inr (), s')" and "k \<noteq> ''type''"
  shows "data_at (data_at (variable x s') ''value'') ''type'' = Data_atom ''compound'' VERBATIM"
  using set_field_cases [OF assms(1)] assms(2) by (simp add: field_base_def)

text \<open>A parameter without an atom, such as a compound or an array, arrives as an uninitialised integer.\<close>

lemma structured_param_lost:
  assumes "params ev = [(k, v)]" and "namelist ev = []" and "edata ev = Data_empty" and "atom v = []"
  shows "data_at (event_payload E ev) k = adaptType (Data_int (pm_junk E))"
proof -
  have "event_payload E ev = adaptType (put k (Data_int (pm_junk E)) Data_empty)"
    using assms by (simp add: event_payload_def Data_is_empty_def event_entry_def isNumeric_def strTo_signed_def)
  then show ?thesis by (simp add: Data_empty_def data_at_def hasKey_def)
qed

text \<open>The JSON value of an initial value is overwritten by its text.\<close>

lemma init_keeps_text:
  assumes "pm_init E x d attr s = (Inr (), s')" and "pm_parse E x = Ast k (name_tree x)"
  shows "getVariable E (name_tree x) s' = (Inr d, s')"
proof -
  obtain s0 where "setVariable E (name_tree x) d s0 = (Inr (), s')"
    using assms by (auto simp: pm_init_def parser_def parser_init_def bindM_def [of "parser_of _ _ _"] bindM_def [of "evaluateDecl _ _"]
        bindM_def [of "jsonM _ _"] bindM_def [of "if _ then _ else _"] split: prod.splits sum.splits if_splits)
  then show ?thesis by (rule name_loc.write_read)
qed

text \<open>\<open>mtype = {x}\<close> with one name declares nothing: the tree is the name itself, which has no operands.\<close>

lemma single_mtype_undeclared: "evaluateDecl E (Pml PML_DECL [] [vis, type, name_tree x]) s = (Inr (), s)"
  by (simp add: returnM_def)

text \<open>The length of an element of an array is an error that leaves a new variable behind.\<close>

lemma getLength_declares:
  assumes "pm_parse E expr = Ast k (element_tree a e)" and "declared a s" and "\<not> declared expr s"
  shows "\<exists>ev s'. pm_getLength E expr s = (Inl (ErrorExc ev), s') \<and> declared expr s'"
  using assms
  by (auto simp: pm_getLength_def pm_isDeclared_def parser_def parser_init_def pm_effects touch_def declared_def variable_def)

subsection \<open>Instances\<close>

definition sample_pml :: pml_env where
  "sample_pml = \<lparr>pm_uid = ''u'', pm_parse = (\<lambda>e.
      if e = ''x'' then Ast PROMELA_EXPR (name_tree ''x'')
      else if e = ''x + 2'' then Ast PROMELA_EXPR (a_tree (Add (Var ''x'') (Num 2)))
      else if e = ''x + 2 < 5 && !(x == 3)'' then Ast PROMELA_EXPR
        (b_tree (AndB (LtA (Add (Var ''x'') (Num 2)) (Num 5)) (NotB (EqA (Var ''x'') (Num 3)))))
      else Syntax_Error ''syntax error'' 0 0),
    pm_isInState = (\<lambda>_. False), pm_xmlSer = (\<lambda>_. []), pm_junk = 0, pm_sessionId = ''s'', pm_name = ''n'', pm_ioProcessors = []\<rparr>"

definition sample_store :: promela where
  "sample_store = (pm_setup sample_pml)\<lparr>pm_variables :=
     put ''x'' (put ''value'' (Data_int 1) Data_empty) (pm_variables (pm_setup sample_pml))\<rparr>"

lemma sample_holds: "holds (\<lambda>_. 1) {''x''} sample_store"
  by (simp add: holds_def sample_store_def)

theorem promela_conditions_witness:
  "pm_evalAsBool sample_pml ''x + 2 < 5 && !(x == 3)'' sample_store = (Inr True, sample_store)"
  using promela_conditions [of "\<lambda>_. 1" "AndB (LtA (Add (Var ''x'') (Num 2)) (Num 5)) (NotB (EqA (Var ''x'') (Num 3)))"
      sample_store sample_pml "''x + 2 < 5 && !(x == 3)''"] sample_holds
  by (simp add: sample_pml_def int_ok_def INT_MIN_def INT_MAX_def)

theorem promela_assign_refines_witness:
  "\<exists>s'. pm_assign sample_pml ''x'' (Data_atom ''x + 2'' INTERPRETED) sample_store = (Inr (), s') \<and>
     holds ((\<lambda>_. 1)(''x'' := 3)) {''x''} s' \<and> (\<forall>y. y \<noteq> ''x'' \<longrightarrow> variable y s' = variable y sample_store)"
  using promela_assign_refines [OF sample_holds, of "''x''" "Add (Var ''x'') (Num 2)" sample_pml "''x''" PROMELA_EXPR "''x + 2''" PROMELA_EXPR]
  by (simp add: sample_pml_def int_ok_def INT_MIN_def INT_MAX_def invalid_assignment_def)

definition sample_array :: promela where
  "sample_array = snd (evaluateIvar sample_pml (Pml PML_SHOW [] []) (Pml PML_TYPE ''int'' []) (element_tree ''a'' (Pml PML_CONST (digits 2) [])) sample_store)"

lemma sample_array_ok: "array_ok ''a'' 2 sample_array"
proof -
  have "yields sample_pml (Pml PML_CONST (digits 2) []) sample_store (int 2)"
    by (rule yields_const) (simp add: int_ok_def INT_MIN_def INT_MAX_def)
  from declare_array [OF this, of "Pml PML_SHOW [] []" "Pml PML_TYPE ''int'' []" "''a''"] show ?thesis
    by (auto simp: sample_array_def)
qed

theorem promela_array_bounds_witness:
  "\<exists>s'. setVariable sample_pml (element_tree ''a'' (Pml PML_CONST (digits 1) [])) (Data_int 7) sample_array = (Inr (), s') \<and>
     element ''a'' 1 s' = Some (Data_int 7)"
proof -
  have "yields sample_pml (Pml PML_CONST (digits 1) []) sample_array (int 1)"
    by (rule yields_const) (simp add: int_ok_def INT_MIN_def INT_MAX_def)
  then show ?thesis
    using promela_array_bounds [OF sample_array_ok, of sample_pml "Pml PML_CONST (digits 1) []" 1 "Data_int 7"] by auto
qed


end
