(* ===== verification/Invoker.thy ===== *)
theory Invoker
  imports Interpreter_Frame
begin

text \<open>
  The invoker for nested SCXML sessions, \<open>src/src/uscxml/plugins/invoker/scxml/USCXMLInvoker.cpp\<close>, with \<open>eventToSCXML\<close> of
  \<open>plugins/Factory.cpp\<close>. Two threads work on it: the interpreter that invokes calls \<open>invoke\<close>, \<open>eventFromSCXML\<close> and \<open>uninvoke\<close>,
  and \<open>run\<close> steps the invoked session in a thread of its own. Their program counters are part of the state, and the
  relation \<open>inv_step\<close> interleaves them. A step of the session is atomic here; the events that it sends to its parent
  are passed on afterwards one by one, where the test of \<open>_isActive\<close> and the delivery are two steps, as in the code.
\<close>

subsection \<open>State\<close>

text \<open>The thread: the loop with the last result, between the test and the delivery of \<open>ParentQueueImpl::enqueue\<close>, before the test
  after the loop, before the report, before the last assignment, after the function. \<open>Crashed\<close> is a process that
  has ended: an exception left the function of the thread.\<close>

datatype run_pc = No_Thread | Loop InterpreterState | In_Enqueue Event InterpreterState | Finishing | Reporting Event
  | Last_Assignment | Ended | Crashed

text \<open>The thread of the interpreter that invokes: outside of the invoker, in \<open>stop\<close> before the cancellation, or waiting in \<open>join\<close>.\<close>

datatype caller_pc = Outside | Stopping | Joining

record 'w scxml_invoker =
  v_invokeId :: string
  v_isActive :: bool
  v_isStarted :: bool
  v_thread :: run_pc
  v_caller :: caller_pc
  v_invoked :: "'w Interpreter option"
  v_outbox :: "Event list"
  v_parent :: BasicEventQueue

text \<open>What the invoker needs of its surroundings: how a session is created from a location, a node or a text (\<open>None\<close> is an
  interpreter that is not valid), what preparing its document throws, the factory and plugins of the session, and
  whether the invoking interpreter has an action language.\<close>

record 'w inv_env =
  ve_fromURL :: "string \<Rightarrow> exc + 'w Interpreter option"
  ve_fromDocument :: "node \<Rightarrow> exc + 'w Interpreter option"
  ve_fromXML :: "string \<Rightarrow> exc + 'w Interpreter option"
  ve_setupDOM :: "'w Interpreter \<Rightarrow> exc option"
  ve_factory :: "(string \<times> ioproc \<times> string list) list"
  ve_plugins :: "'w plugins"
  ve_hasActionLanguage :: bool
  ve_uid :: string

definition USCXML_INVOKER_SCXML_TYPE :: string where
  "USCXML_INVOKER_SCXML_TYPE = ''http://www.w3.org/TR/scxml''"

definition inv_getNames :: "string list" where
  "inv_getNames = [''scxml'', ''uscxml'', USCXML_INVOKER_SCXML_TYPE, ''http://www.w3.org/TR/scxml/'']"

definition inv_create :: "string \<Rightarrow> BasicEventQueue \<Rightarrow> 'w scxml_invoker" where
  "inv_create i q = \<lparr>v_invokeId = i, v_isActive = False, v_isStarted = False, v_thread = No_Thread, v_caller = Outside,
     v_invoked = None, v_outbox = [], v_parent = q\<rparr>"

subsection \<open>Operations\<close>

text \<open>\<open>InvokerImpl::eventToSCXML\<close>; an event always has one of the three types.\<close>

definition inv_stamp :: "string \<Rightarrow> string \<Rightarrow> Event \<Rightarrow> Event" where
  "inv_stamp type i ev =
    (let ev1 = (if length (invokeid ev) = 0 then ev\<lparr>invokeid := i\<rparr> else ev);
         ev2 = (if length (origin ev1) = 0 \<and> length i > 0 then ev1\<lparr>origin := ''#_'' @ i\<rparr> else ev1)
     in if length (origintype ev2) = 0 then ev2\<lparr>origintype := type\<rparr> else ev2)"

definition inv_eventToSCXML :: "Event \<Rightarrow> 'w scxml_invoker \<Rightarrow> 'w scxml_invoker" where
  "inv_eventToSCXML ev v = v\<lparr>v_parent := bq_enqueue (inv_stamp USCXML_INVOKER_SCXML_TYPE (v_invokeId v) ev) (v_parent v)\<rparr>"

text \<open>The session that is created: its parent queue, invoke id and request are set, and its queues are created anew from
  those of the parent's action language.\<close>

definition inv_setup :: "bool \<Rightarrow> Event \<Rightarrow> 'w Interpreter \<Rightarrow> 'w Interpreter" where
  "inv_setup al ev I =
    (let e = (I_env I)\<lparr>i_parentQueue := Some bq_create, i_invokeId := invokeid ev, i_invokeReq := ev\<rparr> in
     I\<lparr>I_env := (if al then e\<lparr>i_internalQueue := bq_create, i_externalQueue := bq_create, i_delayQueue := dq_create\<rparr> else e)\<rparr>)"

definition inv_source :: "'w inv_env \<Rightarrow> string \<Rightarrow> Event \<Rightarrow> exc + 'w Interpreter option" where
  "inv_source E source ev =
    (if length source > 0 then ve_fromURL E source
     else case node_of (edata ev) of
       Some n \<Rightarrow> ve_fromDocument E n
     | None \<Rightarrow>
         if length (atom (edata ev)) > 0 then ve_fromXML E (atom (edata ev))
         else Inl (ErrorExc (ERROR_PLATFORM (ve_uid E) (''USCXMLInvoker.cpp'', 186)
           ''Cannot invoke nested SCXML interpreter, neither src attribute nor content nor DOM is given'')))"

definition inv_start :: "'w scxml_invoker \<Rightarrow> 'w scxml_invoker" where
  "inv_start v = v\<lparr>v_isStarted := True, v_thread := Loop USCXML_UNDEF\<rparr>"

definition inv_invoke :: "'w inv_env \<Rightarrow> string \<Rightarrow> Event \<Rightarrow> 'w scxml_invoker \<Rightarrow> (exc + unit) \<times> 'w scxml_invoker" where
  "inv_invoke E source ev v =
    (case inv_source E source ev of
       Inl x \<Rightarrow> (Inl x, if length source = 0 \<and> node_of (edata ev) = None \<and> length (atom (edata ev)) = 0 then v\<lparr>v_isActive := False\<rparr> else v)
     | Inr (Some I) \<Rightarrow>
         (let I1 = inv_setup (ve_hasActionLanguage E) ev I;
              v1 = v\<lparr>v_invoked := Some I1, v_isActive := True\<rparr>
          in case ve_setupDOM E I1 of
               Some x \<Rightarrow> (Inl x, v1)
             | None \<Rightarrow>
                 (case interp_init (ve_factory E) I1 of
                    None \<Rightarrow> (Inl Abort, v1)
                  | Some I2 \<Rightarrow> (Inr (), inv_start (v1\<lparr>v_invoked := Some I2\<rparr>))))
     | Inr None \<Rightarrow>
         (Inr (), (inv_eventToSCXML (Event_named (''done.invoke.'' @ invokeid ev) PLATFORM) v)\<lparr>v_invoked := None, v_isActive := False\<rparr>))"

definition inv_eventFromSCXML :: "Event \<Rightarrow> 'w scxml_invoker \<Rightarrow> 'w scxml_invoker option" where
  "inv_eventFromSCXML ev v =
    (if \<not> v_isActive v then Some v
     else map_option (\<lambda>I. v\<lparr>v_invoked := Some (I\<lparr>I_env := enqueueExternal ev (I_env I)\<rparr>)\<rparr>) (v_invoked v))"

text \<open>\<open>uninvoke\<close> with the first two assignments of \<open>stop\<close>; its cancellation; and the end of \<open>join\<close>.\<close>

definition inv_uninvoke :: "'w scxml_invoker \<Rightarrow> 'w scxml_invoker" where
  "inv_uninvoke v = v\<lparr>v_isActive := False, v_isStarted := False, v_caller := (if v_thread v = No_Thread then Outside else Stopping)\<rparr>"

definition inv_cancel :: "'w inv_env \<Rightarrow> 'w scxml_invoker \<Rightarrow> 'w scxml_invoker option" where
  "inv_cancel E v = (case v_invoked v of
      None \<Rightarrow> None
    | Some I \<Rightarrow> map_option (\<lambda>I'. v\<lparr>v_invoked := Some I', v_caller := Joining\<rparr>) (interp_cancel (ve_plugins E) I))"

definition inv_join :: "'w scxml_invoker \<Rightarrow> 'w scxml_invoker" where
  "inv_join v = v\<lparr>v_thread := No_Thread, v_caller := Outside\<rparr>"

text \<open>\<open>serialize\<close> can proceed when the session is in one of these states; otherwise it waits.\<close>

definition inv_can_serialize :: "InterpreterState \<Rightarrow> bool" where
  "inv_can_serialize st = (st \<in> {USCXML_UNDEF, USCXML_IDLE, USCXML_MACROSTEPPED, USCXML_FINISHED})"

definition inv_internalID :: "'w scxml_invoker \<Rightarrow> string" where
  "inv_internalID v = (case v_invoked v of Some I \<Rightarrow> i_sessionId (I_env I) | None \<Rightarrow> [])"

subsection \<open>The thread of the session\<close>

datatype delivery = Nothing | Forwarded Event | Done Event

definition done_event :: "string \<Rightarrow> string \<Rightarrow> Event" where
  "done_event uid i = (Event_new uid)\<lparr>eventType := PLATFORM, invokeid := i, ename := ''done.invoke.'' @ i\<rparr>"

definition take_outbox :: "'w Interpreter \<Rightarrow> Event list \<times> 'w Interpreter" where
  "take_outbox I = (case i_parentQueue (I_env I) of
      None \<Rightarrow> ([], I)
    | Some q \<Rightarrow> (bq_queue q, I\<lparr>I_env := (I_env I)\<lparr>i_parentQueue := Some (bq_reset q)\<rparr>\<rparr>))"

text \<open>The body of the loop: an exception leaves the function and ends the process.\<close>

definition run_body :: "'w inv_env \<Rightarrow> 'w scxml_invoker \<Rightarrow> 'w scxml_invoker" where
  "run_body E v =
    (case v_invoked v of
       None \<Rightarrow> v\<lparr>v_thread := Crashed\<rparr>
     | Some I \<Rightarrow>
         (case interp_step (ve_factory E) (ve_plugins E) size_t_max I of
            Some (Inr st, I') \<Rightarrow>
              (case take_outbox I' of (evs, I'') \<Rightarrow> v\<lparr>v_invoked := Some I'', v_outbox := evs, v_thread := Loop st\<rparr>)
          | Some (Inl _, I') \<Rightarrow> v\<lparr>v_invoked := Some I', v_thread := Crashed\<rparr>
          | None \<Rightarrow> v\<lparr>v_thread := Crashed\<rparr>))"

definition invoked_id :: "'w scxml_invoker \<Rightarrow> string" where
  "invoked_id v = (case v_invoked v of Some I \<Rightarrow> i_invokeId (I_env I) | None \<Rightarrow> [])"

definition run_step :: "'w inv_env \<Rightarrow> 'w scxml_invoker \<Rightarrow> (delivery \<times> 'w scxml_invoker) option" where
  "run_step E v =
    (case v_thread v of
       Loop st \<Rightarrow>
         Some (case v_outbox v of
             ev # evs \<Rightarrow> (Nothing, v\<lparr>v_outbox := evs, v_thread := (if v_isActive v then In_Enqueue ev st else Loop st)\<rparr>)
           | [] \<Rightarrow> (Nothing, if st = USCXML_FINISHED then v\<lparr>v_thread := Finishing\<rparr> else run_body E v))
     | In_Enqueue ev st \<Rightarrow> Some (Forwarded ev, (inv_eventToSCXML ev v)\<lparr>v_thread := Loop st\<rparr>)
     | Finishing \<Rightarrow>
         Some (Nothing, v\<lparr>v_thread := (if v_isActive v then Reporting (done_event (ve_uid E) (invoked_id v)) else Last_Assignment)\<rparr>)
     | Reporting ev \<Rightarrow> Some (Done ev, v\<lparr>v_parent := bq_enqueue ev (v_parent v), v_thread := Last_Assignment\<rparr>)
     | Last_Assignment \<Rightarrow> Some (Nothing, v\<lparr>v_isActive := False, v_thread := Ended\<rparr>)
     | _ \<Rightarrow> None)"

text \<open>The two threads. The interpreter that invokes also takes events out of its queue, which is not part of this relation.\<close>

inductive inv_step :: "'w inv_env \<Rightarrow> 'w scxml_invoker \<Rightarrow> delivery \<Rightarrow> 'w scxml_invoker \<Rightarrow> bool" for E where
  thread: "run_step E v = Some (d, v') \<Longrightarrow> inv_step E v d v'"
| receive: "v_caller v = Outside \<Longrightarrow> inv_eventFromSCXML ev v = Some v' \<Longrightarrow> inv_step E v Nothing v'"
| uninvoke: "v_caller v = Outside \<Longrightarrow> inv_step E v Nothing (inv_uninvoke v)"
| cancel: "v_caller v = Stopping \<Longrightarrow> inv_cancel E v = Some v' \<Longrightarrow> inv_step E v Nothing v'"
| join: "v_caller v = Joining \<Longrightarrow> v_thread v = Ended \<Longrightarrow> inv_step E v Nothing (inv_join v)"

inductive inv_run :: "'w inv_env \<Rightarrow> 'w scxml_invoker \<Rightarrow> delivery list \<Rightarrow> 'w scxml_invoker \<Rightarrow> bool" for E where
  start: "inv_run E v [] v"
| step: "inv_run E v ds v' \<Longrightarrow> inv_step E v' d v'' \<Longrightarrow> inv_run E v (ds @ [d]) v''"

definition delivered :: "delivery list \<Rightarrow> delivery list" where
  "delivered ds = filter (\<lambda>d. d \<noteq> Nothing) ds"

inductive_cases inv_stepE: "inv_step E v d v'"

end
