(* ===== verification/Invoker_Properties.thy ===== *)
theory Invoker_Properties
  imports Invoker
begin

text \<open>
  What the session that invokes sees of a nested session, for every interleaving of the two threads: the events that the
  nested session sends arrive in order, followed by at most one \<open>done.invoke\<close>; nothing arrives after \<open>uninvoke\<close> has
  returned; and a session that finishes on its own is reported.
\<close>

subsection \<open>Steps\<close>

lemma stamp_keeps: "ename (inv_stamp t i ev) = ename ev" "edata (inv_stamp t i ev) = edata ev"
  by (simp_all add: inv_stamp_def Let_def)

lemma take_outbox_id: "i_invokeId (I_env (snd (take_outbox I))) = i_invokeId (I_env I)"
  by (simp add: take_outbox_def split: option.split)

lemma run_body_frame:
  "v_parent (run_body E v) = v_parent v" "v_invokeId (run_body E v) = v_invokeId v" "v_isActive (run_body E v) = v_isActive v"
  "v_caller (run_body E v) = v_caller v" "v_thread (run_body E v) \<in> range Loop \<union> {Crashed}"
  by (auto simp: run_body_def split: option.split prod.split sum.split)

text \<open>The invoked session exists and has an invoke id.\<close>

definition has_id :: "string \<Rightarrow> 'w scxml_invoker \<Rightarrow> bool" where
  "has_id i v = (\<exists>I. v_invoked v = Some I \<and> i_invokeId (I_env I) = i)"

lemma has_id_body: "has_id i v \<Longrightarrow> has_id i (run_body E v)"
proof -
  assume "has_id i v"
  then obtain I where I: "v_invoked v = Some I" "i_invokeId (I_env I) = i" by (auto simp: has_id_def)
  show ?thesis
  proof (cases "interp_step (ve_factory E) (ve_plugins E) size_t_max I")
    case None
    then show ?thesis using I by (simp add: run_body_def has_id_def)
  next
    case (Some r)
    obtain x I' where r: "r = (x, I')" by (cases r)
    have "i_invokeId (I_env I') = i" using step_identity [OF Some [unfolded r]] I(2) by simp
    then show ?thesis using I Some r take_outbox_id [of I'] by (cases x) (auto simp: run_body_def has_id_def split: prod.split)
  qed
qed

lemma invoked_id [simp]: "has_id i v \<Longrightarrow> invoked_id v = i"
  by (auto simp: has_id_def invoked_id_def)

text \<open>The events in flight: the thread has passed a test of \<open>_isActive\<close> and will deliver.\<close>

definition in_flight :: "run_pc \<Rightarrow> delivery list" where
  "in_flight pc = (case pc of In_Enqueue ev _ \<Rightarrow> [Forwarded ev] | Reporting ev \<Rightarrow> [Done ev] | _ \<Rightarrow> [])"

definition delivers :: "string \<Rightarrow> delivery \<Rightarrow> Event list" where
  "delivers i d = (case d of Nothing \<Rightarrow> [] | Forwarded ev \<Rightarrow> [inv_stamp USCXML_INVOKER_SCXML_TYPE i ev] | Done ev \<Rightarrow> [ev])"

text \<open>What every step keeps: identifiers, and what it delivers is what was in flight.\<close>

lemma has_id_step: "inv_step E v d v' \<Longrightarrow> has_id i v \<Longrightarrow> has_id i v'"
proof (induction rule: inv_step.induct)
  case (thread v d v')
  then show ?case using has_id_body [of i v E]
    by (auto simp: run_step_def inv_eventToSCXML_def has_id_def split: run_pc.splits list.splits if_splits)
qed (auto simp: has_id_def inv_eventFromSCXML_def inv_uninvoke_def inv_cancel_def inv_join_def interp_cancel_def enqueueExternal_def
    split: if_splits option.splits prod.splits)

lemma step_frame:
  assumes "inv_step E v d v'"
  shows "v_invokeId v' = v_invokeId v" "bq_queue (v_parent v') = bq_queue (v_parent v) @ delivers (v_invokeId v) d"
    "d = Nothing \<or> in_flight (v_thread v) = [d]" "\<not> v_isActive v \<Longrightarrow> \<not> v_isActive v'"
  using assms
  by (induction rule: inv_step.induct)
    (auto simp: run_step_def run_body_frame inv_eventToSCXML_def delivers_def bq_enqueue_def in_flight_def inv_eventFromSCXML_def
      inv_uninvoke_def inv_cancel_def inv_join_def split: run_pc.splits list.splits if_splits option.splits)

lemma in_flight_simps [simp]:
  "in_flight No_Thread = []" "in_flight (Loop st) = []" "in_flight (In_Enqueue ev st) = [Forwarded ev]" "in_flight Finishing = []"
  "in_flight (Reporting ev) = [Done ev]" "in_flight Last_Assignment = []" "in_flight Ended = []" "in_flight Crashed = []"
  by (simp_all add: in_flight_def)

text \<open>How the thread moves, and that nothing new is in flight once \<open>_isActive\<close> is false.\<close>

definition over :: "run_pc \<Rightarrow> bool" where
  "over pc = (pc \<in> {No_Thread, Last_Assignment, Ended})"

lemma thread_moves:
  assumes "inv_step E v d v'" and "has_id i v"
  shows "d \<noteq> Nothing \<Longrightarrow> in_flight (v_thread v') = []"
    "\<exists>ev. d = Done ev \<Longrightarrow> over (v_thread v')" "over (v_thread v) \<Longrightarrow> over (v_thread v') \<and> d = Nothing"
    "v_thread v' = Reporting ev \<Longrightarrow> v_thread v = Reporting ev \<or> ev = done_event (ve_uid E) i"
    "\<not> v_isActive v \<Longrightarrow> d = Nothing \<Longrightarrow> in_flight (v_thread v') \<noteq> [] \<Longrightarrow> v_thread v' = v_thread v"
  using assms run_body_frame(5) [of E v]
  by (induction rule: inv_step.induct)
    (auto simp: run_step_def inv_eventToSCXML_def over_def inv_eventFromSCXML_def inv_uninvoke_def inv_cancel_def inv_join_def
      split: run_pc.splits list.splits if_splits option.splits)

subsection \<open>Runs\<close>

lemma delivered_append [simp]: "delivered (ds @ es) = delivered ds @ delivered es" "delivered [] = []"
    "delivered [d] = (if d = Nothing then [] else [d])"
  by (simp_all add: delivered_def)

definition run_inv :: "'w inv_env \<Rightarrow> string \<Rightarrow> 'w scxml_invoker \<Rightarrow> delivery list \<Rightarrow> 'w scxml_invoker \<Rightarrow> bool" where
  "run_inv E i v ds v' \<longleftrightarrow> has_id i v' \<and> v_invokeId v' = v_invokeId v \<and>
     bq_queue (v_parent v') = bq_queue (v_parent v) @ concat (map (delivers (v_invokeId v)) ds) \<and>
     (\<exists>fs. delivered ds = map Forwarded fs \<or>
        delivered ds = map Forwarded fs @ [Done (done_event (ve_uid E) i)] \<and> over (v_thread v')) \<and>
     (\<forall>ev. v_thread v' = Reporting ev \<longrightarrow> ev = done_event (ve_uid E) i)"

lemma run_inv_step:
  assumes inv: "run_inv E i v ds v'" and s: "inv_step E v' d v''"
  shows "run_inv E i v (ds @ [d]) v''"
proof -
  have id: "has_id i v'" using inv by (simp add: run_inv_def)
  note f = step_frame [OF s] and t = thread_moves [OF s id]
  obtain fs where fs: "delivered ds = map Forwarded fs \<or>
      delivered ds = map Forwarded fs @ [Done (done_event (ve_uid E) i)] \<and> over (v_thread v')"
    using inv by (auto simp: run_inv_def)
  have rep: "ev = done_event (ve_uid E) i" if "v_thread v' = Reporting ev" for ev using inv that by (simp add: run_inv_def)
  have "\<exists>fs. delivered (ds @ [d]) = map Forwarded fs \<or>
      delivered (ds @ [d]) = map Forwarded fs @ [Done (done_event (ve_uid E) i)] \<and> over (v_thread v'')"
  proof (cases d)
    case Nothing
    then show ?thesis using fs t(3) by auto
  next
    case (Forwarded ev)
    then have "delivered (ds @ [d]) = map Forwarded (fs @ [ev])" using fs t(3) by auto
    then show ?thesis by blast
  next
    case (Done ev)
    then have "in_flight (v_thread v') = [Done ev]" using f(3) by simp
    then have "v_thread v' = Reporting ev" by (simp add: in_flight_def split: run_pc.splits)
    then have "ev = done_event (ve_uid E) i" using rep by simp
    then have "delivered (ds @ [d]) = map Forwarded fs @ [Done (done_event (ve_uid E) i)]" using fs t(3) Done by auto
    then show ?thesis using t(2) Done by blast
  qed
  moreover have "\<forall>ev. v_thread v'' = Reporting ev \<longrightarrow> ev = done_event (ve_uid E) i" using t(4) rep by blast
  ultimately show ?thesis using inv f(1,2) has_id_step [OF s id] by (simp add: run_inv_def)
qed

lemma run_inv_run: "inv_run E v ds v' \<Longrightarrow> has_id i v \<Longrightarrow> v_thread v \<in> range Loop \<Longrightarrow> run_inv E i v ds v'"
proof (induction rule: inv_run.induct)
  case (start v)
  then show ?case by (auto simp: run_inv_def)
qed (blast intro: run_inv_step)

lemma invoked_started:
  assumes "inv_invoke E source ev (inv_create j q) = (Inr (), v)" and "v_thread v \<noteq> No_Thread"
  shows "v_thread v = Loop USCXML_UNDEF" "has_id (invokeid ev) v" "v_isActive v" "v_invokeId v = j" "v_parent v = q"
    "v_outbox v = []" "v_caller v = Outside"
  using assms
  by (auto simp: inv_invoke_def inv_create_def inv_start_def inv_setup_def interp_init_def has_id_def Let_def inv_eventToSCXML_def
      split: sum.splits option.splits if_splits)


subsection \<open>Cancellation\<close>

lemma inactive_run:
  assumes "inv_run E v ds v'" and "\<not> v_isActive v" and "has_id i v"
  shows "\<not> v_isActive v' \<and> has_id i v' \<and>
    (delivered ds = [] \<and> (in_flight (v_thread v') = [] \<or> v_thread v' = v_thread v) \<or>
     delivered ds = in_flight (v_thread v) \<and> in_flight (v_thread v') = [])"
  using assms
proof (induction rule: inv_run.induct)
  case (step v ds v' d v'')
  then have IH: "\<not> v_isActive v'" "has_id i v'" "delivered ds = [] \<and> (in_flight (v_thread v') = [] \<or> v_thread v' = v_thread v) \<or>
      delivered ds = in_flight (v_thread v) \<and> in_flight (v_thread v') = []" by blast+
  note f = step_frame [OF step.hyps(2)] and t = thread_moves [OF step.hyps(2) IH(2)]
  show ?case
  proof (cases "d = Nothing")
    case True
    then have "in_flight (v_thread v'') = [] \<or> v_thread v'' = v_thread v'" using t(5) IH(1) by blast
    then show ?thesis using True IH f(4) has_id_step [OF step.hyps(2) IH(2)] by auto
  next
    case False
    then have "in_flight (v_thread v') = [d]" using f(3) by blast
    then show ?thesis using IH f(4) t(1) False has_id_step [OF step.hyps(2) IH(2)] by auto
  qed
qed auto


subsection \<open>Completion\<close>

text \<open>The session, stepped on its own, reaches a final configuration in a number of steps.\<close>

fun finishes :: "'w inv_env \<Rightarrow> nat \<Rightarrow> 'w Interpreter \<Rightarrow> bool" where
  "finishes E 0 I = False"
| "finishes E (Suc n) I =
     (case interp_step (ve_factory E) (ve_plugins E) size_t_max I of
        Some (Inr st, I') \<Rightarrow> st = USCXML_FINISHED \<or> finishes E n (snd (take_outbox I'))
      | _ \<Rightarrow> False)"

lemma inv_run_trans: "inv_run E v' es v'' \<Longrightarrow> inv_run E v ds v' \<Longrightarrow> inv_run E v (ds @ es) v''"
proof (induction rule: inv_run.induct)
  case (step v' es v'' d w)
  then show ?case using inv_run.step [of E v "ds @ es" v'' d w] by simp
qed simp

lemma inv_run_thread: "run_step E v = Some (d, v') \<Longrightarrow> inv_run E v [d] v'"
  using inv_run.step [OF inv_run.start inv_step.thread, of E v d v'] by simp

text \<open>The thread passes on what the session has sent.\<close>

lemma outbox_drained:
  assumes "v_thread v = Loop st" and "v_isActive v"
  shows "\<exists>ds v'. inv_run E v ds v' \<and> v_thread v' = Loop st \<and> v_outbox v' = [] \<and> v_isActive v' \<and> v_invoked v' = v_invoked v"
  using assms
proof (induction "v_outbox v" arbitrary: v)
  case Nil
  then show ?case using inv_run.start by metis
next
  case (Cons ev evs)
  let ?w = "(inv_eventToSCXML ev (v\<lparr>v_outbox := evs\<rparr>))\<lparr>v_thread := Loop st\<rparr>"
  have "inv_run E v ([Nothing] @ [Forwarded ev]) ?w"
    using Cons by (intro inv_run_trans [OF inv_run_thread inv_run_thread]) (auto simp: run_step_def Cons(2) [symmetric] inv_eventToSCXML_def)
  moreover obtain ds v' where "inv_run E ?w ds v'" "v_thread v' = Loop st" "v_outbox v' = []" "v_isActive v'" "v_invoked v' = v_invoked v"
    using Cons(1) [of ?w] Cons(2-) by (auto simp: inv_eventToSCXML_def)
  ultimately show ?case using inv_run_trans by blast
qed

lemma loop_ends:
  assumes "finishes E n I" and "v_thread v = Loop st" and "st \<noteq> USCXML_FINISHED" and "v_isActive v" and "v_invoked v = Some I"
    and "v_outbox v = []"
  shows "\<exists>ds v'. inv_run E v ds v' \<and> v_thread v' = Loop USCXML_FINISHED \<and> v_outbox v' = [] \<and> v_isActive v'"
  using assms
proof (induction n arbitrary: v I st)
  case (Suc n)
  from Suc.prems(1) obtain st' I' where s: "interp_step (ve_factory E) (ve_plugins E) size_t_max I = Some (Inr st', I')"
    and f: "st' = USCXML_FINISHED \<or> finishes E n (snd (take_outbox I'))"
    by (auto split: option.splits prod.splits sum.splits)
  obtain evs I2 where o: "take_outbox I' = (evs, I2)" by (cases "take_outbox I'")
  let ?w = "v\<lparr>v_invoked := Some I2, v_outbox := evs, v_thread := Loop st'\<rparr>"
  have "run_step E v = Some (Nothing, ?w)" using Suc.prems s o by (simp add: run_step_def run_body_def)
  then have 1: "inv_run E v [Nothing] ?w" by (rule inv_run_thread)
  obtain ds w where w: "inv_run E ?w ds w" "v_thread w = Loop st'" "v_outbox w = []" "v_isActive w" "v_invoked w = Some I2"
    using outbox_drained [of ?w st' E] Suc.prems(4) by auto
  have 2: "inv_run E v ([Nothing] @ ds) w" using inv_run_trans [OF w(1) 1] .
  show ?case
  proof (cases "st' = USCXML_FINISHED")
    case True
    then show ?thesis using 2 w by blast
  next
    case False
    then obtain es u where "inv_run E w es u" "v_thread u = Loop USCXML_FINISHED" "v_outbox u = []" "v_isActive u"
      using Suc.IH [OF _ w(2) _ w(4,5,3)] f o by auto
    then show ?thesis using inv_run_trans [OF _ 2] by blast
  qed
qed simp


subsection \<open>Departures\<close>

text \<open>A document that cannot be prepared makes \<open>invoke\<close> throw after the invoker was marked as active: it takes events for a
  session that has no thread, and nothing is ever reported.\<close>

lemma failed_invoke_stays_active:
  assumes "inv_source E source ev = Inr (Some I)" and "ve_setupDOM E (inv_setup (ve_hasActionLanguage E) ev I) = Some x"
  shows "\<exists>v'. inv_invoke E source ev v = (Inl x, v') \<and> v_isActive v' \<and> v_thread v' = v_thread v"
  using assms by (simp add: inv_invoke_def Let_def)

text \<open>An exception of \<open>step\<close> leaves the function of the thread and ends the process.\<close>

lemma step_exception_ends_process:
  assumes "v_thread v = Loop st" and "st \<noteq> USCXML_FINISHED" and "v_outbox v = []" and "v_invoked v = Some I"
    and "interp_step (ve_factory E) (ve_plugins E) size_t_max I = Some (Inl ev, I')"
  shows "\<exists>v'. run_step E v = Some (Nothing, v') \<and> v_thread v' = Crashed"
  using assms by (simp add: run_step_def run_body_def)

subsection \<open>Instances\<close>

text \<open>A session with a final state only, invoked from a text.\<close>

definition final_doc :: node where
  "final_doc = Element 0 None ''scxml'' [] [] [Element 1 None ''final'' [] [(''id'', ''f'')] []]"

definition sample_inv_env :: "nat inv_env" where
  "sample_inv_env = \<lparr>ve_fromURL = (\<lambda>_. Inr None), ve_fromDocument = (\<lambda>_. Inr None),
     ve_fromXML = (\<lambda>_. Inr (Some \<lparr>I_isInitialized = False, I_state = USCXML_INSTANTIATED, I_scxml = final_doc, I_micro = None,
       I_env = sample_session\<rparr>)),
     ve_setupDOM = (\<lambda>_. None), ve_factory = [], ve_plugins = sample_plugins, ve_hasActionLanguage = True, ve_uid = ''u''\<rparr>"

definition sample_request :: Event where
  "sample_request = (Event_new ''r'')\<lparr>invokeid := ''i1'', edata := Data_atom ''scxml'' VERBATIM\<rparr>"

definition sample_invoked :: "nat scxml_invoker" where
  "sample_invoked = snd (inv_invoke sample_inv_env [] sample_request (inv_create ''i1'' bq_create))"

text \<open>Its first step enters the final state, whatever the callbacks are, and its second step is the last.\<close>

definition final_machine :: "tables \<times> ms" where
  "final_machine = the (ms_init final_doc)"

lemma final_first_step:
  "fst (ms_step (fst final_machine) cb b (snd final_machine, e)) = Inr USCXML_MICROSTEPPED"
  "has_flag (m_flags (fst (snd (ms_step (fst final_machine) cb b (snd final_machine, e))))) CTX_TOP_LEVEL_FINAL"
  by code_simp+

lemma final_last_step: "has_flag (m_flags m) CTX_TOP_LEVEL_FINAL \<Longrightarrow> fst (ms_step t cb b (m, e)) = Inr USCXML_FINISHED"
  by (simp add: ms_step_def split: prod.split)

lemma final_finishes:
  assumes "I_isInitialized I" and "I_micro I = Some final_machine"
  shows "finishes E 2 I"
proof -
  obtain t m where tm: "final_machine = (t, m)" by (cases final_machine)
  obtain m' e' where s: "ms_step t (interp_cb (ve_plugins E) (I_scxml I)) size_t_max (m, I_env I) = (Inr USCXML_MICROSTEPPED, m', e')"
    and f: "has_flag (m_flags m') CTX_TOP_LEVEL_FINAL"
    using final_first_step [of "interp_cb (ve_plugins E) (I_scxml I)" size_t_max "I_env I"] tm by (metis fst_conv snd_conv prod.collapse)
  let ?I = "I\<lparr>I_state := USCXML_MICROSTEPPED, I_micro := Some (t, m'), I_env := e'\<rparr>"
  have 1: "interp_step (ve_factory E) (ve_plugins E) size_t_max I = Some (Inr USCXML_MICROSTEPPED, ?I)"
    using assms(1) assms(2) [unfolded tm] s by (simp add: interp_step_def)
  obtain evs J where J: "take_outbox ?I = (evs, J)" by (cases "take_outbox ?I")
  then have "I_isInitialized J" "I_micro J = Some (t, m')" using assms by (auto simp: take_outbox_def split: option.splits)
  moreover obtain m2 e2 where "ms_step t (interp_cb (ve_plugins E) (I_scxml J)) size_t_max (m', I_env J) = (Inr USCXML_FINISHED, m2, e2)"
    using final_last_step [OF f, of t "interp_cb (ve_plugins E) (I_scxml J)" size_t_max "I_env J"] by (metis fst_conv prod.collapse)
  ultimately have "finishes E 1 J" by (simp add: interp_step_def)
  then show ?thesis using 1 J by (simp add: numeral_2_eq_2)
qed

lemma sample_invoked:
  "inv_invoke sample_inv_env [] sample_request (inv_create ''i1'' bq_create) = (Inr (), sample_invoked)"
  "\<exists>I. v_invoked sample_invoked = Some I \<and> finishes sample_inv_env 2 I" "v_thread sample_invoked \<noteq> No_Thread"
proof -
  have "ms_init final_doc \<noteq> None" by code_simp
  then have m: "ms_init final_doc = Some final_machine" by (simp add: final_machine_def)
  show "inv_invoke sample_inv_env [] sample_request (inv_create ''i1'' bq_create) = (Inr (), sample_invoked)"
    "v_thread sample_invoked \<noteq> No_Thread" "\<exists>I. v_invoked sample_invoked = Some I \<and> finishes sample_inv_env 2 I"
    using m
    by (auto simp: sample_invoked_def inv_invoke_def inv_source_def sample_request_def sample_inv_env_def inv_setup_def interp_init_def
        Data_atom_def inv_start_def Event_new_def Let_def split: prod.split intro!: final_finishes)
qed




end
