(* ===== verification/Md5_Properties.thy ===== *)
theory Md5_Properties
  imports Md5
begin

unbundle bit_operations_syntax

text \<open>
  The digest of a message does not depend on the pieces in which it is passed: it is the digest that RFC 1321 defines, the
  message padded to a multiple of 64 bytes and folded block by block.
\<close>

subsection \<open>The standard\<close>

function blocks :: "byte list \<Rightarrow> byte list list" where
  "blocks p = (if 64 \<le> length p then take 64 p # blocks (drop 64 p) else [])"
  by pat_completeness auto
termination by (relation "measure length") auto

declare blocks.simps [simp del]

definition length_bytes :: "nat \<Rightarrow> byte list" where
  "length_bytes n = map (\<lambda>i. of_int (drop_bit (8 * i) (8 * int n))) [0..<8]"

definition md5_padded :: "byte list \<Rightarrow> byte list" where
  "md5_padded m = m @ [0x80] @ replicate (nat ((55 - int (length m)) mod 64)) 0 @ length_bytes (length m)"

definition md5_digest :: "byte list \<Rightarrow> byte list" where
  "md5_digest m = (case foldl md5_process md5_abcd_init (blocks (md5_padded m)) of
     (a, b, c, d) \<Rightarrow> concat (map word_bytes [a, b, c, d]))"

subsection \<open>Blocks\<close>

lemma blocks_short: "length p < 64 \<Longrightarrow> blocks p = []"
  by (simp add: blocks.simps)

lemma blocks_append: "64 dvd length xs \<Longrightarrow> blocks (xs @ ys) = blocks xs @ blocks ys"
proof (induction xs rule: blocks.induct)
  case (1 xs)
  show ?case
  proof (cases "64 \<le> length xs")
    case True
    then have "64 dvd length (drop 64 xs)" using "1.prems" by (simp add: dvd_diff_nat)
    then show ?thesis using "1.IH" [OF True] True by (simp add: blocks.simps [of "xs @ ys"] blocks.simps [of xs])
  next
    case False
    then show ?thesis using "1.prems" by (auto simp: blocks_short dest: dvd_imp_le)
  qed
qed

lemma blocks_snoc: "64 dvd length M \<Longrightarrow> length b = 64 \<Longrightarrow> blocks (M @ b) = blocks M @ [b]"
  by (simp add: blocks_append blocks.simps [of b] blocks_short)

lemma full_blocks_split:
  "\<exists>M R. p = M @ R \<and> 64 dvd length M \<and> length R < 64 \<and> full_blocks a p = (foldl md5_process a (blocks M), R)"
proof (induction a p rule: full_blocks.induct)
  case (1 a p)
  show ?case
  proof (cases "64 \<le> length p")
    case True
    then obtain M R where "drop 64 p = M @ R" "64 dvd length M" "length R < 64"
      "full_blocks (md5_process a (take 64 p)) (drop 64 p) = (foldl md5_process (md5_process a (take 64 p)) (blocks M), R)"
      using 1 by blast
    moreover have "p = (take 64 p @ M) @ R" using calculation(1) append_take_drop_id [of 64 p] by simp
    moreover have "blocks (take 64 p @ M) = take 64 p # blocks M"
      using True blocks_append [of "take 64 p" M] by (simp add: blocks.simps [of "take 64 p"] blocks_short)
    ultimately show ?thesis using True
      by (intro exI [of _ "take 64 p @ M"] exI [of _ R]) (simp add: full_blocks.simps [of a p])
  next
    case False
    then show ?thesis by (intro exI [of _ "[]"] exI [of _ p]) (simp add: full_blocks.simps blocks_short)
  qed
qed

subsection \<open>Counters\<close>

lemma uint_count: "uint (of_int N :: md5_word) = N mod 2 ^ 32"
  by (simp add: unsigned_of_int take_bit_eq_mod)

lemma add_carry:
  fixes N y M :: int
  assumes "0 \<le> y" and "y < M"
  shows "(N + y) div M = N div M + (if (N + y) mod M < y then 1 else 0)"
proof -
  define r where "r = N mod M"
  have r: "0 \<le> r" "r < M" using assms by (simp_all add: r_def)
  have m: "(N + y) mod M = (r + y) mod M" by (simp add: r_def mod_add_left_eq)
  have d: "(N + y) div M = N div M + (r + y) div M" using assms div_add1_eq [of N y M] by (simp add: r_def)
  show ?thesis
  proof (cases "r + y < M")
    case True
    then show ?thesis using m d r assms by simp
  next
    case False
    then have "(r + y) mod M = r + y - M" "(r + y) div M = 1"
      using r assms int_mod_pos_eq [of "r + y" M 1 "r + y - M"] int_div_pos_eq [of "r + y" M 1 "r + y - M"] by simp_all
    then show ?thesis using m d r by simp
  qed
qed

lemma count_carry:
  assumes "0 \<le> y" and "y < 2 ^ 32"
  shows "(of_int (N div 2 ^ 32) :: md5_word) + (if (of_int (N + y) :: md5_word) < of_int y then 1 else 0) = of_int ((N + y) div 2 ^ 32)"
proof -
  have "(of_int (N + y) :: md5_word) < of_int y \<longleftrightarrow> (N + y) mod 2 ^ 32 < y"
    using assms unfolding word_less_def uint_count by simp
  then show ?thesis unfolding add_carry [OF assms] by (cases "(N + y) mod 2 ^ 32 < y") simp_all
qed

lemma and_63: "w AND 63 = take_bit 6 w" for w :: md5_word
proof -
  have "(63 :: md5_word) = mask 6" by (simp add: mask_eq_exp_minus_1)
  then show ?thesis by (simp add: take_bit_eq_mask)
qed

lemma count_bytes: "uint (drop_bit 3 (of_int (8 * L) :: md5_word)) = L mod 2 ^ 29"
proof -
  have "uint (drop_bit 3 (of_int (8 * L) :: md5_word)) = (8 * L mod 2 ^ 32) div 8"
    unfolding unsigned_drop_bit_eq uint_count by (simp add: drop_bit_eq_div take_bit_eq_mod)
  also have "8 * L mod 2 ^ 32 = 8 * (L mod 2 ^ 29)" using mod_mult_mult1 [of 8 L "2 ^ 29"] by simp
  finally show ?thesis by simp
qed

lemma offset_count: "unat (drop_bit 3 (of_int (8 * int n) :: md5_word) AND 63) = n mod 64"
proof -
  have "uint (drop_bit 3 (of_int (8 * int n) :: md5_word) AND 63) = int n mod 2 ^ 29 mod 64"
    unfolding and_63 unsigned_take_bit_eq count_bytes by (simp add: take_bit_eq_mod)
  also have "\<dots> = int (n mod 64)" by (simp add: mod_mod_cancel zmod_int)
  finally show ?thesis by (simp add: unat_eq_nat_uint)
qed

lemma pad_count: "unat ((55 - drop_bit 3 (of_int (8 * int n) :: md5_word)) AND 63) = nat ((55 - int n) mod 64)"
proof -
  have "uint ((55 - drop_bit 3 (of_int (8 * int n) :: md5_word)) AND 63) = ((55 - int n mod 2 ^ 29) mod 2 ^ 32) mod 64"
    unfolding and_63 unsigned_take_bit_eq uint_word_ariths count_bytes by (simp add: take_bit_eq_mod)
  also have "\<dots> = (55 - int n mod 2 ^ 29) mod 64" by (simp add: mod_mod_cancel)
  also have "\<dots> = (55 - int n mod 2 ^ 29 mod 64) mod 64" by (simp add: mod_diff_right_eq)
  also have "\<dots> = (55 - int n) mod 64" by (simp add: mod_mod_cancel mod_diff_right_eq)
  finally show ?thesis by (simp add: unat_eq_nat_uint)
qed

lemma word_bytes_of_int: "word_bytes (of_int N) = map (\<lambda>i. of_int (drop_bit (8 * i) N)) [0..<4]"
proof -
  have "(ucast (drop_bit (8 * i) (of_int N :: md5_word)) :: byte) = of_int (drop_bit (8 * i) N)" if "i < 4" for i
    using that by (intro bit_eqI) (auto simp: bit_unsigned_iff bit_drop_bit_eq bit_of_int_iff)
  then show ?thesis by (simp add: word_bytes_def)
qed

text \<open>The counters after a number of bytes.\<close>

definition count_lo :: "nat \<Rightarrow> md5_word" where
  "count_lo n = of_int (8 * int n)"

definition count_hi :: "nat \<Rightarrow> md5_word" where
  "count_hi n = of_int (8 * int n div 2 ^ 32)"

lemma count_step:
  assumes "n < 2 ^ 28"
  shows "count_lo l + of_nat (n * 8) = count_lo (l + n)"
    "(if count_lo (l + n) < of_nat (n * 8) then count_hi l + of_int (int n div 2 ^ 29) + 1 else count_hi l + of_int (int n div 2 ^ 29)) =
      count_hi (l + n)"
proof -
  have w: "(of_nat (n * 8) :: md5_word) = of_int (8 * int n)" by (simp add: mult.commute)
  have z: "int n div 2 ^ 29 = 0" using assms by simp
  have s: "8 * int (l + n) = 8 * int l + 8 * int n" by simp
  show "count_lo l + of_nat (n * 8) = count_lo (l + n)" unfolding count_lo_def w s of_int_add ..
  have "8 * int n < 2 ^ 32" using assms by simp
  then show "(if count_lo (l + n) < of_nat (n * 8) then count_hi l + of_int (int n div 2 ^ 29) + 1 else count_hi l + of_int (int n div 2 ^ 29)) =
      count_hi (l + n)"
    using count_carry [of "8 * int n" "8 * int l"] unfolding count_lo_def count_hi_def w s z
    by (cases "(of_int (8 * int l + 8 * int n) :: md5_word) < of_int (8 * int n)") (simp_all only: if_True if_False of_int_0 add_0_right)
qed

lemma count_offset: "unat (drop_bit 3 (count_lo n) AND 63) = n mod 64" "unat ((55 - drop_bit 3 (count_lo n)) AND 63) = nat ((55 - int n) mod 64)"
  unfolding count_lo_def by (rule offset_count, rule pad_count)

lemma count_length_bytes: "word_bytes (count_lo n) @ word_bytes (count_hi n) = length_bytes n"
proof -
  have "drop_bit (8 * i) (8 * int n div 2 ^ 32) = drop_bit (8 * (i + 4)) (8 * int n)" for i
    unfolding drop_bit_eq_div [of 32, symmetric] drop_bit_drop_bit by (simp add: distrib_left add.commute)
  then have "word_bytes (count_hi n) = map (\<lambda>i. of_int (drop_bit (8 * (i + 4)) (8 * int n))) [0..<4]"
    unfolding count_hi_def word_bytes_of_int by simp
  also have "\<dots> = map (\<lambda>i. of_int (drop_bit (8 * i) (8 * int n))) [4..<8]"
    by (simp add: upt_rec)
  finally have "word_bytes (count_lo n) @ word_bytes (count_hi n) = map (\<lambda>i. of_int (drop_bit (8 * i) (8 * int n))) ([0..<4] @ [4..<8])"
    unfolding count_lo_def word_bytes_of_int by simp
  moreover have "[0..<4] @ [4..<8] = [0..<8::nat]" by (simp add: upt_rec)
  ultimately show ?thesis unfolding length_bytes_def by (simp only:)
qed

subsection \<open>Appending\<close>

text \<open>The state after a message: its full blocks have been folded, the rest of it is in the buffer, and the counters hold its length.\<close>

definition folded :: "byte list \<Rightarrow> md5_state \<Rightarrow> bool" where
  "folded m st \<longleftrightarrow> length (md5_buf st) = 64 \<and>
     (\<exists>M R. m = M @ R \<and> 64 dvd length M \<and> length R < 64 \<and> take (length R) (md5_buf st) = R \<and>
        md5_abcd st = foldl md5_process md5_abcd_init (blocks M))"

definition md5_ok :: "byte list \<Rightarrow> md5_state \<Rightarrow> bool" where
  "md5_ok m st \<longleftrightarrow> folded m st \<and> md5_count0 st = count_lo (length m) \<and> md5_count1 st = count_hi (length m)"

lemma md5_blocks_ok:
  assumes "length (md5_buf st) = 64" and "64 dvd length M" and "md5_abcd st = foldl md5_process md5_abcd_init (blocks M)"
  shows "folded (M @ p) (md5_blocks p st)"
proof -
  obtain N R where p: "p = N @ R" "64 dvd length N" "length R < 64"
    "full_blocks (md5_abcd st) p = (foldl md5_process (md5_abcd st) (blocks N), R)" using full_blocks_split by blast
  have b: "blocks (M @ N) = blocks M @ blocks N" using blocks_append assms(2) by blast
  show ?thesis
    unfolding folded_def using p b assms
    by (intro conjI exI [of _ "M @ N"] exI [of _ R]) (auto simp: md5_blocks_def md5_memcpy_def)
qed

lemma md5_blocks_counts [simp]: "md5_count0 (md5_blocks p st) = md5_count0 st" "md5_count1 (md5_blocks p st) = md5_count1 st"
  by (simp_all add: md5_blocks_def split: prod.split)

text \<open>\<open>md5_append\<close> after the counters, for a rest of some length in the buffer.\<close>

definition append_data :: "nat \<Rightarrow> byte list \<Rightarrow> md5_state \<Rightarrow> md5_state" where
  "append_data offset d st =
    (if offset = 0 then md5_blocks d st
     else (let copy = (if offset + length d > 64 then 64 - offset else length d);
               st2 = st\<lparr>md5_buf := md5_memcpy offset (take copy d) (md5_buf st)\<rparr>
           in if offset + copy < 64 then st2
              else md5_blocks (drop copy d) (st2\<lparr>md5_abcd := md5_process (md5_abcd st2) (md5_buf st2)\<rparr>)))"

lemma append_data_counts: "md5_count0 (append_data n d st) = md5_count0 st" "md5_count1 (append_data n d st) = md5_count1 st"
  by (simp_all add: append_data_def Let_def)

lemma append_data_ok:
  assumes "folded m st"
  shows "folded (m @ d) (append_data (length m mod 64) d st)"
proof -
  obtain M R where m: "m = M @ R" "64 dvd length M" "length R < 64" "take (length R) (md5_buf st) = R"
    "md5_abcd st = foldl md5_process md5_abcd_init (blocks M)" and buf: "length (md5_buf st) = 64"
    using assms by (auto simp: folded_def)
  have off: "length m mod 64 = length R" using m(1-3) by auto
  show ?thesis
  proof (cases "R \<noteq> [] \<and> length R + length d \<ge> 64")
    case False
    have "folded (M @ R @ d) (st\<lparr>md5_buf := md5_memcpy (length R) d (md5_buf st)\<rparr>)" if "length R + length d < 64"
      unfolding folded_def using that m buf by (intro conjI exI [of _ M] exI [of _ "R @ d"]) (auto simp: md5_memcpy_def)
    then show ?thesis using False off m(1) md5_blocks_ok [OF buf m(2,5), of d] by (cases "R = []") (auto simp: append_data_def)
  next
    case True
    define c where "c = 64 - length R"
    have c: "c \<le> length d" "length R + c = 64" "(if length R + length d > 64 then 64 - length R else length d) = c"
      using True m(3) by (auto simp: c_def)
    let ?b = "R @ take c d"
    have b: "md5_memcpy (length R) (take c d) (md5_buf st) = ?b" using c m(4) buf by (simp add: md5_memcpy_def)
    have len: "length ?b = 64" using c by simp
    have "blocks (M @ ?b) = blocks M @ [?b]" by (rule blocks_snoc [OF m(2) len])
    then have "folded ((M @ ?b) @ drop c d) (md5_blocks (drop c d) (st\<lparr>md5_buf := ?b, md5_abcd := md5_process (md5_abcd st) ?b\<rparr>))"
      using len m(2,5) by (intro md5_blocks_ok) auto
    moreover have "(M @ ?b) @ drop c d = m @ d" using m(1) by simp
    ultimately show ?thesis using True c b off by (simp add: append_data_def Let_def del: append_assoc)
  qed
qed

lemma md5_append_ok:
  assumes ok: "md5_ok m st" and d: "length d < 2 ^ 28"
  shows "md5_ok (m @ d) (md5_append st d)"
proof (cases "d = []")
  case False
  have c: "md5_count0 st = count_lo (length m)" "md5_count1 st = count_hi (length m)" using ok by (simp_all add: md5_ok_def)
  let ?st = "st\<lparr>md5_count0 := count_lo (length m + length d), md5_count1 := count_hi (length m + length d)\<rparr>"
  have "md5_append st d = append_data (length m mod 64) d ?st"
    using False unfolding md5_append_def append_data_def Let_def c count_step [OF d] count_offset by simp
  moreover have "folded m ?st" using ok by (simp add: md5_ok_def folded_def)
  ultimately show ?thesis using append_data_ok [of m ?st d] by (simp add: md5_ok_def append_data_counts)
qed (use ok in \<open>simp add: md5_append_def Let_def\<close>)

subsection \<open>The digest\<close>

lemma md5_init_ok: "length junk = 64 \<Longrightarrow> md5_ok [] (md5_init junk)"
  by (simp add: md5_ok_def folded_def md5_init_def count_lo_def count_hi_def blocks_short)

lemma md5_append_all: "md5_ok m st \<Longrightarrow> \<forall>d \<in> set ds. length d < 2 ^ 28 \<Longrightarrow> md5_ok (m @ concat ds) (foldl md5_append st ds)"
proof (induction ds arbitrary: m st)
  case (Cons d ds)
  have "md5_ok (m @ d) (md5_append st d)" using Cons.prems by (intro md5_append_ok) auto
  from Cons.IH [OF this] show ?case using Cons.prems by simp
qed simp

lemma padded_length: "64 dvd length (md5_padded m)"
proof -
  define z where "z = (55 - int (length m)) mod 64"
  have "0 \<le> z" by (simp add: z_def)
  have l: "length (md5_padded m) = length m + 1 + nat z + 8" by (simp add: md5_padded_def length_bytes_def z_def)
  have "int (length (md5_padded m)) = int (length m) + z + 9" unfolding l using \<open>0 \<le> z\<close> by simp
  moreover have "int (length m) + z + 9 = 64 * (1 - (55 - int (length m)) div 64)"
    unfolding z_def by presburger
  ultimately have "int 64 dvd int (length (md5_padded m))" by simp
  then show ?thesis by (simp only: int_dvd_int_iff)
qed

lemma finish_digest:
  assumes "md5_ok m st"
  shows "md5_finish st = md5_digest m"
proof -
  define k where "k = nat ((55 - int (length m)) mod 64)"
  have "k < 64" by (simp add: k_def nat_less_iff)
  then have p: "take (k + 1) md5_pad = [0x80] @ replicate k 0" by (simp add: md5_pad_def)
  have c: "md5_count0 st = count_lo (length m)" "md5_count1 st = count_hi (length m)" using assms by (simp_all add: md5_ok_def)
  let ?st = "md5_append (md5_append st (take (k + 1) md5_pad)) (length_bytes (length m))"
  have "md5_ok (m @ take (k + 1) md5_pad) (md5_append st (take (k + 1) md5_pad))"
    by (rule md5_append_ok [OF assms]) (simp add: md5_pad_def min_def)
  then have "md5_ok ((m @ take (k + 1) md5_pad) @ length_bytes (length m)) ?st"
    by (rule md5_append_ok) (simp add: length_bytes_def)
  then have "folded (md5_padded m) ?st" using p by (simp add: md5_ok_def md5_padded_def k_def)
  then obtain M R where "md5_padded m = M @ R" "64 dvd length M" "length R < 64" "md5_abcd ?st = foldl md5_process md5_abcd_init (blocks M)"
    by (auto simp: folded_def)
  moreover have "R = []"
  proof -
    have "64 dvd length R" using calculation(1,2) padded_length [of m] by (simp add: dvd_add_right_iff)
    then show ?thesis using calculation(3) by (auto dest: dvd_imp_le)
  qed
  ultimately show ?thesis
    unfolding md5_finish_def md5_digest_def Let_def c count_offset count_length_bytes by (simp add: k_def)
qed

text \<open>
  C40. The digest of a message that is passed in pieces of less than \<open>2 ^ 28\<close> bytes is that of the whole message, padded and cut
  into blocks as the standard says, whatever the pieces are and whatever the buffer held before.
\<close>

theorem md5_streaming:
  assumes "length junk = 64" and "\<forall>d \<in> set ds. length d < 2 ^ 28"
  shows "md5_finish (foldl md5_append (md5_init junk) ds) = md5_digest (concat ds)"
  using finish_digest [OF md5_append_all [OF md5_init_ok [OF assms(1)] assms(2)]] by simp

theorem md5_streaming_witness:
  "md5_finish (foldl md5_append (md5_init (replicate 64 0)) [[0x61], [0x62, 0x63]]) = md5_digest [0x61, 0x62, 0x63]"
  using md5_streaming [of "replicate 64 0" "[[0x61], [0x62, 0x63]]"] by simp

text \<open>The test vector \<open>abc\<close> of the standard.\<close>

lemma md5_abc: "md5 (replicate 64 0) [0x61, 0x62, 0x63] = ''900150983CD24FB0D6963F7D28E17F72''"
  by code_simp

end
