(* ===== verification/Trie_Words.thy ===== *)
theory Trie_Words
  imports Text_Utils "HOL-Library.Multiset"
begin

text \<open>
  The trie of event names that the code generators use, \<open>src/src/uscxml/transform/Trie.cpp\<close> and \<open>Trie.h\<close>. A word
  is split into tokens at a separator, or into its characters; a node that ends a word holds its index. The
  lemmas show that the trie implements a map from token lists to words, that the indices are numbered through, and that the
  words with a prefix are the ones whose tokens begin with the tokens of the prefix.
\<close>

subsection \<open>The trie\<close>

text \<open>\<open>hasWord\<close> is whether the word is there: the other fields are set with it and not before.\<close>

record trie_word =
  tw_index :: int
  tw_identifier :: string
  tw_value :: string

datatype TrieNode = TrieNode (word_of: "trie_word option") (childs: "(string \<times> TrieNode) list")

record Trie =
  t_root :: TrieNode
  seperator :: string
  lastIndex :: int

definition TrieNode_new :: TrieNode where
  "TrieNode_new = TrieNode None []"

definition Trie_new :: "string \<Rightarrow> Trie" where
  "Trie_new sep = \<lparr>t_root = TrieNode_new, seperator = sep, lastIndex = 0\<rparr>"

text \<open>\<open>std::string::find\<close> for a string, and the next token of a word with the position behind it, \<open>None\<close> for \<open>npos\<close>.\<close>

definition find_str :: "string \<Rightarrow> string \<Rightarrow> nat \<Rightarrow> nat option" where
  "find_str word s offset = List.find (\<lambda>k. prefix s (drop k word)) [offset..<Suc (length word)]"

lemma find_str_ge: "find_str word s offset = Some k \<Longrightarrow> offset \<le> k \<and> k \<le> length word \<and> prefix s (drop k word)"
  by (fastforce simp: find_str_def find_Some_iff simp del: upt_Suc)

function getNextToken :: "string \<Rightarrow> string \<Rightarrow> nat \<Rightarrow> string \<times> nat option" where
  "getNextToken sep word offset =
    (if offset \<ge> length word then ([], None)
     else if length sep > 0 then
       (case find_str word sep offset of
          None \<Rightarrow> (substr word offset (length word - offset), None)
        | Some sepPos \<Rightarrow>
            if sepPos = offset then getNextToken sep word (offset + length sep)
            else (substr word offset (sepPos - offset), Some (sepPos + length sep)))
     else ([word ! offset], Some (offset + 1)))"
  by pat_completeness auto
termination
proof (relation "measure (\<lambda>(sep, word, offset). length word - offset)", goal_cases)
  case (2 sep word offset sepPos)
  then have "length word - (offset + length sep) < length word - offset" by linarith
  then show ?case by simp
qed simp

declare getNextToken.simps [simp del]

definition escapeWord :: "string \<Rightarrow> string" where
  "escapeWord word = map (\<lambda>c. if c = CHR ''.'' then CHR ''_'' else c) word"

lemma getNextToken_less: "getNextToken sep word offset = (tok, Some o') \<Longrightarrow> offset < o' \<and> offset < length word"
proof (induction sep word offset rule: getNextToken.induct)
  case (1 sep word offset)
  then show ?case
    by (subst (asm) (2) getNextToken.simps) (fastforce dest: find_str_ge split: if_splits option.splits)
qed

text \<open>A word is added at the node its tokens lead to, unless that node has one.\<close>

definition set_word :: "string \<Rightarrow> int \<Rightarrow> TrieNode \<Rightarrow> TrieNode \<times> int" where
  "set_word word i n =
    (case word_of n of
       Some _ \<Rightarrow> (n, i)
     | None \<Rightarrow> (TrieNode (Some \<lparr>tw_index = i, tw_identifier = escapeWord word, tw_value = word\<rparr>) (childs n), i + 1))"

definition child_of :: "string \<Rightarrow> TrieNode \<Rightarrow> TrieNode" where
  "child_of tok n = (case map_of (childs n) tok of Some c \<Rightarrow> c | None \<Rightarrow> TrieNode_new)"

definition put_child :: "string \<Rightarrow> TrieNode \<Rightarrow> TrieNode \<Rightarrow> TrieNode" where
  "put_child tok c n = TrieNode (word_of n) (alist_put str_less tok c (childs n))"

function add_from :: "string \<Rightarrow> string \<Rightarrow> int \<Rightarrow> nat \<Rightarrow> TrieNode \<Rightarrow> TrieNode \<times> int" where
  "add_from sep word i offset n =
    (case getNextToken sep word offset of (tok, o') \<Rightarrow>
       let rest = (\<lambda>m. case o' of None \<Rightarrow> set_word word i m | Some k \<Rightarrow> add_from sep word i k m) in
       if length tok > 0 then (case rest (child_of tok n) of (c, i') \<Rightarrow> (put_child tok c n, i')) else rest n)"
  by pat_completeness auto
termination
proof (relation "measure (\<lambda>(sep, word, i, offset, n). length word - offset)", goal_cases)
  case (2 sep word i offset n tok o' m k)
  then show ?case using getNextToken_less [of sep word offset tok k] by auto
qed simp

declare add_from.simps [simp del]

function find_from_node :: "string \<Rightarrow> string \<Rightarrow> nat option \<Rightarrow> TrieNode \<Rightarrow> TrieNode option" where
  "find_from_node sep word None n = Some n"
| "find_from_node sep word (Some offset) n =
    (case getNextToken sep word offset of (tok, o') \<Rightarrow>
       (case map_of (childs n) tok of
          None \<Rightarrow> if length tok > 0 then None else Some n
        | Some c \<Rightarrow> find_from_node sep word o' c))"
  by pat_completeness auto
termination
proof (relation "measure (\<lambda>(sep, word, offset, n). case offset of None \<Rightarrow> 0 | Some k \<Rightarrow> Suc (length word - k))", goal_cases)
  case (2 sep word offset n tok o' c)
  show ?case
  proof (cases o')
    case (Some k)
    then have "offset < k \<and> offset < length word" using 2(1) getNextToken_less [of sep word offset tok k] by metis
    then show ?thesis using Some by auto
  qed simp
qed simp

text \<open>After the last token the loop looks for the empty token, which is no key, and stops at the node.\<close>

definition getNodeWithPrefix :: "Trie \<Rightarrow> string \<Rightarrow> TrieNode option" where
  "getNodeWithPrefix t p = find_from_node (seperator t) p (Some 0) (t_root t)"

definition addWord :: "string \<Rightarrow> Trie \<Rightarrow> Trie" where
  "addWord word t =
    (case add_from (seperator t) word (lastIndex t) 0 (t_root t) of (r, i) \<Rightarrow> t\<lparr>t_root := r, lastIndex := i\<rparr>)"

text \<open>
  \<open>std::list::merge\<close> compares the pointers; \<open>addr\<close> is the address of the node of a word.
\<close>

fun merge_lists :: "(trie_word \<Rightarrow> nat) \<Rightarrow> trie_word list \<Rightarrow> trie_word list \<Rightarrow> trie_word list" where
  "merge_lists addr [] ys = ys"
| "merge_lists addr xs [] = xs"
| "merge_lists addr (x # xs) (y # ys) =
    (if addr y < addr x then y # merge_lists addr (x # xs) ys else x # merge_lists addr xs (y # ys))"

fun getChildsWithWords :: "(trie_word \<Rightarrow> nat) \<Rightarrow> TrieNode \<Rightarrow> trie_word list" where
  "getChildsWithWords addr (TrieNode w cs) =
     foldl (merge_lists addr) (case w of None \<Rightarrow> [] | Some x \<Rightarrow> [x]) (map (\<lambda>(k, c). getChildsWithWords addr c) cs)"

definition getWordsWithPrefix :: "(trie_word \<Rightarrow> nat) \<Rightarrow> Trie \<Rightarrow> string \<Rightarrow> trie_word list" where
  "getWordsWithPrefix addr t p = (case getNodeWithPrefix t p of None \<Rightarrow> [] | Some n \<Rightarrow> getChildsWithWords addr n)"

subsection \<open>The tokens of a word\<close>

function tokens_from :: "string \<Rightarrow> string \<Rightarrow> nat \<Rightarrow> string list" where
  "tokens_from sep word offset =
    (case getNextToken sep word offset of (tok, o') \<Rightarrow>
       (if tok \<noteq> [] then [tok] else []) @ (case o' of None \<Rightarrow> [] | Some k \<Rightarrow> tokens_from sep word k))"
  by pat_completeness auto
termination
proof (relation "measure (\<lambda>(sep, word, offset). length word - offset)", goal_cases)
  case (2 sep word offset tok o' k)
  then show ?case using getNextToken_less [of sep word offset tok k] by auto
qed simp

declare tokens_from.simps [simp del]

abbreviation trie_tokens :: "string \<Rightarrow> string \<Rightarrow> string list" where
  "trie_tokens sep word \<equiv> tokens_from sep word 0"

lemma getNextToken_empty: "getNextToken sep word offset = ([], o') \<Longrightarrow> o' = None"
proof (induction sep word offset rule: getNextToken.induct)
  case (1 sep word offset)
  show ?case
  proof (cases "offset < length word \<and> sep \<noteq> [] \<and> find_str word sep offset = Some offset")
    case True
    then have "getNextToken sep word offset = getNextToken sep word (offset + length sep)"
      by (subst getNextToken.simps) simp
    then show ?thesis using "1.IH" [of offset] True "1.prems" by simp
  next
    case False
    then show ?thesis
      using "1.prems" by (subst (asm) getNextToken.simps) (auto simp: substr_def dest: find_str_ge split: if_splits option.splits)
  qed
qed

lemma tokens_nonempty: "[] \<notin> set (tokens_from sep word offset)"
proof (induction sep word offset rule: tokens_from.induct)
  case (1 sep word offset)
  then show ?case by (subst tokens_from.simps) (auto split: prod.splits option.splits)
qed

text \<open>With a separator of one character these are the words between separators; without one, the characters.\<close>

lemma find_upt_iff: "List.find P [a..<b] = Some k \<longleftrightarrow> a \<le> k \<and> k < b \<and> P k \<and> (\<forall>j. a \<le> j \<and> j < k \<longrightarrow> \<not> P j)"
proof
  assume "List.find P [a..<b] = Some k"
  then obtain i where i: "i < b - a" "P (a + i)" "k = a + i" "\<forall>j < i. \<not> P (a + j)"
    by (auto simp: find_Some_iff)
  have "\<not> P j" if "a \<le> j" "j < k" for j using i(3,4) that by (metis le_add_diff_inverse nat_add_left_cancel_less)
  then show "a \<le> k \<and> k < b \<and> P k \<and> (\<forall>j. a \<le> j \<and> j < k \<longrightarrow> \<not> P j)" using i by auto
next
  assume "a \<le> k \<and> k < b \<and> P k \<and> (\<forall>j. a \<le> j \<and> j < k \<longrightarrow> \<not> P j)"
  then show "List.find P [a..<b] = Some k"
    unfolding find_Some_iff by (intro exI [of _ "k - a"]) auto
qed

lemma prefix_char: "prefix [c] (drop k word) \<longleftrightarrow> k < length word \<and> word ! k = c"
proof (cases "k < length word")
  case True
  then show ?thesis using Cons_nth_drop_Suc [OF True] by (metis prefix_Cons prefix_code(1) list.inject Cons_prefix_Cons)
qed simp

lemma find_str_char:
  "find_str word [c] offset = (if c \<in> set (drop offset word) then Some (offset + length (takeWhile (\<lambda>x. x \<noteq> c) (drop offset word))) else None)"
proof (cases "c \<in> set (drop offset word)")
  case True
  let ?s = "drop offset word" and ?l = "length (takeWhile (\<lambda>x. x \<noteq> c) (drop offset word))"
  have l: "?l < length ?s" using True length_takeWhile_le [of "\<lambda>x. x \<noteq> c" ?s] takeWhile_eq_all_conv [of "\<lambda>x. x \<noteq> c" ?s]
    by (metis (no_types, lifting) le_neq_implies_less takeWhile_eq_take take_all_iff order_refl)
  have "?s ! ?l = c" using nth_length_takeWhile [OF l] by simp
  moreover have "?s ! j \<noteq> c" if "j < ?l" for j using nth_mem [OF that] takeWhile_nth [OF that] set_takeWhileD by fastforce
  ultimately have "List.find (\<lambda>k. prefix [c] (drop k word)) [offset..<Suc (length word)] = Some (offset + ?l)"
    unfolding find_upt_iff prefix_char using l
    by auto (metis add.commute le_add_diff_inverse2 less_diff_conv2 nth_drop)
  then show ?thesis using True by (simp add: find_str_def)
next
  case False
  have "word ! k \<noteq> c" if "offset \<le> k" "k < length word" for k
    using False that nth_mem [of "k - offset" "drop offset word"] by auto
  then show ?thesis using False by (auto simp: find_str_def find_None_iff prefix_char simp del: upt_Suc)
qed

lemma tokens_char: "tokens_from [c] word offset = words (\<lambda>x. x = c) (drop offset word)"
proof (induction "length word - offset" arbitrary: offset rule: less_induct)
  case less
  let ?s = "drop offset word" and ?p = "\<lambda>x. x = c"
  show ?case
  proof (cases "?s")
    case Nil
    then show ?thesis by (subst tokens_from.simps, subst getNextToken.simps) simp
  next
    case (Cons x s')
    then have o: "offset < length word" by (metis drop_all leI list.distinct(1))
    then have s': "s' = drop (Suc offset) word" using Cons by (metis Cons_nth_drop_Suc list.inject)
    show ?thesis
    proof (cases "x = c")
      case True
      then have f: "find_str word [c] offset = Some offset" using Cons by (simp add: find_str_char)
      have "tokens_from [c] word offset = tokens_from [c] word (Suc offset)"
        by (subst (1 2) tokens_from.simps, subst getNextToken.simps) (use o f in simp)
      then show ?thesis using less [of "Suc offset"] o True Cons s' by simp
    next
      case False
      let ?t = "takeWhile (\<lambda>x. x \<noteq> c) ?s" and ?d = "dropWhile (\<lambda>x. x \<noteq> c) ?s"
      have t: "?t \<noteq> []" using False Cons by simp
      have "words ?p (?t @ ?d) = ?t # words ?p ?d"
        by (rule words_run) (use t hd_dropWhile [of "\<lambda>x. x \<noteq> c" ?s] in \<open>auto dest: set_takeWhileD\<close>)
      then have w: "words ?p ?s = ?t # words ?p ?d" by simp
      show ?thesis
      proof (cases "c \<in> set ?s")
        case True
        have g: "getNextToken [c] word offset = (?t, Some (offset + length ?t + 1))"
          by (subst getNextToken.simps) (use o True t takeWhile_eq_take [of "\<lambda>x. x \<noteq> c" ?s, symmetric] in \<open>simp add: find_str_char substr_def\<close>)
        have l: "?d = c # drop (offset + length ?t + 1) word"
        proof -
          have "?d \<noteq> []" using True by simp
          then have "hd ?d = c" using hd_dropWhile [of "\<lambda>x. x \<noteq> c" ?s] by simp
          moreover have "tl ?d = drop (offset + length ?t + 1) word"
            unfolding dropWhile_eq_drop by (simp add: drop_Suc tl_drop drop_drop add_ac)
          ultimately show ?thesis using \<open>?d \<noteq> []\<close> by (metis list.collapse)
        qed
        have "tokens_from [c] word offset = ?t # tokens_from [c] word (offset + length ?t + 1)"
          by (subst tokens_from.simps) (use g t in simp)
        then show ?thesis using w l less [of "offset + length ?t + 1"] o by simp
      next
        case False
        then have "?t = ?s" "?d = []" by (auto simp: takeWhile_eq_all_conv dropWhile_eq_Nil_conv)
        moreover have "getNextToken [c] word offset = (?s, None)"
          by (subst getNextToken.simps) (use o False in \<open>auto simp: find_str_char substr_def\<close>)
        ultimately show ?thesis using w Cons by (subst tokens_from.simps) simp
      qed
    qed
  qed
qed

subsection \<open>The map a trie implements\<close>

fun trie_ok :: "TrieNode \<Rightarrow> bool" where
  "trie_ok (TrieNode w cs) \<longleftrightarrow> sorted_wrt str_less (map fst cs) \<and> [] \<notin> set (map fst cs) \<and> (\<forall>(k, c) \<in> set cs. trie_ok c)"

fun node_at :: "TrieNode \<Rightarrow> string list \<Rightarrow> TrieNode option" where
  "node_at n [] = Some n"
| "node_at n (t # ts) = (case map_of (childs n) t of None \<Rightarrow> None | Some c \<Rightarrow> node_at c ts)"

definition lookup :: "TrieNode \<Rightarrow> string list \<Rightarrow> trie_word option" where
  "lookup n ts = Option.bind (node_at n ts) word_of"

fun ins :: "string \<Rightarrow> int \<Rightarrow> string list \<Rightarrow> TrieNode \<Rightarrow> TrieNode \<times> int" where
  "ins word i [] n = set_word word i n"
| "ins word i (t # ts) n = (case ins word i ts (child_of t n) of (c, i') \<Rightarrow> (put_child t c n, i'))"

lemma add_from_ins: "add_from sep word i offset n = ins word i (tokens_from sep word offset) n"
proof (induction sep word i offset n rule: add_from.induct)
  case (1 sep word i offset n)
  obtain tok o' where g: "getNextToken sep word offset = (tok, o')" by fastforce
  have "(case o' of None \<Rightarrow> set_word word i m | Some k \<Rightarrow> add_from sep word i k m) =
      ins word i (case o' of None \<Rightarrow> [] | Some k \<Rightarrow> tokens_from sep word k) m" for m
    using "1.IH" [OF g [symmetric]] by (cases o') auto
  then show ?case
    by (subst add_from.simps, subst tokens_from.simps) (simp add: g Let_def)
qed

lemma trie_ok_child: "trie_ok n \<Longrightarrow> map_of (childs n) t = Some c \<Longrightarrow> trie_ok c"
  by (cases n) (auto dest: map_of_SomeD)

lemma trie_ok_no_empty: "trie_ok n \<Longrightarrow> map_of (childs n) [] = None"
  by (cases n) (simp add: map_of_eq_None_iff)

lemma find_node_at: "trie_ok n \<Longrightarrow> find_from_node sep word offset n =
    node_at n (case offset of None \<Rightarrow> [] | Some k \<Rightarrow> tokens_from sep word k)"
proof (induction sep word offset n rule: find_from_node.induct)
  case (2 sep word offset n)
  obtain tok o' where g: "getNextToken sep word offset = (tok, o')" by fastforce
  show ?case
  proof (cases "tok = []")
    case True
    then have "o' = None" using getNextToken_empty g by simp
    then show ?thesis using True g trie_ok_no_empty [OF "2.prems"] by (simp add: tokens_from.simps [of sep word offset])
  next
    case False
    then show ?thesis
      using g "2.IH" [OF g [symmetric]] trie_ok_child [OF "2.prems"]
      by (simp add: tokens_from.simps [of sep word offset] split: option.splits)
  qed
qed simp

lemma lookup_simps [simp]: "lookup n [] = word_of n"
  "lookup n (t # ts) = (case map_of (childs n) t of None \<Rightarrow> None | Some c \<Rightarrow> lookup c ts)"
  by (simp_all add: lookup_def split: option.split)

lemma lookup_new: "lookup TrieNode_new ts = None"
  by (cases ts) (simp_all add: TrieNode_new_def)

lemma lookup_child_of: "lookup n (t # ts) = lookup (child_of t n) ts"
  by (simp add: child_of_def lookup_new split: option.split)

abbreviation new_word :: "string \<Rightarrow> int \<Rightarrow> trie_word" where
  "new_word word i \<equiv> \<lparr>tw_index = i, tw_identifier = escapeWord word, tw_value = word\<rparr>"

lemma lookup_put_child: "lookup (put_child t c n) (u # vs) = (if u = t then lookup c vs else lookup n (u # vs))"
  by (simp add: put_child_def)

lemma lookup_ins_both:
  "(\<forall>us. lookup (fst (ins word i ts n)) us = (if us = ts \<and> lookup n ts = None then Some (new_word word i) else lookup n us)) \<and>
   snd (ins word i ts n) = (if lookup n ts = None then i + 1 else i)"
proof (induction ts arbitrary: n)
  case Nil
  have "lookup (fst (set_word word i n)) us =
      (if us = [] \<and> word_of n = None then Some (new_word word i) else lookup n us)" for us
    by (cases us) (auto simp: set_word_def split: option.splits)
  then show ?case by (auto simp: set_word_def split: option.splits)
next
  case (Cons t ts)
  obtain c i' where c: "ins word i ts (child_of t n) = (c, i')" by fastforce
  have "lookup (put_child t c n) us = (if us = t # ts \<and> lookup n (t # ts) = None then Some (new_word word i) else lookup n us)" for us
  proof (cases us)
    case (Cons u vs)
    then show ?thesis
      using c Cons.IH [of "child_of t n"] lookup_child_of [of n t ts] lookup_child_of [of n u vs]
      by (cases "u = t") (auto simp: lookup_put_child simp del: lookup_simps(2))
  qed (simp add: put_child_def)
  then show ?case using c Cons.IH [of "child_of t n"] lookup_child_of [of n t ts] by (simp del: lookup_simps(2))
qed

lemmas lookup_ins = lookup_ins_both [THEN conjunct1, rule_format] and lookup_ins_index = lookup_ins_both [THEN conjunct2]

lemma alist_put_entries: "(k', v') \<in> set (alist_put lt k v m) \<Longrightarrow> (k', v') = (k, v) \<or> (k', v') \<in> set m"
  by (induction m) (auto split: if_splits)

lemma trie_ok_put:
  "trie_ok (TrieNode w cs) \<Longrightarrow> trie_ok c \<Longrightarrow> t \<noteq> [] \<Longrightarrow> trie_ok (TrieNode w (alist_put str_less t c cs))"
  using sorted_alist_put [of cs t c] set_alist_put_keys [of str_less t c cs]
  by (auto simp del: set_map dest!: alist_put_entries)

lemma trie_ok_ins: "trie_ok n \<Longrightarrow> [] \<notin> set ts \<Longrightarrow> trie_ok (fst (ins word i ts n))"
proof (induction ts arbitrary: n)
  case Nil
  then show ?case by (cases n) (auto simp: set_word_def split: option.splits)
next
  case (Cons t ts)
  obtain c i' where c: "ins word i ts (child_of t n) = (c, i')" by fastforce
  have "trie_ok (child_of t n)" using Cons.prems(1) trie_ok_child by (auto simp: child_of_def TrieNode_new_def split: option.splits)
  then have "trie_ok c" using Cons c by (metis fst_conv list.set_intros(2))
  then show ?case using Cons.prems c by (cases n) (auto simp: put_child_def simp del: trie_ok.simps intro!: trie_ok_put)
qed

subsection \<open>The words below a node\<close>

fun entries :: "TrieNode \<Rightarrow> (string list \<times> trie_word) list" where
  "entries (TrieNode w cs) = (case w of None \<Rightarrow> [] | Some x \<Rightarrow> [([], x)]) @
     concat (map (\<lambda>(k, c). map (\<lambda>(p, x). (k # p, x)) (entries c)) cs)"

lemma entries_lookup: "trie_ok n \<Longrightarrow> (ts, x) \<in> set (entries n) \<longleftrightarrow> lookup n ts = Some x"
proof (induction n arbitrary: ts x rule: entries.induct)
  case (1 w cs)
  have d: "distinct (map fst cs)" using "1.prems" sorted_distinct by simp
  show ?case
  proof (cases ts)
    case Nil
    then show ?thesis by (auto split: option.splits)
  next
    case (Cons k p)
    have "(ts, x) \<in> set (entries (TrieNode w cs)) \<longleftrightarrow> (\<exists>c. (k, c) \<in> set cs \<and> (p, x) \<in> set (entries c))"
      unfolding Cons by (auto split: option.splits) force
    also have "\<dots> \<longleftrightarrow> (\<exists>c. (k, c) \<in> set cs \<and> lookup c p = Some x)" using 1 by fastforce
    also have "\<dots> \<longleftrightarrow> lookup (TrieNode w cs) ts = Some x"
      unfolding Cons map_of_eq_Some_iff [OF d, symmetric] by (auto split: option.splits)
    finally show ?thesis .
  qed
qed

lemma distinct_entries: "trie_ok n \<Longrightarrow> distinct (map fst (entries n))"
proof (induction n rule: entries.induct)
  case (1 w cs)
  have d: "distinct (map fst cs)" using "1.prems" sorted_distinct by simp
  have "distinct (map fst (concat (map (\<lambda>(k, c). map (\<lambda>(p, x). (k # p, x)) (entries c)) ds)))" if "set ds \<subseteq> set cs" "distinct (map fst ds)" for ds
    using that
  proof (induction ds)
    case (Cons e ds)
    obtain k c where e: "e = (k, c)" by fastforce
    have "distinct (map fst (entries c))" using "1.IH" [of "(k, c)" k c] "1.prems" Cons.prems(1) e by auto
    then have "distinct (map fst (map (\<lambda>(p, x). (k # p, x)) (entries c)))"
      by (simp add: comp_def case_prod_unfold distinct_map inj_on_def)
    then show ?case using Cons e by (force simp: comp_def case_prod_unfold)
  qed simp
  from this [of cs] d show ?case by (auto split: option.splits)
qed

lemma mset_merge: "mset (merge_lists addr xs ys) = mset xs + mset ys"
  by (induction addr xs ys rule: merge_lists.induct) auto

lemma mset_merge_all: "mset (foldl (merge_lists addr) xs yss) = mset xs + mset (concat yss)"
  by (induction yss arbitrary: xs) (auto simp: mset_merge)

lemma words_below: "mset (getChildsWithWords addr n) = mset (map snd (entries n))"
proof (induction addr n rule: getChildsWithWords.induct)
  case (1 addr w cs)
  have "mset (concat (map (\<lambda>(k, c). getChildsWithWords addr c) ds)) =
      mset (map snd (concat (map (\<lambda>(k, c). map (\<lambda>(p, x). (k # p, x)) (entries c)) ds)))" if "set ds \<subseteq> set cs" for ds
    using that
  proof (induction ds)
    case (Cons e ds)
    obtain k c where e: "e = (k, c)" by fastforce
    then show ?case using Cons "1.IH" [of "(k, c)" k c] by (auto simp: comp_def case_prod_unfold)
  qed simp
  from this [of cs] show ?case by (simp add: mset_merge_all split: option.splits)
qed

lemma node_at_append: "node_at n (ts @ us) = Option.bind (node_at n ts) (\<lambda>m. node_at m us)"
  by (induction ts arbitrary: n) (auto split: option.splits)

lemma lookup_below: "node_at n ts = Some m \<Longrightarrow> lookup m us = lookup n (ts @ us)"
  by (simp add: lookup_def node_at_append)

lemma node_at_ok: "trie_ok n \<Longrightarrow> node_at n ts = Some m \<Longrightarrow> trie_ok m"
  by (induction ts arbitrary: n) (auto dest: trie_ok_child split: option.splits)

lemma set_words_with_prefix:
  assumes "trie_ok (t_root t)"
  shows "set (getWordsWithPrefix addr t p) = {x. \<exists>us. lookup (t_root t) us = Some x \<and> prefix (trie_tokens (seperator t) p) us}"
proof (cases "node_at (t_root t) (trie_tokens (seperator t) p)")
  case None
  have "lookup (t_root t) (trie_tokens (seperator t) p @ vs) = None" for vs using None by (simp add: lookup_def node_at_append)
  then show ?thesis using None find_node_at [OF assms, of "seperator t" p "Some 0"]
    by (auto simp: getWordsWithPrefix_def getNodeWithPrefix_def prefix_def)
next
  case (Some m)
  have "set (getChildsWithWords addr m) = snd ` set (entries m)" using words_below [of addr m] by (metis set_map set_mset_mset)
  also have "\<dots> = {x. \<exists>vs. lookup m vs = Some x}" using entries_lookup [OF node_at_ok [OF assms Some]] by force
  also have "\<dots> = {x. \<exists>us. lookup (t_root t) us = Some x \<and> prefix (trie_tokens (seperator t) p) us}"
    using lookup_below [OF Some] by (auto simp: prefix_def)
  finally show ?thesis using Some find_node_at [OF assms, of "seperator t" p "Some 0"]
    by (simp add: getWordsWithPrefix_def getNodeWithPrefix_def)
qed

lemma distinct_words_with_prefix:
  assumes "trie_ok (t_root t)" and "\<And>ts us x y. lookup (t_root t) ts = Some x \<Longrightarrow> lookup (t_root t) us = Some y \<Longrightarrow> tw_index x = tw_index y \<Longrightarrow> ts = us"
  shows "distinct (map tw_index (getWordsWithPrefix addr t p))"
proof (cases "node_at (t_root t) (trie_tokens (seperator t) p)")
  case (Some m)
  have "distinct (map (\<lambda>e. tw_index (snd e)) (entries m))"
    unfolding distinct_map
  proof (intro conjI inj_onI)
    show "distinct (entries m)" using distinct_entries [OF node_at_ok [OF assms(1) Some]] by (simp add: distinct_map)
    fix a b assume ab: "a \<in> set (entries m)" "b \<in> set (entries m)" "tw_index (snd a) = tw_index (snd b)"
    have "lookup m (fst a) = Some (snd a)" "lookup m (fst b) = Some (snd b)"
      using ab(1,2) entries_lookup [OF node_at_ok [OF assms(1) Some]] by (metis prod.collapse)+
    moreover from this have "fst a = fst b" using assms(2) [OF _ _ ab(3)] lookup_below [OF Some] by (metis same_append_eq)
    ultimately show "a = b" by (metis option.inject prod_eqI)
  qed
  moreover have "mset (map tw_index (getChildsWithWords addr m)) = mset (map (\<lambda>e. tw_index (snd e)) (entries m))"
    using arg_cong [OF words_below [of addr m], of "image_mset tw_index"] by (simp add: multiset.map_comp comp_def)
  ultimately have "distinct (map tw_index (getChildsWithWords addr m))" using mset_eq_imp_distinct_iff by blast
  then show ?thesis using Some find_node_at [OF assms(1), of "seperator t" p "Some 0"]
    by (simp add: getWordsWithPrefix_def getNodeWithPrefix_def)
qed (use find_node_at [OF assms(1), of "seperator t" p "Some 0"] in \<open>simp add: getWordsWithPrefix_def getNodeWithPrefix_def\<close>)

subsection \<open>A trie of words\<close>

definition Trie_of :: "string \<Rightarrow> string list \<Rightarrow> Trie" where
  "Trie_of sep ws = foldl (\<lambda>t w. addWord w t) (Trie_new sep) ws"

text \<open>The word at a token list is the first of the words with these tokens; indices are given out once.\<close>

definition trie_inv :: "string \<Rightarrow> string list \<Rightarrow> Trie \<Rightarrow> bool" where
  "trie_inv sep ws t \<longleftrightarrow> trie_ok (t_root t) \<and> seperator t = sep \<and> 0 \<le> lastIndex t \<and>
     (\<forall>ts. map_option tw_value (lookup (t_root t) ts) = List.find (\<lambda>w. trie_tokens sep w = ts) ws) \<and>
     (\<forall>ts us x y. lookup (t_root t) ts = Some x \<longrightarrow> lookup (t_root t) us = Some y \<longrightarrow> tw_index x = tw_index y \<longrightarrow> ts = us) \<and>
     tw_index ` {x. \<exists>ts. lookup (t_root t) ts = Some x} = {0..<lastIndex t}"

lemma find_snoc: "List.find P (xs @ [x]) = (case List.find P xs of Some y \<Rightarrow> Some y | None \<Rightarrow> if P x then Some x else None)"
  by (induction xs) auto

lemma trie_inv_add:
  assumes "trie_inv sep ws t"
  shows "trie_inv sep (ws @ [w]) (addWord w t)"
proof -
  let ?ts = "trie_tokens sep w" and ?L = "lookup (t_root t)" and ?i = "lastIndex t"
  have inv: "trie_ok (t_root t)" "seperator t = sep" "0 \<le> ?i"
    "\<And>ts. map_option tw_value (?L ts) = List.find (\<lambda>w. trie_tokens sep w = ts) ws"
    "\<And>ts us x y. ?L ts = Some x \<Longrightarrow> ?L us = Some y \<Longrightarrow> tw_index x = tw_index y \<Longrightarrow> ts = us"
    "tw_index ` {x. \<exists>ts. ?L ts = Some x} = {0..<?i}"
    using assms unfolding trie_inv_def by blast+
  obtain r i' where a: "ins w ?i ?ts (t_root t) = (r, i')" by fastforce
  have t: "addWord w t = t\<lparr>t_root := r, lastIndex := i'\<rparr>" using a inv(2) by (simp add: addWord_def add_from_ins)
  have L: "lookup r us = (if us = ?ts \<and> ?L ?ts = None then Some (new_word w ?i) else ?L us)" for us
    using lookup_ins [of w ?i ?ts "t_root t" us] a by simp
  have i': "i' = (if ?L ?ts = None then ?i + 1 else ?i)" using lookup_ins_index [of w ?i ?ts "t_root t"] a by simp
  have ok: "trie_ok r" using trie_ok_ins [OF inv(1) tokens_nonempty, of w ?i sep w 0] a by simp
  have less: "tw_index x < ?i" if "?L ts = Some x" for ts x
  proof -
    have "tw_index x \<in> {0..<?i}" unfolding inv(6) [symmetric] using that by blast
    then show ?thesis by simp
  qed
  have val: "map_option tw_value (lookup r ts) = List.find (\<lambda>w. trie_tokens sep w = ts) (ws @ [w])" for ts
    using inv(4) [of ts, symmetric] L [of ts] by (cases "?L ts") (auto simp: find_snoc)
  have inj: "ts = us" if "lookup r ts = Some x" "lookup r us = Some y" "tw_index x = tw_index y" for ts us x y
    using that inv(5) [of ts x us y] less [of ts x] less [of us y] by (auto simp: L split: if_splits)
  have rng: "tw_index ` {x. \<exists>ts. lookup r ts = Some x} = {0..<i'}"
  proof (cases "?L ?ts = None")
    case True
    have "{x. \<exists>ts. lookup r ts = Some x} = insert (new_word w ?i) {x. \<exists>ts. ?L ts = Some x}"
      using True by (auto simp: L) (metis True option.distinct(1))
    then show ?thesis using True inv(3,6) i' by auto
  next
    case False
    then have "lookup r = ?L" "i' = ?i" using L i' by auto
    then show ?thesis using inv(6) by simp
  qed
  show ?thesis using t ok inv(2,3) val inj rng i' unfolding trie_inv_def by auto
qed

lemma trie_inv_of: "trie_inv sep ws (Trie_of sep ws)"
proof (induction ws rule: rev_induct)
  case Nil
  show ?case by (auto simp: trie_inv_def Trie_of_def Trie_new_def TrieNode_new_def lookup_new [unfolded TrieNode_new_def])
next
  case (snoc w ws)
  then show ?case using trie_inv_add by (simp add: Trie_of_def)
qed

text \<open>
  C39. In the trie of a list of words, the words with a prefix are those whose tokens begin with the tokens of the
  prefix, each token list once, with the first of the words that have it; no index occurs twice and the indices of all words are
  \<open>0\<close> up to the number of token lists. With a separator of one character the tokens are the non-empty pieces between separators.
\<close>

theorem trie_words:
  "distinct (map tw_index (getWordsWithPrefix addr (Trie_of sep ws) p)) \<and>
   tw_value ` set (getWordsWithPrefix addr (Trie_of sep ws) p) =
     {w. \<exists>us. List.find (\<lambda>w. trie_tokens sep w = us) ws = Some w \<and> prefix (trie_tokens sep p) us} \<and>
   tw_index ` set (getWordsWithPrefix addr (Trie_of sep ws) []) = {0..<lastIndex (Trie_of sep ws)} \<and>
   trie_tokens [c] p = words (\<lambda>x. x = c) p"
proof -
  let ?t = "Trie_of sep ws"
  have inv: "trie_ok (t_root ?t)" "seperator ?t = sep"
    "\<And>ts. map_option tw_value (lookup (t_root ?t) ts) = List.find (\<lambda>w. trie_tokens sep w = ts) ws"
    "\<And>ts us x y. lookup (t_root ?t) ts = Some x \<Longrightarrow> lookup (t_root ?t) us = Some y \<Longrightarrow> tw_index x = tw_index y \<Longrightarrow> ts = us"
    "tw_index ` {x. \<exists>ts. lookup (t_root ?t) ts = Some x} = {0..<lastIndex ?t}"
    using trie_inv_of [of sep ws] unfolding trie_inv_def by blast+
  note s = set_words_with_prefix [OF inv(1), unfolded inv(2)]
  have "tw_value ` set (getWordsWithPrefix addr ?t p) =
     {w. \<exists>us. map_option tw_value (lookup (t_root ?t) us) = Some w \<and> prefix (trie_tokens sep p) us}"
    unfolding s by force
  moreover have "trie_tokens sep [] = []" by (subst tokens_from.simps, subst getNextToken.simps) simp
  ultimately show ?thesis
    using distinct_words_with_prefix [where addr = addr and p = p, OF inv(1,4)] inv(3,5) tokens_char [of c p 0] s [of addr "[]"] by simp
qed

end
