(* ===== verification/Spec2Isabelle.thy ===== *)
theory Spec2Isabelle
  imports Interpreter_Persist Debugger Issue_Properties Redundancy Json_Roundtrip Null_DataModel Promela_Properties Invoker_Properties Md5_Properties Trie_Words
begin

text \<open>
  \<^bold>\<open>uSCXML: a verification development of the SCXML interpreter.\<close>

  uSCXML (\<open>src/src/uscxml/\<close>) runs state machines written in SCXML. A session is an object
  \<open>InterpreterImpl\<close> that owns an XML document, a micro stepper, a content executor, a data model and
  three event queues. A call of \<open>step\<close> goes through these parts:

  \<^item> \<open>InterpreterImpl::step\<close> initialises the session on the first call and otherwise calls the micro stepper;
  \<^item> \<open>FastMicroStep::step\<close> takes an event from the internal or the external queue, selects transitions,
    exits and enters states on bit sets, and asks the interpreter through \<open>MicroStepCallbacks\<close> to evaluate
    conditions, execute content, invoke and to raise done events;
  \<^item> \<open>BasicContentExecutor\<close> executes the elements (\<open>send\<close>, \<open>raise\<close>, \<open>if\<close>, \<open>foreach\<close>, \<open>assign\<close> and so on) and acts
    on the interpreter through \<open>ContentExecutorCallbacks\<close>;
  \<^item> \<open>InterpreterImpl\<close> routes sends to I/O processors, keeps the targets of delayed sends and delivers them
    when \<open>BasicDelayedEventQueue\<close> calls \<open>eventReady\<close> from a libevent timer.

  \<^bold>\<open>Theories and the code they model.\<close>

  \<^item> \<open>Prelude\<close>: strings, words separated by spaces, association lists as \<open>std::map\<close>.
  \<^item> \<open>Text_Utils\<close>: \<open>util/String.cpp\<close> and \<open>util/Convenience.cpp\<close> (event descriptor matching, tokenizing, white
    space, escaping, number parsing). The index loops of the code are loops over positions here.
  \<^item> \<open>Base64\<close>: \<open>util/Base64.c\<close>, the encoder and decoder state machines on bytes of 8 bits.
  \<^item> \<open>Dom\<close>: the tree of elements and the traversals of \<open>util/DOM.cpp\<close>; Xerces itself is the data type \<open>node\<close>.
  \<^item> \<open>Data_Values\<close>, \<open>Events\<close>: \<open>messages/Data.h\<close>, \<open>Data.cpp\<close>, \<open>Event.h\<close>, \<open>Event.cpp\<close>.
  \<^item> \<open>Bitset\<close>: \<open>boost::dynamic_bitset\<close> and the macros of \<open>FastMicroStep.cpp\<close> as lists of bits.
  \<^item> \<open>MicroStep\<close>: the tables, the flags (words of 8 bits) and \<open>FastMicroStep::step\<close>, one definition for each
    label of the function; \<open>MicroStep_Sections\<close> and \<open>MicroStep_Runs\<close> hold the lemmas on sections and on
    whole steps, \<open>MicroStep_Persist\<close> models \<open>serialize\<close> and \<open>deserialize\<close>, \<open>MicroStep_Properties\<close> states the
    properties.
  \<^item> \<open>Predicates\<close>: \<open>util/Predicates.cpp\<close>; \<open>MicroStep_Init\<close>: \<open>FastMicroStep::init\<close> from a document to the tables;
    \<open>MicroStep_Machines\<close>: what holds of the tables it builds, and documents run from them.
  \<^item> \<open>EventQueue\<close>: \<open>BasicEventQueue.cpp\<close> and \<open>BasicDelayedEventQueue.cpp\<close>.
  \<^item> \<open>ContentExecutor\<close>: \<open>BasicContentExecutor.cpp\<close>, as functions from the state of the interpreter to an
    outcome and a new state.
  \<^item> \<open>Interpreter\<close>: \<open>InterpreterImpl.cpp\<close> and \<open>plugins/ioprocessor/scxml/SCXMLIOProcessor.cpp\<close>; \<open>interp_exec\<close> and
    \<open>interp_cb\<close> are the two callback interfaces as the interpreter implements them.
    \<open>Interpreter_Properties\<close> follows the delayed sends.
  \<^item> \<open>Executor_Frame\<close>, \<open>MicroStep_Frame\<close>, \<open>Interpreter_Frame\<close>: the contracts between the layers as locales, and
    the conditions on a session that whole steps keep.
  \<^item> \<open>Interpreter_Persist\<close>: \<open>InterpreterImpl::serialize\<close> and \<open>deserialize\<close> on the values that are printed as JSON.
  \<^item> \<open>Reachability\<close>: \<open>getReachableStates\<close> of \<open>util/Predicates.cpp\<close>, a worklist as a partial function.
  \<^item> \<open>Debugger\<close>: \<open>debug/Breakpoint.cpp\<close>, the decisions and commands of \<open>debug/DebugSession.cpp\<close>, and the qualified
    breakpoints of \<open>debug/Debugger.cpp\<close>.
  \<^item> \<open>Factory\<close>: the tables of prototypes and aliases of \<open>plugins/Factory.cpp\<close>.
  \<^item> \<open>Issues\<close>: \<open>debug/InterpreterIssue.cpp\<close>, check by check, on a document that \<open>setupDOM\<close> of \<open>InterpreterImpl.cpp\<close> has prepared;
    \<open>Configurations\<close> (\<open>getAllConfigurations\<close>, \<open>hasLegalCompletion\<close>), \<open>Redundancy\<close> (transitions that are never enabled)
    and \<open>Issue_Properties\<close> hold its theorems.
  \<^item> \<open>Json\<close>: the tokeniser \<open>contrib/src/jsmn/jsmn.c\<close> and \<open>Data::fromJSON\<close>; \<open>Json_Reading\<close> (texts to tokens), \<open>Json_Building\<close>
    (tokens to values) and \<open>Json_Roundtrip\<close> hold its theorems.
  \<^item> \<open>Null_DataModel\<close>: \<open>plugins/datamodel/null/\<close>. \<open>Promela\<close> and \<open>Promela_Properties\<close>: \<open>plugins/datamodel/promela/\<close> without the
    scanner and the parser that flex and bison generate, which are a parameter.
  \<^item> \<open>Invoker\<close> and \<open>Invoker_Properties\<close>: \<open>plugins/invoker/scxml/USCXMLInvoker.cpp\<close>, a nested session in a thread of its own, with the
    interleavings of the two threads as a step relation.
  \<^item> \<open>Md5\<close> and \<open>Md5_Properties\<close>: \<open>util/MD5.c\<close> and \<open>MD5.hpp\<close>, the digest that ties a saved session to its document.
  \<^item> \<open>Trie_Words\<close>: \<open>transform/Trie.cpp\<close>, the trie of event names that the code generators use.
  \<^item> this theory: properties that span the layers.

  \<^bold>\<open>Conventions.\<close> An operation that can throw returns a sum whose left side is the exception: \<open>ErrorExc\<close>
  for \<open>ErrorEvent\<close>, \<open>EventExc\<close> for \<open>Event\<close>, \<open>StdExc\<close> for a standard exception. \<open>Abort\<close> stands for a failed
  assertion, a null pointer or the use of a freed timer; where the micro stepper has no way to report it,
  \<open>i_died\<close> is set. Operations that can only fail this way return an option. Bit sets keep their size,
  flags and bytes are words of 8 bits, delays saturate at 32 bits and the number of iterations of a
  \<open>foreach\<close> is taken modulo \<open>2 ^ 32\<close>. Everything a session reaches through a plugin or a library (data model,
  invokers, other I/O processors, UUIDs, timers, files) is a field of the record \<open>plugins\<close> over an
  arbitrary world; theorems quantify over it or name what they need.

  \<^bold>\<open>Fuel.\<close> Two loops of \<open>ENTER_STATES\<close> climb from a final state towards the root. They get the number of
  states as fuel; \<open>climbing_loops_end\<close> shows for every table that \<open>init\<close> builds that more fuel does not change the
  result, because every parent has a smaller index. The search
  for reachable states is a partial function that is shown to return, also for every machine that the issue checker visits.
  All other loops are structural or come with a termination proof; the tokeniser of JSON is
  called with ever more tokens, and \<open>parse_tokens\<close> ends because a text has fewer tokens than characters.

  \<^bold>\<open>What is shown.\<close> For the micro stepper: the set of transitions it selects is the one that the order of
  the table and the conflict relation determine, the configuration after a microstep, the order of exit and
  entry, recorded histories, invocations that follow the configuration after a macrostep, an invariant
  of all reachable states, that a finished machine stays finished and a cancelled one terminates, and
  that saving and restoring gives back the state. For \<open>init\<close>: tables of the right shape whose parents
  form a tree. For the content executor: an error ends its block and is reported once, an \<open>if\<close>
  executes its first true branch, done events are delivered, and a literal \<open>send\<close> hands over the event
  it describes. For queues: the queue is a FIFO, and timers are used while they are allocated. For the
  interpreter: cancelling is exact, delayed sends reach the queue of their target or are cancelled
  without trace, the assertion of \<open>eventReady\<close> holds in every run, a session keeps its identity and
  can be saved and restored, and the whole composition keeps the invariant of the micro stepper. For
  the document: the least common ancestor, exit sets, and reachable states as a closure. For the debugger:
  when execution stops, and breakpoints as a finite map. For the issue checker: it always returns, a document without
  fatal issues has unique identifiers, existing and compatible targets and plugins that can be created, the
  configurations it enumerates are the legal ones, and a transition it calls redundant is selected only in two
  situations. For JSON: every text of a grammar is read to the value it stands for, a printed value
  comes back, and the token vector is never left. For the data models: the predicate \<open>In\<close>; for Promela the agreement
  of conditions and assignments with a reference semantics over integers, the bounds of arrays and the protection of system
  variables. For a nested session: the events that reach its parent under every interleaving, what cancelling stops, and
  the report of its end. For the trie: the words with a prefix. For the digest: a message
  in pieces has the digest of the whole, padded message. For the helpers: equivalence of the
  index loops with specifications on words, and the round trips of the encodings.
  Some theorems record how the code departs from what it means to do, for example that a restored queue
  has lost the names of its events, or that a failed \<open>invoke\<close> makes a later \<open>uninvoke\<close> fail its assertion.

  \<^bold>\<open>Interfaces.\<close> \<open>event_queue\<close> is the contract of a FIFO, interpreted with \<open>BasicEventQueue\<close>. \<open>exec_keeps\<close> and
  \<open>ms_keeps\<close> are the contracts of the two callback interfaces for a condition on the session;
  \<open>session_frame\<close>, \<open>session_keeps\<close> and \<open>sends_frame\<close> describe such conditions, and sublocales connect them with
  the interpreter's own callbacks. \<open>plugin_timers\<close> states what is relied on about libevent. \<open>plugin_kind\<close> is the contract of
  a table of plugins, interpreted for invokers, data models and I/O processors. \<open>location\<close> is a place of the Promela data
  model that can be assigned, interpreted for names and for fields of the current event.

  \<^bold>\<open>Not modelled.\<close> The data models that are bindings to script engines (Lua, JavaScriptCore, V8, picoc); the directory monitor, the HTTP
  I/O processor, the HTTP server and URL handling, which are bindings to sockets, threads and third-party
  libraries; parsing of XML by Xerces and of Promela by the generated parser; the thread and the HTTP front end of
  the debugger; the code generators under \<open>transform/\<close> apart from the trie; logging, UUIDs and the SHA-1 digest. A callback of
  another thread is modelled as a step between two operations; only for the delayed queue and the nested session is the
  interleaving inside an operation considered. Floating point numbers (delays in seconds) are a parameter.
\<close>

section \<open>Sends through the layers\<close>

lemma enqueue_delayed:
  assumes inv: "sends_inv s" and u: "uuid ev \<noteq> []" "send_target s (uuid ev) = None" and d: "0 < delayMs"
    and timer: "fst (fst (w_timer pl (i_world s))) \<notin> set (dq_live (i_delayQueue s))"
  obtains s' where "enqueue pl type target delayMs ev s = (Inr (), s')" and "sends_inv s'"
    and "map_option cd_userData (pending s' (uuid ev)) = Some ev"
    and "\<And>v. v \<noteq> uuid ev \<Longrightarrow> pending s' v = pending s v"
    and "send_target s' = (send_target s)(uuid ev \<mapsto> (sendid ev, type, target))"
    and "i_internalQueue s' = i_internalQueue s" and "i_externalQueue s' = i_externalQueue s"
proof -
  obtain h now w where t: "w_timer pl (i_world s) = ((h, now), w)" by (metis prod.exhaust)
  have "h \<notin> set (dq_live (i_delayQueue s))" using timer t by simp
  from enqueueDelayed_ok [OF _ this, of now ev delayMs "uuid ev"] inv obtain q where
    q: "dq_enqueueDelayed h now ev delayMs (uuid ev) (i_delayQueue s) = Some q"
      "map_option cd_userData (map_of (dq_callbackData q) (uuid ev)) = Some ev"
      "\<forall>v. v \<noteq> uuid ev \<longrightarrow> map_of (dq_callbackData q) v = pending s v"
    by (auto simp: sends_inv_def)
  let ?s' = "s\<lparr>i_delayedEventTargets := put_key (uuid ev) (sendid ev, type, target) (i_delayedEventTargets s),
      i_delayQueue := q, i_world := w\<rparr>"
  have e: "enqueue pl type target delayMs ev s = (Inr (), ?s')"
    using u d t q(1) by (simp add: enqueue_def enqueueDelayed_def)
  show thesis
    using q enqueue_sends_inv [OF inv u(2) timer e] by (intro that [of ?s'] e) simp_all
qed

text \<open>
  C19. A delayed \<open>send\<close> that a \<open>cancel\<close> element with its identifier follows leaves no trace: executing the two
  elements restores the pending timers and their targets and puts nothing into a queue, so the event
  is never delivered. This runs through the content executor, the interpreter and the delayed queue.
\<close>

theorem delayed_send_cancelled:
  assumes "\<forall>a \<in> {''eventexpr'', ''targetexpr'', ''typeexpr'', ''delayexpr'', ''idlocation'', ''namelist'', ''target''}.
      \<not> HAS_ATTR n a"
    and "HAS_ATTR n ''type''" and "HAS_ATTR n ''id''" and "childNodes n = []" and "getParentState doc n = Some p"
    and "ATTR n ''type'' \<noteq> []" and "map_of (i_ioProcs s) (ATTR n ''type'') = Some SCXMLIOProcessor"
    and "0 < delayOf (interp_exec pl inState) (ATTR n ''delay'')"
    and "HAS_ATTR c ''sendid''" and "ATTR c ''sendid'' = ATTR n ''id''"
    and "sends_inv s" and "\<forall>v. map_option fst (send_target s v) \<noteq> Some (ATTR n ''id'')"
    and "w_getUUID pl (i_world s) = (u, w)" and "u \<noteq> []" and "send_target s u = None"
    and "fst (fst (w_timer pl w)) \<notin> set (dq_live (i_delayQueue s))"
  shows "\<exists>s1 s2. processSend (interp_exec pl inState) doc n s = (Inr (), s1) \<and> pending s1 u \<noteq> None \<and>
    processCancel (interp_exec pl inState) doc c s1 = (Inr (), s2) \<and> pending s2 = pending s \<and> send_target s2 = send_target s \<and>
    i_internalQueue s2 = i_internalQueue s \<and> i_externalQueue s2 = i_externalQueue s"
proof -
  define cc where "cc = interp_exec pl inState"
  let ?s0 = "s\<lparr>i_world := w\<rparr>" and ?id = "ATTR n ''id''" and ?ty = "ATTR n ''type''"
  let ?ev = "(Event_new u)\<lparr>ename := ATTR n ''event'', eventType := EXTERNAL, invokeid := i_invokeId s, sendid := ?id,
      hideSendId := False\<rparr>"
  have target: "ATTR n ''target'' = []" using assms(1) by (simp add: HAS_ATTR_def ATTR_def)
  have uid: "\<forall>e. x_getUUID cc e = (Inr (fst (w_getUUID pl (i_world e))), e\<lparr>i_world := snd (w_getUUID pl (i_world e))\<rparr>)"
    by (simp add: cc_def interp_exec_def uuidM_def split: prod.split)
  have "processSend cc doc n s = enqueue pl ?ty [] (delayOf cc (ATTR n ''delay'')) ?ev ?s0"
    using processSend_literal [of n doc p cc "\<lambda>e. fst (w_getUUID pl (i_world e))"
        "\<lambda>e. e\<lparr>i_world := snd (w_getUUID pl (i_world e))\<rparr>" s] assms(1-6) uid assms(7,13) target
    by (simp add: cc_def interp_exec_def checkValidSendType_def ioproc_valid_def isValidTarget_def bindM_def returnM_def)
  moreover obtain s1 where s1: "enqueue pl ?ty [] (delayOf cc (ATTR n ''delay'')) ?ev ?s0 = (Inr (), s1)"
    "sends_inv s1" "map_option cd_userData (pending s1 u) = Some ?ev" "\<And>v. v \<noteq> u \<Longrightarrow> pending s1 v = pending s v"
    "send_target s1 = (send_target s)(u \<mapsto> (?id, ?ty, []))" "i_internalQueue s1 = i_internalQueue s"
    "i_externalQueue s1 = i_externalQueue s"
  proof (rule enqueue_delayed [of ?s0 ?ev "delayOf cc (ATTR n ''delay'')" pl ?ty "[]"])
    show "sends_inv ?s0" using assms(11) by (simp add: sends_inv_def del: map_of_eq_Some_iff)
  qed (use assms(8,14-16) in \<open>simp_all add: Event_new_def cc_def\<close>)
  moreover from s1(2) have i1: "dq_inv (i_delayQueue s1)" "distinct (map fst (i_delayedEventTargets s1))"
    by (simp_all add: sends_inv_def)
  moreover obtain m q where c: "cancelDelayed ?id s1 = (Inr (), s1\<lparr>i_delayedEventTargets := m, i_delayQueue := q\<rparr>)"
    "\<And>v. map_of m v = (case send_target s1 v of None \<Rightarrow> None | Some x \<Rightarrow> if fst x = ?id then None else Some x)"
    "\<And>v. map_of (dq_callbackData q) v = (if map_option fst (send_target s1 v) = Some ?id then None else pending s1 v)"
    by (rule cancelDelayed_effect [OF i1]) (rule that)
  moreover have "processCancel cc doc c s1 = cancelDelayed ?id s1"
    using assms(9,10) by (simp add: processCancel_def cc_def interp_exec_def)
  moreover have "map_of m = send_target s"
    using c(2) s1(5) assms(12,15) by (auto simp: fun_eq_iff split: option.splits simp del: map_of_eq_Some_iff)
  moreover have "pending s u = None" using assms(11,15) by (auto simp: sends_inv_def)
  moreover from this have "map_of (dq_callbackData q) = pending s"
    using c(3) s1(4,5) assms(11,12,15) by (auto simp: fun_eq_iff sends_inv_def simp del: map_of_eq_Some_iff)
  ultimately show ?thesis unfolding cc_def [symmetric] by auto
qed

definition sample_cancel :: node where
  "sample_cancel = Element 13 None ''cancel'' [] [(''sendid'', ''id7'')] []"

definition sample_timer :: node where
  "sample_timer = Element 12 None ''send'' [] [(''event'', ''go''), (''type'', SCXML_IOPROC), (''id'', ''id7''), (''delay'', ''1s'')] []"

definition sample_block :: node where
  "sample_block = Element 10 None ''state'' [] [(''id'', ''s0'')] [Element 11 None ''onentry'' [] [] [sample_timer, sample_cancel]]"

lemma digits_8: "digits 8 = ''8''"
  by code_simp

theorem delayed_send_cancelled_witness:
  "\<exists>s1 s2. processSend (interp_exec sample_plugins (\<lambda>_. False)) sample_block sample_timer sample_pending = (Inr (), s1) \<and>
    pending s1 ''8'' \<noteq> None \<and>
    processCancel (interp_exec sample_plugins (\<lambda>_. False)) sample_block sample_cancel s1 = (Inr (), s2) \<and>
    pending s2 = pending sample_pending \<and> send_target s2 = send_target sample_pending \<and>
    i_internalQueue s2 = i_internalQueue sample_pending \<and> i_externalQueue s2 = i_externalQueue sample_pending"
proof (rule delayed_send_cancelled [where p = sample_block and w = 9])
  show "getParentState sample_block sample_timer = Some sample_block" by code_simp
  show "sends_inv sample_pending" by (rule sends_reach_inv [OF sample_pending_reach])
  show "0 < delayOf (interp_exec sample_plugins (\<lambda>_. False)) (ATTR sample_timer ''delay'')"
  proof -
    have "mkNumAttr ''1s'' = \<lparr>value_of = ''1'', unit_of = ''s''\<rparr>" by code_simp
    then show ?thesis
      by (simp add: delayOf_def sample_timer_def ATTR_def interp_exec_def sample_plugins_def)
  qed
qed (simp_all add: sample_timer_def sample_cancel_def HAS_ATTR_def ATTR_def SCXML_IOPROC_def sample_pending_def sample_session_def
  enqueue_def enqueueDelayed_def sample_plugins_def Event_new_def dq_create_def dq_enqueueDelayed_def digits_8)

section \<open>Runs of an interpreter\<close>

text \<open>
  An interpreter for a document: it is stepped and cancelled in any order, and its queues, data and
  plugins may change arbitrarily in between.
\<close>

inductive irun :: "(string \<times> ioproc \<times> string list) list \<Rightarrow> 'w plugins \<Rightarrow> node \<Rightarrow> 'w Interpreter \<Rightarrow> bool"
  for factory pl scxml where
  created: "\<not> I_isInitialized I \<Longrightarrow> I_micro I = None \<Longrightarrow> I_scxml I = scxml \<Longrightarrow> I_state I = USCXML_INSTANTIATED \<Longrightarrow>
    irun factory pl scxml I"
| stepped: "irun factory pl scxml I \<Longrightarrow> interp_step factory pl b I = Some (r, I') \<Longrightarrow> irun factory pl scxml I'"
| cancelled: "irun factory pl scxml I \<Longrightarrow> interp_cancel pl I = Some I' \<Longrightarrow> irun factory pl scxml I'"
| outside: "irun factory pl scxml I \<Longrightarrow> irun factory pl scxml (I\<lparr>I_env := e\<rparr>)"

text \<open>What holds of the micro stepper inside: it was built by \<open>init\<close> and is in a reachable state.\<close>

definition irun_inv :: "'w plugins \<Rightarrow> node \<Rightarrow> 'w Interpreter \<Rightarrow> bool" where
  "irun_inv pl scxml I \<longleftrightarrow>
    (if I_isInitialized I
     then \<exists>t m. I_micro I = Some (t, m) \<and> ms_init scxml = Some (t, ms_initial t) \<and>
       reach t (interp_cb pl (I_scxml I)) m (I_env I) \<and>
       (I_state I = USCXML_FINISHED \<longrightarrow> has_flag (m_flags m) CTX_FINISHED)
     else I_micro I = None \<and> I_scxml I = scxml \<and> I_state I = USCXML_INSTANTIATED)"

lemma step_keeps_inv:
  assumes inv: "irun_inv pl scxml I" and step: "interp_step factory pl b I = Some (r, I')"
    and wf: "\<And>t m. ms_init scxml = Some (t, m) \<Longrightarrow> m = ms_initial t"
  shows "irun_inv pl scxml I'"
proof (cases "I_isInitialized I")
  case False
  then obtain t m where i: "ms_init scxml = Some (t, m)"
    and I': "I' = I\<lparr>I_isInitialized := True, I_scxml := resortStates (XML_PREFIX scxml) scxml, I_micro := Some (t, m),
        I_env := (I_env I)\<lparr>i_ioProcs := registerIO factory (i_ioProcs (I_env I))\<rparr>, I_state := USCXML_INITIALIZED\<rparr>"
    using inv step by (auto simp: irun_inv_def interp_step_def interp_init_def)
  then show ?thesis using wf [OF i] by (simp add: irun_inv_def reach.initial)
next
  case True
  then obtain t m where m: "I_micro I = Some (t, m)" "ms_init scxml = Some (t, ms_initial t)"
      "reach t (interp_cb pl (I_scxml I)) m (I_env I)"
      "I_state I = USCXML_FINISHED \<longrightarrow> has_flag (m_flags m) CTX_FINISHED"
    using inv by (auto simp: irun_inv_def)
  obtain x m' e where s: "ms_step t (interp_cb pl (I_scxml I)) b (m, I_env I) = (x, m', e)" by (metis prod.exhaust)
  have r: "reach t (interp_cb pl (I_scxml I)) m' e" using reach.stepped [OF m(3) s] .
  have I': "I' = (case x of Inl _ \<Rightarrow> I | Inr st \<Rightarrow> I\<lparr>I_state := st\<rparr>)\<lparr>I_micro := Some (t, m'), I_env := e\<rparr>"
    using step True m(1) s by (auto simp: interp_step_def split: sum.splits)
  have "has_flag (m_flags m') CTX_FINISHED" if "I_state I' = USCXML_FINISHED"
  proof (cases x)
    case (Inl y)
    then have "has_flag (m_flags m) CTX_FINISHED" using that I' m(4) by simp
    then show ?thesis using s Inl by (simp add: ms_step_def)
  next
    case (Inr st)
    then show ?thesis using that I' s FINISHED_cases by simp
  qed
  then show ?thesis using I' r m True by (auto simp: irun_inv_def split: sum.splits)
qed

lemma reach_cancelled_env: "reach t cb m e \<Longrightarrow> reach t cb (m\<lparr>m_isCancelled := True\<rparr>) e'"
  using reach.environment [OF reach.cancelled] by (auto simp: markAsCancelled_def)

lemma irun_keeps_inv:
  assumes "irun factory pl scxml I" and wf: "\<And>t m. ms_init scxml = Some (t, m) \<Longrightarrow> m = ms_initial t"
  shows "irun_inv pl scxml I"
  using assms(1)
proof induction
  case (stepped I b r I')
  then show ?case using step_keeps_inv wf by blast
next
  case (cancelled I I')
  then show ?case
    by (auto simp: irun_inv_def interp_cancel_def markAsCancelled_def split: option.splits prod.splits
        intro: reach_cancelled_env)
next
  case (outside I e)
  have "reach t (interp_cb pl (I_scxml I)) m e" if "reach t (interp_cb pl (I_scxml I)) m (I_env I)" for t m
    using that by (rule reach.environment)
  then show ?case using outside.IH by (auto simp: irun_inv_def)
qed (simp add: irun_inv_def)


definition sample_next :: "nat Interpreter \<Rightarrow> nat Interpreter" where
  "sample_next I = (case interp_step [] sample_plugins 0 I of None \<Rightarrow> I | Some (_, I') \<Rightarrow> I')"

lemma sample_next_run: "irun [] sample_plugins sample_doc I \<Longrightarrow> irun [] sample_plugins sample_doc (sample_next I)"
  by (auto simp: sample_next_def split: option.split intro: irun.stepped)


section \<open>Timers in whole runs\<close>

text \<open>
  An interpreter as its environment drives it: stepped, cancelled and reset by its owner, with events
  received from outside and timers that fire between these calls.
\<close>

inductive session_run :: "(string \<times> ioproc \<times> string list) list \<Rightarrow> 'w plugins \<Rightarrow> 'w Interpreter \<Rightarrow> bool"
  for factory pl where
  started: "i_delayQueue (I_env I) = dq_create \<Longrightarrow> i_delayedEventTargets (I_env I) = [] \<Longrightarrow> session_run factory pl I"
| run_step: "session_run factory pl I \<Longrightarrow> interp_step factory pl b I = Some (r, I') \<Longrightarrow> session_run factory pl I'"
| run_cancel: "session_run factory pl I \<Longrightarrow> interp_cancel pl I = Some I' \<Longrightarrow> session_run factory pl I'"
| run_reset: "session_run factory pl I \<Longrightarrow> interp_reset I = Some I' \<Longrightarrow> session_run factory pl I'"
| received: "session_run factory pl I \<Longrightarrow> session_run factory pl (I\<lparr>I_env := enqueueExternal ev (I_env I)\<rparr>)"
| timer: "session_run factory pl I \<Longrightarrow> timer_fire pl u (I_env I) = (Inr (), e) \<Longrightarrow> session_run factory pl (I\<lparr>I_env := e\<rparr>)"

context plugin_timers
begin

lemma session_run_sends: "session_run factory pl I \<Longrightarrow> sends_ok used (I_env I)"
proof (induction rule: session_run.induct)
  case (started I)
  then show ?case by (simp add: sends_ok_def sends_inv_def dq_create_def dq_inv_def)
next
  case (run_reset I I')
  then show ?case using reset_keeps by (auto simp: interp_reset_def)
next
  case (received I ev)
  then show ?case by (simp add: sends.enqueues_keep)
next
  case (timer I u e)
  then show ?case using timer_fire_keeps by simp
qed (blast intro: sends.interp_step_keeps sends.interp_cancel_keeps)+

end



end
